(* ===== verification/Prelude.thy ===== *)
theory Prelude
  imports Main "HOL-Library.Word"
begin

text \<open>
  Shared vocabulary of the development: the lemma collections, Go's 64-bit signed
  arithmetic, and the generic list and map facts that several components use.

  A Go string or byte slice is a \<open>string\<close>, one \<open>char\<close> per byte.
\<close>

named_theorems venue_consts \<open>unfoldings of the constants of the exchange package\<close>

named_theorems frame \<open>which parts of a state an operation leaves alone\<close>

subsection \<open>Go's int: 64 bits, two's complement\<close>

text \<open>
  Go's \<open>int\<close> on the platforms the program runs on is a 64-bit two's-complement number.
  A value is an \<open>int\<close>; an arithmetic operation whose overflow matters is followed by
  \<open>wrap64\<close>.
\<close>

definition wrap64 :: "int \<Rightarrow> int" where
  "wrap64 x = sint (word_of_int x :: 64 word)"

abbreviation int64 :: "int \<Rightarrow> bool" where
  "int64 x \<equiv> - (2 ^ 63) \<le> x \<and> x < 2 ^ 63"

lemma wrap64_id: "- (2 ^ 63) \<le> x \<Longrightarrow> x < 2 ^ 63 \<Longrightarrow> wrap64 x = x"
  by (simp add: wrap64_def int_word_sint)

lemma wrap64_range: "- (2 ^ 63) \<le> wrap64 x" "wrap64 x < 2 ^ 63"
  using sint_range_size [of "word_of_int x :: 64 word"]
  by (simp_all add: wrap64_def word_size)

lemma wrap64_word: "(word_of_int (wrap64 x) :: 64 word) = word_of_int x"
  by (simp add: wrap64_def)

lemma wrap64_mod: "wrap64 x = (x + 2 ^ 63) mod 2 ^ 64 - 2 ^ 63"
  unfolding wrap64_def by (subst int_word_sint) simp

lemma wrap64_period: "wrap64 x = wrap64 (x - 2 ^ 64)"
proof -
  have "(x - 2 ^ 64 + 2 ^ 63) mod 2 ^ 64 = (x + 2 ^ 63 - 2 ^ 64) mod (2 ^ 64 :: int)"
    by (simp only: diff_add_eq)
  also have "\<dots> = (x + 2 ^ 63 - 2 ^ 64 + 2 ^ 64) mod 2 ^ 64" by (rule mod_add_self2 [symmetric])
  also have "\<dots> = (x + 2 ^ 63) mod 2 ^ 64" by (simp only: diff_add_cancel)
  finally show ?thesis by (simp only: wrap64_mod)
qed

lemma wrap64_mult_add: "wrap64 (wrap64 (wrap64 x * a) + b) = wrap64 (x * a + b)"
proof -
  have "(word_of_int (wrap64 (wrap64 x * a) + b) :: 64 word) = word_of_int (x * a + b)"
    by (simp only: wi_hom_add [symmetric] wi_hom_mult [symmetric] wrap64_word)
  then show ?thesis by (simp add: wrap64_def)
qed

text \<open>The value of a byte, for the comparisons and differences Go makes on bytes.\<close>

abbreviation byte :: "char \<Rightarrow> int" where
  "byte c \<equiv> of_char c"

subsection \<open>Positions and splitting\<close>

text \<open>\<open>bytes.IndexByte\<close>: the first position of a byte, or -1.\<close>

fun IndexByte :: "'a list \<Rightarrow> 'a \<Rightarrow> int" where
  "IndexByte [] c = - 1"
| "IndexByte (x # xs) c =
     (if x = c then 0 else let k = IndexByte xs c in if k < 0 then - 1 else k + 1)"

lemma IndexByte_neg_iff: "IndexByte xs c < 0 \<longleftrightarrow> c \<notin> set xs"
  by (induction xs) (auto simp: Let_def)

lemma IndexByte_append:
  "c \<notin> set xs \<Longrightarrow> IndexByte (xs @ c # ys) c = int (length xs)"
  by (induction xs) (auto simp: Let_def)

lemma IndexByte_notin: "c \<notin> set xs \<Longrightarrow> IndexByte xs c = - 1"
  by (induction xs) (auto simp: Let_def)

lemma IndexByte_split:
  assumes "c \<in> set xs"
  obtains us vs where "xs = us @ c # vs" "c \<notin> set us" "IndexByte xs c = int (length us)"
  using assms by (metis IndexByte_append split_list_first)

text \<open>The pieces of a list between the occurrences of a separator.\<close>

fun split_on :: "'a \<Rightarrow> 'a list \<Rightarrow> 'a list list" where
  "split_on s [] = [[]]"
| "split_on s (x # xs) =
     (if x = s then [] # split_on s xs
      else case split_on s xs of [] \<Rightarrow> [[x]] | p # ps \<Rightarrow> (x # p) # ps)"

fun join_with :: "'a \<Rightarrow> 'a list list \<Rightarrow> 'a list" where
  "join_with s [] = []"
| "join_with s [p] = p"
| "join_with s (p # q # ps) = p @ s # join_with s (q # ps)"

lemma split_on_nonempty [simp]: "split_on s xs \<noteq> []"
  by (induction xs) (auto split: list.splits)

lemma split_on_notin: "s \<notin> set xs \<Longrightarrow> split_on s xs = [xs]"
  by (induction xs) auto

lemma split_on_append:
  "s \<notin> set xs \<Longrightarrow> split_on s (xs @ s # ys) = xs # split_on s ys"
  by (induction xs) auto

lemma split_on_append_gen:
  "split_on s (xs @ s # ys) = split_on s xs @ split_on s ys"
  by (induction xs) (auto split: list.splits simp: neq_Nil_conv)

lemma split_on_pieces: "p \<in> set (split_on s xs) \<Longrightarrow> s \<notin> set p"
  by (induction xs arbitrary: p) (auto split: if_splits list.splits)

lemma join_with_Cons:
  "ps \<noteq> [] \<Longrightarrow> join_with s (p # ps) = p @ s # join_with s ps"
  by (cases ps) auto

lemma join_split: "join_with s (split_on s xs) = xs"
proof (induction xs)
  case (Cons x xs)
  obtain p ps where p: "split_on s xs = p # ps"
    by (cases "split_on s xs") auto
  with Cons.IH show ?case by (cases ps) auto
qed simp

lemma map_split_join:
  "s \<notin> set p \<Longrightarrow> map (\<lambda>c. if c = s then t else c) p = p"
  by (induction p) auto

lemma map_join_with:
  assumes "\<And>p. p \<in> set ps \<Longrightarrow> s \<notin> set p"
  shows "map (\<lambda>c. if c = s then t else c) (join_with s ps) = join_with t ps"
  using assms
proof (induction s ps rule: join_with.induct)
  case (3 s p q ps)
  then show ?case by (simp add: map_split_join)
qed (simp_all add: map_split_join)

end
