(* ===== verification/GoLib.thy ===== *)
theory GoLib
  imports Prelude
begin

text \<open>
  The pieces of Go's standard library that the program uses on strings: \<open>fmt\<close>'s \<open>%d\<close> and
  \<open>%06d\<close> on counters, \<open>strconv.Atoi\<close> and \<open>strconv.FormatInt\<close>, \<open>strings.ToUpper\<close> and
  \<open>strings.TrimSpace\<close> (on ASCII text), with the facts about them that the components need:
  printing a counter is injective, and reading a printed number gives it back.
\<close>

subsection \<open>Decimal digits\<close>

definition digit_char :: "nat \<Rightarrow> char" where
  "digit_char d = char_of (48 + int d)"

definition is_digit :: "char \<Rightarrow> bool" where
  "is_digit c \<longleftrightarrow> byte (CHR ''0'') \<le> byte c \<and> byte c \<le> byte (CHR ''9'')"

text \<open>The number a digit string denotes, on unbounded integers.\<close>

definition dval_from :: "int \<Rightarrow> string \<Rightarrow> int" where
  "dval_from = foldl (\<lambda>n c. n * 10 + (byte c - byte (CHR ''0'')))"

definition dval :: "string \<Rightarrow> int" where
  "dval = dval_from 0"

lemma dval_from_simps [simp]:
  "dval_from n [] = n"
  "dval_from n (c # cs) = dval_from (n * 10 + (byte c - byte (CHR ''0''))) cs"
  by (simp_all add: dval_from_def)

lemma dval_from_append: "dval_from n (xs @ ys) = dval_from (dval_from n xs) ys"
  by (simp add: dval_from_def)

lemma byte_digit_char [simp]: "d < 10 \<Longrightarrow> byte (digit_char d) = 48 + int d"
  by (simp add: digit_char_def)

lemma is_digit_digit_char [simp]: "d < 10 \<Longrightarrow> is_digit (digit_char d)"
  by (simp add: is_digit_def)

fun itoa :: "nat \<Rightarrow> string" where
  "itoa n = (if n < 10 then [digit_char n] else itoa (n div 10) @ [digit_char (n mod 10)])"

declare itoa.simps [simp del]

lemma itoa_nonempty [simp]: "itoa n \<noteq> []"
  by (subst itoa.simps) simp

lemma itoa_digits: "c \<in> set (itoa n) \<Longrightarrow> is_digit c"
proof (induction n rule: itoa.induct)
  case (1 n)
  then show ?case
    by (cases "n < 10") (auto simp: itoa.simps [of n])
qed

lemma dval_itoa: "dval (itoa n) = int n"
proof (induction n rule: itoa.induct)
  case (1 n)
  show ?case
  proof (cases "n < 10")
    case True
    then show ?thesis by (simp add: itoa.simps [of n] dval_def)
  next
    case False
    with "1.IH" have "dval (itoa (n div 10)) = int (n div 10)" by simp
    moreover have "int (n div 10) * 10 + int (n mod 10) = int n"
      by (simp add: zdiv_int zmod_int)
    ultimately show ?thesis using False
      by (simp add: itoa.simps [of n] dval_def dval_from_append)
  qed
qed

text \<open>The verb \<open>%06d\<close> on a counter that is never negative: zeros on the left, at least six digits.\<close>

definition fmt06 :: "nat \<Rightarrow> string" where
  "fmt06 n = replicate (6 - length (itoa n)) (CHR ''0'') @ itoa n"

lemma dval_zeros: "dval_from 0 (replicate k (CHR ''0'') @ xs) = dval_from 0 xs"
  by (induction k) simp_all

lemma dval_fmt06: "dval (fmt06 n) = int n"
  using dval_itoa [of n] by (simp add: fmt06_def dval_def dval_zeros)

lemma fmt06_inj: "fmt06 m = fmt06 n \<longleftrightarrow> m = n"
  by (metis dval_fmt06 of_nat_eq_iff)

lemma inj_fmt06 [simp]: "inj fmt06"
  by (simp add: inj_def fmt06_inj)

subsection \<open>strconv.Atoi\<close>

text \<open>
  An optional sign, then decimal digits; \<open>None\<close> stands for either of its errors, a string
  that is not a number and a number that does not fit the 64 bits.
\<close>

definition Atoi :: "string \<Rightarrow> int option" where
  "Atoi s =
     (let neg = (s \<noteq> [] \<and> hd s = CHR ''-'');
          ds = (if s \<noteq> [] \<and> (hd s = CHR ''-'' \<or> hd s = CHR ''+'') then tl s else s);
          v = (if neg then - dval ds else dval ds)
      in if ds = [] \<or> \<not> list_all is_digit ds then None
         else if int64 v then Some v else None)"

definition itoa_int :: "int \<Rightarrow> string" where
  "itoa_int n = (if n < 0 then CHR ''-'' # itoa (nat (- n)) else itoa (nat n))"

lemma is_digit_not_sign: "is_digit c \<Longrightarrow> c \<noteq> CHR ''-'' \<and> c \<noteq> CHR ''+''"
  by (auto simp: is_digit_def)

lemma itoa_hd: "is_digit (hd (itoa n))"
  by (rule itoa_digits [of _ n]) simp

lemma Atoi_itoa: "int64 n \<Longrightarrow> Atoi (itoa_int n) = Some n"
  using is_digit_not_sign [OF itoa_hd [of "nat n"]] itoa_digits
  by (auto simp: Atoi_def itoa_int_def dval_itoa Let_def list_all_iff)

subsection \<open>strings.ToUpper and strings.TrimSpace on ASCII\<close>

definition ToUpperChar :: "char \<Rightarrow> char" where
  "ToUpperChar c = (if byte (CHR ''a'') \<le> byte c \<and> byte c \<le> byte (CHR ''z'')
                    then char_of (byte c - 32) else c)"

definition ToUpper :: "string \<Rightarrow> string" where
  "ToUpper s = map ToUpperChar s"

definition is_space :: "char \<Rightarrow> bool" where
  "is_space c \<longleftrightarrow> c = CHR '' '' \<or> (9 \<le> byte c \<and> byte c \<le> 13)"

definition TrimSpace :: "string \<Rightarrow> string" where
  "TrimSpace s = rev (dropWhile is_space (rev (dropWhile is_space s)))"

lemma ToUpper_simps [simp]:
  "ToUpper [] = []" "ToUpper (c # cs) = ToUpperChar c # ToUpper cs"
  by (simp_all add: ToUpper_def)

subsection \<open>strconv.FormatInt in base 36\<close>

definition digit36 :: "nat \<Rightarrow> char" where
  "digit36 d = (if d < 10 then char_of (48 + int d) else char_of (87 + int d))"

fun format36 :: "nat \<Rightarrow> string" where
  "format36 n = (if n < 36 then [digit36 n] else format36 (n div 36) @ [digit36 (n mod 36)])"

declare format36.simps [simp del]

end
