(* ===== verification/Fixlog.thy ===== *)
theory Fixlog
  imports GoLib
begin

text \<open>
  The redacting log factory (\<open>internal/fixlog/redact.go\<close>): \<open>Redact\<close> and its
  helpers \<open>isSecret\<close> and \<open>atoiStrict\<close>, and the log methods that write one line each.
  The reference definition \<open>redact_fields\<close> splits the message at its SOH bytes; the
  lemmas show that the index loop of the source computes it, and that what is written does
  not depend on a masked value.
\<close>

subsection \<open>Constants\<close>

definition soh :: char where
  "soh = CHR 0x01"

definition displaySep :: char where
  "displaySep = CHR ''|''"

definition mask_text :: string where
  "mask_text = ''****''"

definition SecretTags :: "int list" where
  "SecretTags = [96, 554]"

subsection \<open>Tag numbers\<close>

text \<open>
  The loop of \<open>atoiStrict\<close>, from the value read so far. The accumulator is a Go
  \<open>int\<close>: both the multiplication and the addition wrap.
\<close>

fun atoi_loop :: "int \<Rightarrow> string \<Rightarrow> int \<times> bool" where
  "atoi_loop n [] = (n, True)"
| "atoi_loop n (c # cs) =
     (if byte c < byte (CHR ''0'') \<or> byte (CHR ''9'') < byte c then (0, False)
      else atoi_loop (wrap64 (wrap64 (n * 10) + (byte c - byte (CHR ''0'')))) cs)"

definition atoiStrict :: "string \<Rightarrow> int \<times> bool" where
  "atoiStrict b = (if b = [] then (0, False) else atoi_loop 0 b)"

text \<open>The range loop over \<open>SecretTags\<close> stops at the first match.\<close>

fun secret_loop :: "int \<Rightarrow> int list \<Rightarrow> bool" where
  "secret_loop n [] = False"
| "secret_loop n (s # ss) = (if s = n then True else secret_loop n ss)"

definition isSecret :: "string \<Rightarrow> bool" where
  "isSecret tag = (case atoiStrict tag of (n, ok) \<Rightarrow>
     if \<not> ok then False else secret_loop n SecretTags)"

subsection \<open>Redact\<close>

text \<open>
  One iteration per field, from index \<open>i\<close>. \<open>raw[i:]\<close> is \<open>drop i raw\<close>; the field ends
  at the next SOH or at the end of the message, and a separator is written only where the
  message had an SOH.
\<close>

definition redact_field :: "string \<Rightarrow> string" where
  "redact_field field =
     (let eq = IndexByte field (CHR ''='')
      in if 0 < eq \<and> isSecret (take (nat eq) field)
         then take (nat eq + 1) field @ mask_text else field)"

function redact_loop :: "string \<Rightarrow> nat \<Rightarrow> string \<Rightarrow> string" where
  "redact_loop raw i out =
     (if i < length raw then
        let k = IndexByte (drop i raw) soh;
            e = (if k < 0 then length raw - i else nat k);
            field = take e (drop i raw);
            out1 = out @ redact_field field;
            out2 = (if i + e < length raw then out1 @ [displaySep] else out1)
        in redact_loop raw (i + e + 1) out2
      else out)"
  by pat_completeness auto
termination
  by (relation "measure (\<lambda>(raw, i, out). length raw - i)") (auto simp: Let_def)

declare redact_loop.simps [simp del]

definition Redact :: "string \<Rightarrow> string" where
  "Redact raw = redact_loop raw 0 []"

subsection \<open>The log\<close>

text \<open>
  A logger writes lines to a shared writer; the writer's contents are the state. The
  prefix is padded on the right to 28 columns, as the verb \<open>%-28s\<close> does.
\<close>

record logger =
  lg_prefix :: string

definition CreateLog :: logger where
  "CreateLog = \<lparr>lg_prefix = ''GLOBAL''\<rparr>"

definition CreateSessionLog :: "string \<Rightarrow> logger" where
  "CreateSessionLog sid = \<lparr>lg_prefix = sid\<rparr>"

definition pad28 :: "string \<Rightarrow> string" where
  "pad28 s = s @ replicate (28 - length s) (CHR '' '')"

definition log_write :: "logger \<Rightarrow> string \<Rightarrow> string \<Rightarrow> string \<Rightarrow> string" where
  "log_write l dir s w = w @ pad28 (lg_prefix l) @ '' '' @ dir @ '' '' @ s @ [CHR 0x0A]"

definition OnIncoming :: "logger \<Rightarrow> string \<Rightarrow> string \<Rightarrow> string" where
  "OnIncoming l b w = log_write l ''<--'' (Redact b) w"

definition OnOutgoing :: "logger \<Rightarrow> string \<Rightarrow> string \<Rightarrow> string" where
  "OnOutgoing l b w = log_write l ''-->'' (Redact b) w"

definition OnEvent :: "logger \<Rightarrow> string \<Rightarrow> string \<Rightarrow> string" where
  "OnEvent l s w = log_write l ''   '' s w"

lemmas log_defs = log_write_def OnIncoming_def OnOutgoing_def OnEvent_def

subsection \<open>The reference definition\<close>

text \<open>What the loop is for: every field on its own, joined by the display separator.\<close>

definition redact_fields :: "string \<Rightarrow> string" where
  "redact_fields raw = join_with displaySep (map redact_field (split_on soh raw))"

lemma redact_field_Nil [simp]: "redact_field [] = []"
  by (simp add: redact_field_def)

lemma redact_fields_Nil [simp]: "redact_fields [] = []"
  by (simp add: redact_fields_def)

lemma redact_fields_step:
  "soh \<notin> set f \<Longrightarrow> redact_fields (f @ soh # rest) = redact_field f @ displaySep # redact_fields rest"
  by (simp add: redact_fields_def split_on_append join_with_Cons)

lemma redact_fields_last: "soh \<notin> set f \<Longrightarrow> redact_fields f = redact_field f"
  by (simp add: redact_fields_def split_on_notin)

lemma redact_loop_fields: "redact_loop raw i out = out @ redact_fields (drop i raw)"
proof (induction raw i out rule: redact_loop.induct)
  case (1 raw i out)
  show ?case
  proof (cases "i < length raw")
    case False
    then show ?thesis by (simp add: redact_loop.simps)
  next
    case True
    show ?thesis
    proof (cases "soh \<in> set (drop i raw)")
      case False
      then have k: "IndexByte (drop i raw) soh = - 1" by (rule IndexByte_notin)
      with "1.IH" [OF True refl refl refl refl refl] True False
      show ?thesis
        by (simp add: redact_loop.simps [of raw i] redact_fields_last)
    next
      case in_rest: True
      then obtain f rest where f: "drop i raw = f @ soh # rest" "soh \<notin> set f"
        and k: "IndexByte (drop i raw) soh = int (length f)"
        by (rule IndexByte_split)
      have len: "i + length f < length raw"
      proof -
        have "length (drop i raw) = length f + 1 + length rest" using f(1) by simp
        then show ?thesis by simp
      qed
      have rest: "drop (i + length f + 1) raw = rest"
      proof -
        have "drop (length f + 1) (drop i raw) = rest" using f(1) by simp
        then show ?thesis by (simp add: add.commute add.left_commute)
      qed
      show ?thesis
        using "1.IH" [OF True refl refl refl refl refl] True f k len rest
        by (simp add: redact_loop.simps [of raw i] redact_fields_step)
    qed
  qed
qed

lemma Redact_fields: "Redact raw = redact_fields raw"
  by (simp add: Redact_def redact_loop_fields)

lemma redact_fields_at_soh:
  "redact_fields (p @ soh # q) = redact_fields p @ displaySep # redact_fields q"
proof (induction p rule: length_induct)
  case (1 p)
  show ?case
  proof (cases "soh \<in> set p")
    case False
    then show ?thesis by (simp add: redact_fields_step redact_fields_last)
  next
    case True
    then obtain f r where p: "p = f @ soh # r" "soh \<notin> set f"
      by (meson split_list_first)
    with "1.IH" have "redact_fields (r @ soh # q) = redact_fields r @ displaySep # redact_fields q"
      by simp
    with p show ?thesis by (simp add: redact_fields_step)
  qed
qed

subsection \<open>Tag numbers and secrets\<close>

definition secret_field :: "string \<Rightarrow> bool" where
  "secret_field f \<longleftrightarrow> 0 < IndexByte f (CHR ''='') \<and> isSecret (take (nat (IndexByte f (CHR ''=''))) f)"

lemma redact_field_public: "\<not> secret_field f \<Longrightarrow> redact_field f = f"
  by (auto simp: redact_field_def secret_field_def Let_def)

lemma is_digit_range:
  "is_digit c \<longleftrightarrow> \<not> (byte c < byte (CHR ''0'') \<or> byte (CHR ''9'') < byte c)"
  by (auto simp: is_digit_def)

lemma atoi_loop_digits:
  "list_all is_digit ds \<Longrightarrow> n = wrap64 m \<Longrightarrow> atoi_loop n ds = (wrap64 (dval_from m ds), True)"
proof (induction ds arbitrary: n m)
  case (Cons c cs)
  have "wrap64 (wrap64 (n * 10) + (byte c - byte (CHR ''0'')))
      = wrap64 (m * 10 + (byte c - byte (CHR ''0'')))"
    using Cons.prems(2) wrap64_mult_add by simp
  then show ?case
    using Cons.IH [of _ "m * 10 + (byte c - byte (CHR ''0''))"] Cons.prems(1)
    by (simp add: is_digit_range)
qed simp

lemma atoi_loop_nondigit: "\<not> list_all is_digit ds \<Longrightarrow> atoi_loop n ds = (0, False)"
  by (induction ds arbitrary: n) (auto simp: is_digit_range)

lemma atoiStrict_eq:
  "atoiStrict b = (if b \<noteq> [] \<and> list_all is_digit b then (wrap64 (dval b), True) else (0, False))"
  using atoi_loop_digits [of b 0 0] atoi_loop_nondigit [of b 0]
  by (auto simp: atoiStrict_def dval_def wrap64_id)

lemma secret_loop_mem: "secret_loop n ss \<longleftrightarrow> n \<in> set ss"
  by (induction ss) auto

lemma isSecret_eq:
  "isSecret tag \<longleftrightarrow>
     tag \<noteq> [] \<and> list_all is_digit tag \<and> (wrap64 (dval tag) = 96 \<or> wrap64 (dval tag) = 554)"
  by (auto simp: isSecret_def atoiStrict_eq secret_loop_mem SecretTags_def)

lemma dval_bounds:
  "list_all is_digit ds \<Longrightarrow> 0 \<le> m \<Longrightarrow>
     0 \<le> dval_from m ds \<and> dval_from m ds < (m + 1) * 10 ^ length ds"
proof (induction ds arbitrary: m)
  case (Cons c cs)
  let ?m = "m * 10 + (byte c - byte (CHR ''0''))"
  have c: "48 \<le> byte c" "byte c \<le> 57" using Cons.prems(1) by (auto simp: is_digit_def)
  with Cons.IH [of ?m] Cons.prems
  have IH: "0 \<le> dval_from ?m cs" "dval_from ?m cs < (?m + 1) * 10 ^ length cs" by auto
  have "(?m + 1) * 10 ^ length cs \<le> ((m + 1) * 10) * 10 ^ length cs"
    using c by (intro mult_right_mono) auto
  with IH have "0 \<le> dval_from ?m cs \<and> dval_from ?m cs < ((m + 1) * 10) * 10 ^ length cs"
    by linarith
  then show ?case by (simp add: algebra_simps)
qed simp

lemma wrap64_dval_short:
  assumes "list_all is_digit tag" "length tag \<le> 18"
  shows "wrap64 (dval tag) = dval tag"
proof -
  have "(10::int) ^ length tag \<le> 10 ^ 18" using assms(2) by (rule power_increasing) simp
  moreover have "0 \<le> dval tag \<and> dval tag < 10 ^ length tag"
    using dval_bounds [OF assms(1), of 0] by (simp add: dval_def)
  ultimately show ?thesis by (intro wrap64_id) auto
qed

text \<open>A secret tag is all digits, so it holds neither an SOH nor an equals sign.\<close>

lemma isSecret_chars:
  assumes "isSecret tag"
  shows "tag \<noteq> []" "soh \<notin> set tag" "CHR ''='' \<notin> set tag"
  using assms by (auto simp: isSecret_eq list_all_iff is_digit_def soh_def)

lemma redact_secret_field:
  assumes "isSecret tag"
  shows "redact_field (tag @ CHR ''='' # v) = tag @ CHR ''='' # mask_text"
  using isSecret_chars [OF assms] assms
  by (simp add: redact_field_def IndexByte_append Let_def nat_add_distrib)

text \<open>
  A message with a secret field: \<open>pre\<close> is empty or ends at a field boundary, \<open>post\<close> is
  empty or begins at one.
\<close>

definition field_start :: "string \<Rightarrow> bool" where
  "field_start pre \<longleftrightarrow> pre = [] \<or> last pre = soh"

definition field_end :: "string \<Rightarrow> bool" where
  "field_end post \<longleftrightarrow> post = [] \<or> hd post = soh"

lemma redact_fields_pre:
  "field_start pre \<Longrightarrow> redact_fields (pre @ r) = redact_fields pre @ redact_fields r"
proof (cases pre rule: rev_cases)
  case (snoc p c)
  assume "field_start pre"
  with snoc have "pre @ r = p @ soh # r" "pre = p @ soh # []" by (auto simp: field_start_def)
  then show ?thesis by (simp only: redact_fields_at_soh) simp
qed simp

lemma redact_fields_post:
  "soh \<notin> set f \<Longrightarrow> field_end post \<Longrightarrow>
     redact_fields (f @ post) = redact_field f @ redact_fields post"
proof (cases post)
  case (Cons c q)
  assume "soh \<notin> set f" "field_end post"
  with Cons show ?thesis
    using redact_fields_at_soh [of "[]" q] by (simp add: field_end_def redact_fields_step)
qed (simp add: redact_fields_last)

lemma Redact_secret:
  assumes "isSecret tag" "soh \<notin> set pw" "field_start pre" "field_end post"
  shows "Redact (pre @ tag @ CHR ''='' # pw @ post)
       = Redact pre @ tag @ CHR ''='' # mask_text @ Redact post"
proof -
  let ?f = "tag @ CHR ''='' # pw"
  have "soh \<notin> set ?f"
    using isSecret_chars [OF assms(1)] assms(2) by (simp add: soh_def)
  then have "redact_fields (?f @ post) = (tag @ CHR ''='' # mask_text) @ redact_fields post"
    using redact_fields_post [of ?f post] assms(4) redact_secret_field [OF assms(1), of pw]
    by simp
  then show ?thesis
    using redact_fields_pre [OF assms(3), of "?f @ post"] by (simp add: Redact_fields)
qed

subsection \<open>A whole log\<close>

text \<open>
  The calls the engine makes on a log, in order. A tag is secret when its digits denote 96
  (RawData) or 554 (Password). Two runs \<open>differ_in_secrets\<close> when their
  messages agree except for values of secret fields.
\<close>

datatype log_call = Incoming string | Outgoing string | Event string

fun log_run :: "logger \<Rightarrow> log_call list \<Rightarrow> string \<Rightarrow> string" where
  "log_run l [] w = w"
| "log_run l (Incoming b # cs) w = log_run l cs (OnIncoming l b w)"
| "log_run l (Outgoing b # cs) w = log_run l cs (OnOutgoing l b w)"
| "log_run l (Event s # cs) w = log_run l cs (OnEvent l s w)"

definition secret_tag :: "string \<Rightarrow> bool" where
  "secret_tag tag \<longleftrightarrow> tag \<noteq> [] \<and> list_all is_digit tag \<and> dval tag \<in> {96, 554}"

lemma secret_tag_isSecret: "secret_tag tag \<Longrightarrow> isSecret tag"
  by (auto simp: secret_tag_def isSecret_eq wrap64_id)

inductive secret_variant :: "string \<Rightarrow> string \<Rightarrow> bool" where
  same: "secret_variant raw raw"
| change: "secret_variant raw (pre @ tag @ CHR ''='' # pw @ post) \<Longrightarrow>
     secret_tag tag \<Longrightarrow> soh \<notin> set pw \<Longrightarrow> soh \<notin> set pw' \<Longrightarrow> field_start pre \<Longrightarrow> field_end post \<Longrightarrow>
     secret_variant raw (pre @ tag @ CHR ''='' # pw' @ post)"

lemma Redact_secret_variant: "secret_variant raw raw' \<Longrightarrow> Redact raw' = Redact raw"
  by (induction rule: secret_variant.induct) (auto simp: Redact_secret secret_tag_isSecret)

inductive differ_in_secrets :: "log_call list \<Rightarrow> log_call list \<Rightarrow> bool" where
  none: "differ_in_secrets [] []"
| incoming: "secret_variant b b' \<Longrightarrow> differ_in_secrets cs cs' \<Longrightarrow>
     differ_in_secrets (Incoming b # cs) (Incoming b' # cs')"
| outgoing: "secret_variant b b' \<Longrightarrow> differ_in_secrets cs cs' \<Longrightarrow>
     differ_in_secrets (Outgoing b # cs) (Outgoing b' # cs')"
| event: "differ_in_secrets cs cs' \<Longrightarrow> differ_in_secrets (Event s # cs) (Event s # cs')"

lemma log_run_secrets: "differ_in_secrets cs cs' \<Longrightarrow> log_run l cs' w = log_run l cs w"
  by (induction arbitrary: w rule: differ_in_secrets.induct)
     (simp_all add: OnIncoming_def OnOutgoing_def Redact_secret_variant)

lemma redact_fields_public:
  assumes "\<forall>f \<in> set (split_on soh raw). \<not> secret_field f"
  shows "redact_fields raw = map (\<lambda>c. if c = soh then displaySep else c) raw"
proof -
  have "map redact_field (split_on soh raw) = split_on soh raw"
    using assms by (intro map_idI) (simp add: redact_field_public)
  moreover have "map (\<lambda>c. if c = soh then displaySep else c) (join_with soh (split_on soh raw))
      = join_with displaySep (split_on soh raw)"
    by (rule map_join_with) (rule split_on_pieces)
  ultimately show ?thesis by (simp add: redact_fields_def join_split)
qed

subsection \<open>Properties\<close>

text \<open>
  C29. The index loop of \<open>Redact\<close> is the field-by-field masking: split the message at its
  SOH bytes, mask the value of each field whose tag is secret and leave every other field
  as it is, and join the results with the display separator. Nothing else is added or lost.
\<close>

theorem redact_fieldwise:
  "Redact raw = join_with displaySep
     (map (\<lambda>f. if secret_field f
               then take (nat (IndexByte f (CHR ''='')) + 1) f @ mask_text else f)
        (split_on soh raw))"
  by (simp add: Redact_fields redact_fields_def redact_field_def [abs_def] secret_field_def Let_def)

text \<open>
  C28. What a log writes does not depend on the passwords: two runs of engine calls whose
  messages differ only in the values of fields 96 (RawData) and 554 (Password), however the
  tag is written (a value without an SOH byte, at any place of any message), leave the same bytes in the log, whatever the log held before.
\<close>

theorem log_hides_secrets:
  "differ_in_secrets cs cs' \<Longrightarrow> log_run l cs' w = log_run l cs w"
  by (rule log_run_secrets)

theorem log_hides_secrets_witness:
  "log_run CreateLog [Outgoing (''35=A'' @ soh # ''96='' @ ''hunter2'' @ soh # ''98=0'')] []
   = log_run CreateLog [Outgoing (''35=A'' @ soh # ''96='' @ ''oe-secret'' @ soh # ''98=0'')] []"
proof (rule log_hides_secrets, rule differ_in_secrets.outgoing)
  have "secret_variant (''35=A'' @ soh # ''96='' @ ''oe-secret'' @ soh # ''98=0'')
     ((''35=A'' @ [soh]) @ ''96'' @ CHR ''='' # ''hunter2'' @ (soh # ''98=0''))"
    by (rule secret_variant.change [where pw = "''oe-secret''"])
       (simp_all add: secret_variant.same field_start_def field_end_def secret_tag_def dval_def
          is_digit_def soh_def)
  then show "secret_variant (''35=A'' @ soh # ''96='' @ ''oe-secret'' @ soh # ''98=0'')
     (''35=A'' @ soh # ''96='' @ ''hunter2'' @ soh # ''98=0'')"
    by simp
qed (rule differ_in_secrets.none)

text \<open>
  A message without a secret field is logged as it is, byte for byte, each SOH shown as
  the display separator.
\<close>

theorem redact_public:
  assumes "\<forall>f \<in> set (split_on soh raw). \<not> secret_field f"
  shows "Redact raw = map (\<lambda>c. if c = soh then displaySep else c) raw"
  using redact_fields_public [OF assms] by (simp add: Redact_fields)

theorem redact_public_witness:
  "Redact (''35=0'' @ [soh] @ ''34=7'' @ [soh]) = ''35=0|34=7|''"
proof -
  have "\<forall>f \<in> set (split_on soh (''35=0'' @ [soh] @ ''34=7'' @ [soh])). \<not> secret_field f"
    by (simp add: soh_def secret_field_def isSecret_eq is_digit_def dval_def wrap64_id Let_def)
  from redact_public [OF this] show ?thesis by (simp add: soh_def displaySep_def)
qed

text \<open>
  Which tags are masked: for a tag of at most 18 bytes, exactly the digit strings whose
  value is 96 or 554 (leading zeros included).
\<close>

theorem isSecret_short_tags:
  assumes "length tag \<le> 18"
  shows "isSecret tag \<longleftrightarrow> tag \<noteq> [] \<and> list_all is_digit tag \<and> dval tag \<in> {96, 554}"
  using wrap64_dval_short [OF _ assms] by (auto simp: isSecret_eq)

theorem isSecret_short_tags_witness:
  "isSecret ''0554'' \<longleftrightarrow> ''0554'' \<noteq> [] \<and> list_all is_digit ''0554'' \<and> dval ''0554'' \<in> {96, 554}"
  by (rule isSecret_short_tags) simp

text \<open>
  A longer digit string is read modulo 2 to the 64: \<open>atoiStrict\<close> accepts the number
  2^64 + 96 and returns 96, so a field with that tag is masked as if it were RawData.
\<close>

theorem atoiStrict_wraps:
  "atoiStrict ''18446744073709551712'' = (96, True) \<and> isSecret ''18446744073709551712''"
proof -
  have "wrap64 18446744073709551712 = 96" by (simp add: wrap64_def)
  then show ?thesis by (simp add: atoiStrict_eq isSecret_eq is_digit_def dval_def)
qed

end
