(* ===== verification/FixMsg.thy ===== *)
theory FixMsg
  imports Complex_Main GoLib
begin

text \<open>
  What the program sees of the FIX engine (\<open>quickfixgo/quickfix\<close>) and of the decimal
  library (\<open>shopspring/decimal\<close>), neither of which is part of the repository.

  A session identity is compared for equality and read for its two CompIDs. A message is a
  header and a body, each a map from tags to the bytes of the field. A decimal is its value,
  a rational number: addition, subtraction, multiplication and the comparisons are exact.
  Everything that converts between bytes and values, and the one inexact operation
  (division), is a parameter: the record \<open>lib\<close>, an argument of the definitions that use it.
  What a theorem needs of it is one of the named hypotheses below, each a documented
  behaviour of the library. The last field, \<open>lib_range\<close>, is the one choice the Go runtime makes
  for the program: where a \<open>range\<close> loop over a map begins. It is made anew for every loop,
  so it depends on what the loop serves (the ExecID and the role, see \<open>Venue\<close>).
\<close>

subsection \<open>Sessions and messages\<close>

record SessionID =
  SenderCompID :: string
  TargetCompID :: string
  SessionRest :: string

definition zero_SessionID :: SessionID where
  "zero_SessionID = \<lparr>SenderCompID = [], TargetCompID = [], SessionRest = []\<rparr>"

type_synonym tag = nat
type_synonym field_map = "tag \<rightharpoonup> string"

record message =
  msg_header :: field_map
  msg_body :: field_map

definition SetField :: "tag \<Rightarrow> string \<Rightarrow> message \<Rightarrow> message" where
  "SetField t v m = m\<lparr>msg_body := (msg_body m)(t \<mapsto> v)\<rparr>"

lemma msg_SetField [simp]:
  "msg_body (SetField t v m) = (msg_body m)(t \<mapsto> v)"
  "msg_header (SetField t v m) = msg_header m"
  by (simp_all add: SetField_def)

subsection \<open>The library's conversions\<close>

record lib =
  lib_readInt :: "string \<Rightarrow> int option"
  lib_readBool :: "string \<Rightarrow> bool option"
  lib_readDec :: "string \<Rightarrow> rat option"
  lib_showInt :: "int \<Rightarrow> string"
  lib_showDec :: "nat \<Rightarrow> rat \<Rightarrow> string"
  lib_showTime :: "int \<Rightarrow> string"
  lib_parseDec :: "string \<Rightarrow> rat option"
  lib_div :: "rat \<Rightarrow> rat \<Rightarrow> rat"
  lib_idString :: "SessionID \<Rightarrow> string"
  lib_range :: "string \<Rightarrow> string \<Rightarrow> nat"

text \<open>An integer field that was written is read back.\<close>

definition int_roundtrip :: "lib \<Rightarrow> bool" where
  "int_roundtrip L \<longleftrightarrow> (\<forall>n. int64 n \<longrightarrow> lib_readInt L (lib_showInt L n) = Some n)"

text \<open>A decimal field written with \<open>s\<close> decimal places is read back when the value has no more.\<close>

definition has_scale :: "nat \<Rightarrow> rat \<Rightarrow> bool" where
  "has_scale s v \<longleftrightarrow> v * 10 ^ s \<in> \<int>"

definition dec_roundtrip :: "lib \<Rightarrow> bool" where
  "dec_roundtrip L \<longleftrightarrow> (\<forall>s v. has_scale s v \<longrightarrow> lib_readDec L (lib_showDec L s v) = Some v)"

text \<open>
  The library reads every decimal it writes; \<open>carried\<close> is what it then reads, which is the value
  itself if that has no more places than were written.
\<close>

definition dec_reads :: "lib \<Rightarrow> bool" where
  "dec_reads L \<longleftrightarrow> (\<forall>s v. lib_readDec L (lib_showDec L s v) \<noteq> None)"

definition carried :: "lib \<Rightarrow> nat \<Rightarrow> rat \<Rightarrow> rat" where
  "carried L s v = (case lib_readDec L (lib_showDec L s v) of None \<Rightarrow> v | Some w \<Rightarrow> w)"

lemma readDec_showDec: "dec_reads L \<Longrightarrow> lib_readDec L (lib_showDec L s v) = Some (carried L s v)"
  by (auto simp: dec_reads_def carried_def split: option.split)

lemma carried_exact: "dec_roundtrip L \<Longrightarrow> has_scale s v \<Longrightarrow> carried L s v = v"
  by (simp add: dec_roundtrip_def carried_def)

text \<open>Division is rounded to 16 decimal places (\<open>decimal.DivisionPrecision\<close>).\<close>

definition div_close :: "lib \<Rightarrow> bool" where
  "div_close L \<longleftrightarrow> (\<forall>a b. b \<noteq> 0 \<longrightarrow> \<bar>lib_div L a b - a / b\<bar> \<le> 1 / 10 ^ 16)"

subsection \<open>Reading fields, and the ways a message is refused\<close>

text \<open>
  \<open>FieldMissing t\<close> and \<open>FieldMalformed t\<close> are the errors the engine's getters return for tag
  \<open>t\<close>: it is absent, or not in the field's format (two errors, and two kinds of reject on the
  wire, as \<open>docs/drills/11-session-reject.md\<close> explains); the others are the ones the program
  builds itself. The texts of
  business rejects are kept as structured reasons.
\<close>

datatype venue_error =
    DuplicateClOrdID string
  | UnknownClOrdID string
  | QtyNotPositive rat
  | CannotTrade string string
  | ExceedsLeaves rat rat
  | CannotCancel string string
  | CannotReject string string
  | NNotPositive int
  | NoSessionConfigured string
  | EngineError string

datatype reject_reason =
    DropCopyReadOnly
  | UnsupportedMsgType string
  | OrderRefused venue_error

datatype reject =
    FieldMissing tag
  | FieldMalformed tag
  | BusinessReject reject_reason nat
  | RejectLogon string

fun GetString :: "field_map \<Rightarrow> tag \<Rightarrow> reject + string" where
  "GetString fm t = (case fm t of None \<Rightarrow> Inl (FieldMissing t) | Some s \<Rightarrow> Inr s)"

definition GetVia :: "(string \<Rightarrow> 'a option) \<Rightarrow> field_map \<Rightarrow> tag \<Rightarrow> reject + 'a" where
  "GetVia rd fm t = (case fm t of
     None \<Rightarrow> Inl (FieldMissing t)
   | Some s \<Rightarrow> (case rd s of None \<Rightarrow> Inl (FieldMalformed t) | Some v \<Rightarrow> Inr v))"

definition GetInt :: "lib \<Rightarrow> field_map \<Rightarrow> tag \<Rightarrow> reject + int" where
  "GetInt L = GetVia (lib_readInt L)"

definition GetBool :: "lib \<Rightarrow> field_map \<Rightarrow> tag \<Rightarrow> reject + bool" where
  "GetBool L = GetVia (lib_readBool L)"

definition GetDec :: "lib \<Rightarrow> field_map \<Rightarrow> tag \<Rightarrow> reject + rat" where
  "GetDec L = GetVia (lib_readDec L)"

lemmas getter_defs = GetInt_def GetBool_def GetDec_def GetVia_def

text \<open>A reader followed by the rest of a handler: an error ends it.\<close>

definition get_or :: "'e + 'a \<Rightarrow> 'a \<Rightarrow> 'a" where
  "get_or r d = (case r of Inl _ \<Rightarrow> d | Inr v \<Rightarrow> v)"

lemma get_or_simps [simp]: "get_or (Inl e) d = d" "get_or (Inr v) d = v"
  by (simp_all add: get_or_def)

subsection \<open>Tags\<close>

definition tagAccount :: tag where "tagAccount = 1"
definition tagAvgPx :: tag where "tagAvgPx = 6"
definition tagClOrdID :: tag where "tagClOrdID = 11"
definition tagCumQty :: tag where "tagCumQty = 14"
definition tagExecID :: tag where "tagExecID = 17"
definition tagLastPx :: tag where "tagLastPx = 31"
definition tagLastQty :: tag where "tagLastQty = 32"
definition tagMsgSeqNum :: tag where "tagMsgSeqNum = 34"
definition tagMsgType :: tag where "tagMsgType = 35"
definition tagOrderID :: tag where "tagOrderID = 37"
definition tagOrderQty :: tag where "tagOrderQty = 38"
definition tagOrdStatus :: tag where "tagOrdStatus = 39"
definition tagOrdType :: tag where "tagOrdType = 40"
definition tagPossDupFlag :: tag where "tagPossDupFlag = 43"
definition tagPrice :: tag where "tagPrice = 44"
definition tagSide :: tag where "tagSide = 54"
definition tagSymbol :: tag where "tagSymbol = 55"
definition tagText :: tag where "tagText = 58"
definition tagTimeInForce :: tag where "tagTimeInForce = 59"
definition tagTransactTime :: tag where "tagTransactTime = 60"
definition tagRawDataLength :: tag where "tagRawDataLength = 95"
definition tagRawData :: tag where "tagRawData = 96"
definition tagEncryptMethod :: tag where "tagEncryptMethod = 98"
definition tagExecType :: tag where "tagExecType = 150"
definition tagLeavesQty :: tag where "tagLeavesQty = 151"
definition tagExecRestatementReason :: tag where "tagExecRestatementReason = 378"
definition TagCODType :: tag where "TagCODType = 35002"
definition TagCODTimeoutWindow :: tag where "TagCODTimeoutWindow = 35003"

lemmas tag_defs =
  tagAccount_def tagAvgPx_def tagClOrdID_def tagCumQty_def tagExecID_def tagLastPx_def
  tagLastQty_def tagMsgSeqNum_def tagMsgType_def tagOrderID_def tagOrderQty_def
  tagOrdStatus_def tagOrdType_def tagPossDupFlag_def tagPrice_def tagSide_def tagSymbol_def
  tagText_def tagTimeInForce_def tagTransactTime_def tagRawDataLength_def tagRawData_def
  tagEncryptMethod_def tagExecType_def tagLeavesQty_def tagExecRestatementReason_def
  TagCODType_def TagCODTimeoutWindow_def

end
