(* ===== verification/IdSource.thy ===== *)
theory IdSource
  imports GoLib
begin

text \<open>
  The contract of a component that hands out identifiers from a counter: each draw returns
  the rendering of the next count, and the rendering is injective. The book's ExecIDs and
  OrderIDs and the order-entry client's ClOrdIDs are drawn this way; each provider
  interprets the locale in its own theory.
\<close>

locale id_source =
  fixes draw :: "'s \<Rightarrow> string \<times> 's"
    and count :: "'s \<Rightarrow> nat"
    and render :: "nat \<Rightarrow> string"
  assumes draw_id: "fst (draw s) = render (Suc (count s))"
    and draw_count: "count (snd (draw s)) = Suc (count s)"
    and inj_render: "inj render"
begin

text \<open>The identifiers that a state may already have handed out.\<close>

lemma render_eq_iff: "render m = render n \<longleftrightarrow> m = n"
  using inj_render by (auto dest: injD)

lemma draw_fresh: "k \<le> count s \<Longrightarrow> fst (draw s) \<noteq> render k"
  by (simp add: draw_id render_eq_iff)

lemma draw_is_past: "\<exists>k. k \<le> count (snd (draw s)) \<and> fst (draw s) = render k"
  by (auto simp: draw_id draw_count)

end

text \<open>
  A log of drawn identifiers that a component keeps beside its counter: every entry was drawn
  (it renders a count up to the present one) and entries repeat nothing.
\<close>

definition drawn_log :: "(nat \<Rightarrow> string) \<Rightarrow> nat \<Rightarrow> string list \<Rightarrow> bool" where
  "drawn_log render n ids \<longleftrightarrow> distinct ids \<and> (\<forall>x \<in> set ids. \<exists>k. 0 < k \<and> k \<le> n \<and> x = render k)"

lemma drawn_log_mono: "drawn_log r n ids \<Longrightarrow> n \<le> m \<Longrightarrow> drawn_log r m ids"
  unfolding drawn_log_def by (meson le_trans)

lemma drawn_log_Nil [simp]: "drawn_log r n []"
  by (simp add: drawn_log_def)

context id_source
begin

lemma drawn_log_draw:
  assumes "drawn_log render (count s) ids"
  shows "drawn_log render (count (snd (draw s))) (ids @ [fst (draw s)])"
  using assms draw_fresh [of _ s]
  unfolding drawn_log_def by (fastforce simp: draw_count draw_id)

end

end
