(* ===== verification/OrderLog.thy ===== *)
theory OrderLog
  imports Book
begin

text \<open>
  The abstract book: a list of orders in insertion order, with the operations a store of
  orders promises. The locale \<open>order_store\<close> is the interface the venue's commands rely on;
  its lemmas are what they use. \<open>BookSpec\<close> interprets it on the book of the source.
\<close>

subsection \<open>The abstract operations\<close>

definition log_get :: "string \<Rightarrow> OrderState list \<Rightarrow> OrderState option" where
  "log_get i xs = find (\<lambda>ord. os_ClOrdID ord = i) xs"

definition log_insert :: "OrderState \<Rightarrow> OrderState list \<Rightarrow> venue_error option \<times> OrderState list" where
  "log_insert ord xs =
     (if log_get (os_ClOrdID ord) xs \<noteq> None then (Some (DuplicateClOrdID (os_ClOrdID ord)), xs)
      else (None, xs @ [ord\<lparr>os_OrderID := ''ORD'' @ fmt06 (length xs + 1),
                            os_Status := StatusNew\<rparr>]))"

definition log_set :: "string \<Rightarrow> OrderState \<Rightarrow> OrderState list \<Rightarrow> OrderState list" where
  "log_set i ord' xs = map (\<lambda>ord. if os_ClOrdID ord = i then ord' else ord) xs"

definition log_update ::
  "string \<Rightarrow> order_update \<Rightarrow> OrderState list \<Rightarrow> (venue_error + OrderState) \<times> OrderState list" where
  "log_update i fn xs =
     (case log_get i xs of
        None \<Rightarrow> (Inl (UnknownClOrdID i), xs)
      | Some ord \<Rightarrow>
          (case fn ord of
             (Some err, ord') \<Rightarrow> (Inl err, log_set i ord' xs)
           | (None, ord') \<Rightarrow> (Inr ord', log_set i ord' xs)))"

text \<open>A callback that leaves the two identifiers of the order alone.\<close>

definition keeps_identity :: "order_update \<Rightarrow> bool" where
  "keeps_identity fn \<longleftrightarrow> (\<forall>ord. os_ClOrdID (snd (fn ord)) = os_ClOrdID ord \<and>
                               os_OrderID (snd (fn ord)) = os_OrderID ord)"

subsection \<open>Facts about them\<close>

lemma log_get_None: "log_get i xs = None \<longleftrightarrow> i \<notin> os_ClOrdID ` set xs"
  by (auto simp: log_get_def find_None_iff)

lemma log_get_Some:
  "log_get i xs = Some ord \<Longrightarrow> ord \<in> set xs \<and> os_ClOrdID ord = i"
  by (auto simp: log_get_def find_Some_iff)

lemma log_get_iff:
  "distinct (map os_ClOrdID xs) \<Longrightarrow>
     log_get i xs = Some ord \<longleftrightarrow> ord \<in> set xs \<and> os_ClOrdID ord = i"
proof (induction xs)
  case (Cons x xs)
  then show ?case by (auto simp: log_get_def)
qed (simp add: log_get_def)

lemma log_unique:
  "distinct (map os_ClOrdID xs) \<Longrightarrow> x \<in> set xs \<Longrightarrow> y \<in> set xs \<Longrightarrow>
     os_ClOrdID x = os_ClOrdID y \<Longrightarrow> x = y"
  by (auto simp: distinct_map dest: inj_onD)

lemma log_get_append:
  "log_get i (xs @ ys) = (case log_get i xs of None \<Rightarrow> log_get i ys | Some x \<Rightarrow> Some x)"
  by (induction xs) (auto simp: log_get_def)

lemma log_get_set:
  assumes "os_ClOrdID ord' = i"
  shows "log_get j (log_set i ord' xs) =
    (if j = i then (if log_get i xs = None then None else Some ord') else log_get j xs)"
  using assms by (induction xs) (auto simp: log_get_def log_set_def)

lemma set_log_set: "x \<in> set (log_set i ord' xs) \<Longrightarrow> x = ord' \<or> (x \<in> set xs \<and> os_ClOrdID x \<noteq> i)"
  by (auto simp: log_set_def)

lemma log_set_ids: "os_ClOrdID ord' = i \<Longrightarrow> map os_ClOrdID (log_set i ord' xs) = map os_ClOrdID xs"
  by (auto simp: log_set_def)

lemma log_set_absent: "log_get i xs = None \<Longrightarrow> log_set i ord' xs = xs"
  by (auto simp: log_get_None log_set_def intro!: map_idI)

lemma log_set_rel:
  assumes "distinct (map os_ClOrdID xs)" "log_get i xs = Some ord" "R ord ord'"
    and refl: "\<And>x. R x x"
  shows "list_all2 R xs (log_set i ord' xs)"
proof -
  have "R x (if os_ClOrdID x = i then ord' else x)" if "x \<in> set xs" for x
  proof (cases "os_ClOrdID x = i")
    case True
    then have "x = ord"
      using log_unique [OF assms(1) that] log_get_Some [OF assms(2)] by simp
    then show ?thesis using True assms(3) by simp
  qed (simp add: refl)
  then show ?thesis by (simp add: log_set_def list_all2_map2 list.rel_refl_strong)
qed

lemmas log_defs = log_insert_def log_update_def

subsection \<open>The interface\<close>

locale order_store =
  fixes inv :: "'b \<Rightarrow> bool"
    and orders :: "'b \<Rightarrow> OrderState list"
    and insert :: "OrderState \<Rightarrow> 'b \<Rightarrow> venue_error option \<times> 'b"
    and get :: "string \<Rightarrow> 'b \<Rightarrow> OrderState option"
    and update :: "string \<Rightarrow> order_update \<Rightarrow> 'b \<Rightarrow> (venue_error + OrderState) \<times> 'b"
  assumes distinct_ids: "inv b \<Longrightarrow> distinct (map os_ClOrdID (orders b))"
    and get_refines: "inv b \<Longrightarrow> get i b = log_get i (orders b)"
    and inv_insert: "inv b \<Longrightarrow> inv (snd (insert ord b))"
    and insert_result: "inv b \<Longrightarrow> fst (insert ord b) = fst (log_insert ord (orders b))"
    and insert_orders: "inv b \<Longrightarrow> orders (snd (insert ord b)) = snd (log_insert ord (orders b))"
    and inv_update: "inv b \<Longrightarrow> keeps_identity fn \<Longrightarrow> inv (snd (update i fn b))"
    and update_result: "inv b \<Longrightarrow> fst (update i fn b) = fst (log_update i fn (orders b))"
    and update_orders: "inv b \<Longrightarrow> orders (snd (update i fn b)) = snd (log_update i fn (orders b))"
begin

lemma update_None:
  "inv b \<Longrightarrow> get i b = None \<Longrightarrow> fst (update i fn b) = Inl (UnknownClOrdID i) \<and>
     orders (snd (update i fn b)) = orders b"
  by (simp add: update_result update_orders get_refines log_update_def)

lemma update_Some:
  assumes "inv b" "get i b = Some ord"
  shows "fst (update i fn b) = (case fst (fn ord) of Some err \<Rightarrow> Inl err | None \<Rightarrow> Inr (snd (fn ord)))"
    and "orders (snd (update i fn b)) = log_set i (snd (fn ord)) (orders b)"
  using assms
  by (auto simp: update_result update_orders get_refines log_update_def split: prod.splits option.splits)

lemma get_update_same:
  assumes "inv b" "keeps_identity fn" "get i b = Some ord"
  shows "get i (snd (update i fn b)) = Some (snd (fn ord))"
proof -
  from assms have "os_ClOrdID ord = i" by (auto simp: get_refines dest: log_get_Some)
  with assms have "os_ClOrdID (snd (fn ord)) = i" by (auto simp: keeps_identity_def)
  then show ?thesis
    using assms by (simp add: get_refines inv_update update_Some log_get_set)
qed

lemma get_update_other:
  assumes "inv b" "keeps_identity fn" "j \<noteq> i"
  shows "get j (snd (update i fn b)) = get j b"
proof (cases "get i b")
  case None
  then show ?thesis using assms by (simp add: get_refines inv_update update_None)
next
  case (Some ord)
  then have "os_ClOrdID (snd (fn ord)) = i"
    using assms by (auto simp: get_refines keeps_identity_def dest: log_get_Some)
  then show ?thesis using assms Some by (simp add: get_refines inv_update update_Some log_get_set)
qed

text \<open>A relation that the callback respects holds of the whole book, order by order.\<close>

lemma update_rel:
  assumes "inv b" "\<And>x. R x x" "\<And>ord. get i b = Some ord \<Longrightarrow> R ord (snd (fn ord))"
  shows "list_all2 R (orders b) (orders (snd (update i fn b)))"
proof (cases "get i b")
  case None
  then show ?thesis using assms by (simp add: update_None list.rel_refl)
next
  case (Some ord)
  then show ?thesis
    using assms log_set_rel [OF distinct_ids [OF assms(1)], of i ord R "snd (fn ord)"]
    by (simp add: update_Some get_refines)
qed

text \<open>A property of every order that the callback keeps.\<close>

lemma update_all:
  assumes "inv b" "\<forall>ord \<in> set (orders b). P ord"
    and "\<And>ord. get i b = Some ord \<Longrightarrow> P ord \<Longrightarrow> P (snd (fn ord))"
  shows "\<forall>ord \<in> set (orders (snd (update i fn b))). P ord"
proof (cases "get i b")
  case None
  then show ?thesis using assms by (simp add: update_None)
next
  case (Some ord)
  then have "P ord" using assms by (auto simp: get_refines dest: log_get_Some)
  with Some assms show ?thesis by (auto simp: update_Some dest!: set_log_set)
qed

lemma insert_all:
  assumes "inv b" "\<forall>x \<in> set (orders b). P x"
    and "\<And>oid. P (ord\<lparr>os_OrderID := oid, os_Status := StatusNew\<rparr>)"
  shows "\<forall>x \<in> set (orders (snd (insert ord b))). P x"
  using assms by (auto simp: insert_orders log_insert_def)

text \<open>An insertion changes no other order, and adds a fresh one or nothing.\<close>

lemma get_insert:
  assumes "inv b"
  shows "get i (snd (insert ord b)) = get i b \<or>
    (\<exists>oid. get i b = None \<and> get i (snd (insert ord b)) = Some (ord\<lparr>os_OrderID := oid, os_Status := StatusNew\<rparr>))"
  using assms by (auto simp: get_refines inv_insert insert_orders log_insert_def log_get_append log_get_def [of _ "[_]"]
      split: option.splits if_splits)

text \<open>The book only grows, at its end.\<close>

lemma insert_prefix:
  "inv b \<Longrightarrow> \<exists>new. orders (snd (insert ord b)) = orders b @ new"
  by (auto simp: insert_orders log_insert_def)

end

end
