(* ===== verification/BookSpec.thy ===== *)
theory BookSpec
  imports OrderLog
begin

text \<open>
  The book of the source implements the abstract book: its invariant, preservation by every
  operation, and the interpretations of \<open>order_store\<close> and \<open>id_source\<close>.
\<close>

definition book_inv :: "Book \<Rightarrow> bool" where
  "book_inv b \<longleftrightarrow>
     distinct (bk_sequence b) \<and>
     (\<forall>p \<in> set (bk_sequence b). p < length (bk_heap b)) \<and>
     (\<forall>i p. bk_orders b i = Some p \<longleftrightarrow> p \<in> set (bk_sequence b) \<and> os_ClOrdID (deref b p) = i) \<and>
     bk_orderSeq b = length (bk_sequence b) \<and>
     map os_OrderID (All_orders b) = map (\<lambda>k. ''ORD'' @ fmt06 (Suc k)) [0..<length (bk_sequence b)]"

lemma book_inv_NewBook: "book_inv NewBook"
  by (simp add: book_inv_def NewBook_def All_orders_def)

subsection \<open>Reading\<close>

lemma book_Get:
  assumes "book_inv b"
  shows "Get i b = log_get i (All_orders b)"
proof (cases "bk_orders b i")
  case None
  with assms have "i \<notin> os_ClOrdID ` set (All_orders b)"
    by (auto simp: book_inv_def All_orders_def) (metis option.distinct(1))
  then show ?thesis using None by (simp add: Get_def flip: log_get_None)
next
  case (Some p)
  with assms have p: "p \<in> set (bk_sequence b)" "os_ClOrdID (deref b p) = i"
    by (auto simp: book_inv_def)
  from assms have uniq: "q = p" if "q \<in> set (bk_sequence b)" "os_ClOrdID (deref b q) = i" for q
    using that Some by (metis book_inv_def option.inject)
  have "log_get i (map (deref b) qs) = Some (deref b p)" if "p \<in> set qs" "set qs \<subseteq> set (bk_sequence b)" for qs
    using that p(2) uniq by (induction qs) (auto simp: log_get_def)
  then show ?thesis using Some p by (simp add: Get_def All_orders_def)
qed

lemma book_distinct_ids:
  assumes "book_inv b"
  shows "distinct (map os_ClOrdID (All_orders b))"
proof -
  have "inj_on (\<lambda>p. os_ClOrdID (deref b p)) (set (bk_sequence b))"
    using assms by (intro inj_onI) (metis book_inv_def option.inject)
  moreover have "distinct (bk_sequence b)" using assms by (simp add: book_inv_def)
  ultimately show ?thesis by (simp add: All_orders_def distinct_map comp_def)
qed

lemma book_distinct_OrderIDs:
  assumes "book_inv b"
  shows "distinct (map os_OrderID (All_orders b))"
proof -
  have "distinct (map (\<lambda>k. ''ORD'' @ fmt06 (Suc k)) [0..<n])" for n
    by (simp add: distinct_map inj_on_def fmt06_inj)
  then show ?thesis using assms by (simp add: book_inv_def)
qed

lemma OpenDayOrders_log:
  "OpenDayOrders b = filter (\<lambda>ord. IsOpen ord \<and> IsDay ord) (All_orders b)"
  by (simp add: OpenDayOrders_def All_orders_def)

subsection \<open>Inserting\<close>

lemma deref_alloc:
  "p < length (bk_heap b) \<Longrightarrow> deref (b\<lparr>bk_heap := bk_heap b @ [ord]\<rparr>) p = deref b p"
  by (simp add: deref_def nth_append)

lemma All_orders_alloc:
  "book_inv b \<Longrightarrow> All_orders (b\<lparr>bk_heap := bk_heap b @ xs\<rparr>) = All_orders b"
  by (auto simp: book_inv_def All_orders_def deref_def nth_append)

lemma book_inv_alloc:
  assumes "book_inv b"
  shows "book_inv (b\<lparr>bk_heap := bk_heap b @ [ord]\<rparr>)"
  using assms deref_alloc [of _ b ord] All_orders_alloc [OF assms, of "[ord]"]
  by (auto simp: book_inv_def)

lemma insert_new_dup:
  assumes "Get (os_ClOrdID ord) b \<noteq> None"
  shows "insert_new ord b =
    (Some (DuplicateClOrdID (os_ClOrdID ord)), b\<lparr>bk_heap := bk_heap b @ [ord]\<rparr>)"
  using assms
  by (auto simp: insert_new_def alloc_def Insert_def deref_def Get_def Let_def split: option.splits)

lemma insert_new_ok:
  assumes "Get (os_ClOrdID ord) b = None"
  shows "insert_new ord b =
    (None, b\<lparr>bk_heap := bk_heap b @ [ord\<lparr>os_OrderID := ''ORD'' @ fmt06 (bk_orderSeq b + 1),
                                         os_Status := StatusNew\<rparr>],
             bk_orderSeq := bk_orderSeq b + 1,
             bk_orders := (bk_orders b)(os_ClOrdID ord \<mapsto> length (bk_heap b)),
             bk_sequence := bk_sequence b @ [length (bk_heap b)]\<rparr>)"
  using assms
  by (auto simp: insert_new_def alloc_def Insert_def deref_def Get_def store_def Let_def
      split: option.splits)

lemma insert_new_inv:
  assumes inv: "book_inv b" and new: "Get (os_ClOrdID ord) b = None"
  shows "book_inv (snd (insert_new ord b))"
    and "All_orders (snd (insert_new ord b)) = All_orders b @
           [ord\<lparr>os_OrderID := ''ORD'' @ fmt06 (bk_orderSeq b + 1), os_Status := StatusNew\<rparr>]"
proof -
  let ?b = "snd (insert_new ord b)"
  let ?n = "length (bk_heap b)"
  have old: "deref ?b p = deref b p" if "p \<in> set (bk_sequence b)" for p
    using that inv by (auto simp: insert_new_ok [OF new] deref_def nth_append book_inv_def)
  have cell: "deref ?b ?n = ord\<lparr>os_OrderID := ''ORD'' @ fmt06 (bk_orderSeq b + 1), os_Status := StatusNew\<rparr>"
    by (simp add: insert_new_ok [OF new] deref_def)
  show all: "All_orders ?b = All_orders b @
      [ord\<lparr>os_OrderID := ''ORD'' @ fmt06 (bk_orderSeq b + 1), os_Status := StatusNew\<rparr>]"
    using old cell by (simp add: All_orders_def insert_new_ok [OF new])
  have fresh: "?n \<notin> set (bk_sequence b)" using inv by (auto simp: book_inv_def)
  have absent: "bk_orders b (os_ClOrdID ord) = None"
    using new by (simp add: Get_def split: option.splits)
  have "bk_orders ?b i = Some p \<longleftrightarrow> p \<in> set (bk_sequence ?b) \<and> os_ClOrdID (deref ?b p) = i" for i p
  proof (cases "p = ?n")
    case True
    then show ?thesis
      using inv fresh absent cell by (auto simp: insert_new_ok [OF new] book_inv_def)
  next
    case False
    then have "p \<in> set (bk_sequence ?b) \<longleftrightarrow> p \<in> set (bk_sequence b)"
      by (simp add: insert_new_ok [OF new])
    moreover have "bk_orders ?b i = Some p \<longleftrightarrow> bk_orders b i = Some p"
      using False absent by (auto simp: insert_new_ok [OF new])
    ultimately show ?thesis using inv old by (auto simp: book_inv_def)
  qed
  then show "book_inv ?b"
    using inv fresh all by (auto simp: book_inv_def insert_new_ok [OF new])
qed

lemma book_insert_log:
  assumes "book_inv b"
  shows "book_inv (snd (insert_new ord b))"
    and "fst (insert_new ord b) = fst (log_insert ord (All_orders b))"
    and "All_orders (snd (insert_new ord b)) = snd (log_insert ord (All_orders b))"
proof -
  have len: "bk_orderSeq b = length (All_orders b)"
    using assms by (simp add: book_inv_def All_orders_def)
  consider "Get (os_ClOrdID ord) b = None" | "Get (os_ClOrdID ord) b \<noteq> None" by blast
  then have "book_inv (snd (insert_new ord b)) \<and> fst (insert_new ord b) = fst (log_insert ord (All_orders b))
     \<and> All_orders (snd (insert_new ord b)) = snd (log_insert ord (All_orders b))"
  proof cases
    case 1
    then show ?thesis
      using insert_new_inv [OF assms 1] len
      by (simp add: insert_new_ok log_insert_def book_Get [OF assms])
  next
    case 2
    then show ?thesis
      using book_inv_alloc [OF assms] All_orders_alloc [OF assms]
      by (simp add: insert_new_dup log_insert_def book_Get [OF assms])
  qed
  then show "book_inv (snd (insert_new ord b))"
    and "fst (insert_new ord b) = fst (log_insert ord (All_orders b))"
    and "All_orders (snd (insert_new ord b)) = snd (log_insert ord (All_orders b))"
    by auto
qed

subsection \<open>Updating\<close>

lemma deref_store:
  "p < length (bk_heap b) \<Longrightarrow> deref (store p ord b) q = (if q = p then ord else deref b q)"
  by (simp add: deref_def store_def)

lemma store_fields [simp]:
  "bk_orders (store p ord b) = bk_orders b" "bk_sequence (store p ord b) = bk_sequence b"
  "bk_orderSeq (store p ord b) = bk_orderSeq b" "bk_execSeq (store p ord b) = bk_execSeq b"
  "length (bk_heap (store p ord b)) = length (bk_heap b)"
  by (simp_all add: store_def)

text \<open>A write through the pointer found in the map is the write of that order in the list.\<close>

lemma All_orders_store:
  assumes "book_inv b" "bk_orders b i = Some p"
  shows "All_orders (store p ord' b) = log_set i ord' (All_orders b)"
proof -
  have p: "p < length (bk_heap b)" using assms by (auto simp: book_inv_def)
  have "deref (store p ord' b) q = (if os_ClOrdID (deref b q) = i then ord' else deref b q)"
    if "q \<in> set (bk_sequence b)" for q
  proof -
    have "os_ClOrdID (deref b q) = i \<longleftrightarrow> q = p"
      using assms that by (metis book_inv_def option.inject)
    then show ?thesis by (simp add: deref_store [OF p])
  qed
  then show ?thesis by (simp add: All_orders_def log_set_def)
qed

lemma book_inv_store:
  assumes "book_inv b" "bk_orders b i = Some p"
    and "os_ClOrdID ord' = os_ClOrdID (deref b p)" "os_OrderID ord' = os_OrderID (deref b p)"
  shows "book_inv (store p ord' b)"
proof -
  have p: "p < length (bk_heap b)" using assms by (auto simp: book_inv_def)
  have "map f (All_orders (store p ord' b)) = map f (All_orders b)"
    if "f ord' = f (deref b p)" for f :: "OrderState \<Rightarrow> string"
    using that by (simp add: All_orders_def deref_store [OF p])
  then show ?thesis
    using assms p by (auto simp: book_inv_def deref_store)
qed

lemma book_update_log:
  assumes "book_inv b"
  shows "fst (Update i fn b) = fst (log_update i fn (All_orders b))"
    and "All_orders (snd (Update i fn b)) = snd (log_update i fn (All_orders b))"
    and "keeps_identity fn \<Longrightarrow> book_inv (snd (Update i fn b))"
proof -
  have get: "log_get i (All_orders b) = map_option (deref b) (bk_orders b i)"
    using book_Get [OF assms, of i] by (simp add: Get_def split: option.splits)
  show "fst (Update i fn b) = fst (log_update i fn (All_orders b))"
    by (simp add: Update_def log_update_def get split: option.splits prod.splits)
  show "All_orders (snd (Update i fn b)) = snd (log_update i fn (All_orders b))"
    by (simp add: Update_def log_update_def get All_orders_store [OF assms]
        split: option.splits prod.splits)
  assume keep: "keeps_identity fn"
  show "book_inv (snd (Update i fn b))"
  proof (cases "bk_orders b i")
    case None
    then show ?thesis using assms by (simp add: Update_def)
  next
    case (Some p)
    have "snd (Update i fn b) = store p (snd (fn (deref b p))) b"
      using Some by (simp add: Update_def split: prod.splits option.splits)
    then show ?thesis
      using book_inv_store [OF assms Some] keep by (simp add: keeps_identity_def)
  qed
qed

subsection \<open>The interfaces\<close>

interpretation book: order_store book_inv All_orders insert_new Get Update
  by unfold_locales
     (simp_all add: book_distinct_ids book_Get book_insert_log book_update_log)

interpretation exec_ids: id_source NextExecID bk_execSeq "\<lambda>n. ''EXE'' @ fmt06 n"
  by unfold_locales (auto simp: NextExecID_def Let_def inj_def fmt06_inj)

lemma deref_execSeq [simp]: "deref (b\<lparr>bk_execSeq := n\<rparr>) = deref b"
  by (simp add: deref_def fun_eq_iff)

lemma NextExecID_frame [simp]:
  "All_orders (snd (NextExecID b)) = All_orders b"
  "book_inv (snd (NextExecID b)) = book_inv b"
  "Get i (snd (NextExecID b)) = Get i b"
  by (simp_all add: NextExecID_def All_orders_def book_inv_def Get_def Let_def
        split: option.split)

lemma execSeq_frame [simp]:
  "bk_execSeq (snd (insert_new ord b)) = bk_execSeq b"
  "bk_execSeq (snd (Update i fn b)) = bk_execSeq b"
  by (auto simp: insert_new_def alloc_def Insert_def store_def Update_def Let_def
      split: option.splits prod.splits)

end
