(* ===== verification/Logon.thy ===== *)
theory Logon
  imports FixMsg
begin

text \<open>
  Credentials and the Logon message (\<open>internal/session/logon.go\<close>): the environment
  variable of a password, what an initiator puts on its outbound Logon (\<open>InjectLogon\<close>) and
  what an acceptor reads off it (\<open>ParseLogon\<close>). The environment is a parameter: a function
  from variable names to values, empty for a variable that is not set.
\<close>

definition CODDisabled :: int where "CODDisabled = 0"
definition CODOnDisconnect :: int where "CODOnDisconnect = 1"
definition CODOnLogout :: int where "CODOnLogout = 2"
definition CODOnDisconnectOrLogout :: int where "CODOnDisconnectOrLogout = 3"

type_synonym environment = "string \<Rightarrow> string"

datatype credential_error = NotSet string

definition PasswordEnvVar :: "string \<Rightarrow> string" where
  "PasswordEnvVar senderCompID = ''FIXLAB_'' @ ToUpper senderCompID @ ''_PASSWORD''"

definition Password :: "environment \<Rightarrow> string \<Rightarrow> credential_error + string" where
  "Password getenv senderCompID =
     (let env = PasswordEnvVar senderCompID; pw = getenv env
      in if pw = [] then Inl (NotSet env) else Inr pw)"

record LogonCredentials =
  lc_AppID :: string
  lc_CODType :: int
  lc_CODTimeoutWindow :: int

text \<open>
  \<open>InjectLogon\<close> mutates the message and may also return an error: the result is the error,
  if any, and the message as it stands then.
\<close>

definition InjectLogon ::
  "lib \<Rightarrow> environment \<Rightarrow> message \<Rightarrow> SessionID \<Rightarrow> LogonCredentials
     \<Rightarrow> credential_error option \<times> message" where
  "InjectLogon L getenv msg sessionID creds =
     (let m1 = SetField tagText (lc_AppID creds) msg;
          m2 = SetField tagEncryptMethod (lib_showInt L 0) m1;
          m3 = (if lc_CODType creds \<noteq> CODDisabled
                then SetField TagCODTimeoutWindow (lib_showInt L (lc_CODTimeoutWindow creds))
                       (SetField TagCODType (lib_showInt L (lc_CODType creds)) m2)
                else m2)
      in case Password getenv (SenderCompID sessionID) of
           Inl err \<Rightarrow> (Some err, m3)
         | Inr pw \<Rightarrow>
             (None, SetField tagRawData pw
                      (SetField tagRawDataLength (lib_showInt L (int (length pw))) m3)))"

record LogonRequest =
  lr_SessionID :: SessionID
  lr_Password :: string
  lr_AppID :: string
  lr_CODType :: int
  lr_CODTimeoutWindow :: int

definition ParseLogon :: "lib \<Rightarrow> message \<Rightarrow> SessionID \<Rightarrow> LogonRequest" where
  "ParseLogon L msg sessionID =
     \<lparr>lr_SessionID = sessionID,
      lr_Password = get_or (GetString (msg_body msg) tagRawData) [],
      lr_AppID = get_or (GetString (msg_body msg) tagText) [],
      lr_CODType = get_or (GetInt L (msg_body msg) TagCODType) 0,
      lr_CODTimeoutWindow = get_or (GetInt L (msg_body msg) TagCODTimeoutWindow) 0\<rparr>"

text \<open>\<open>RejectLogon reason\<close> of the source is the constructor of the same name.\<close>

subsection \<open>Facts\<close>

lemma InjectLogon_body:
  "msg_body (snd (InjectLogon L getenv msg sid creds)) =
     (let b = (msg_body msg)(tagText \<mapsto> lc_AppID creds, tagEncryptMethod \<mapsto> lib_showInt L 0);
          c = (if lc_CODType creds = CODDisabled then b
               else b(TagCODType \<mapsto> lib_showInt L (lc_CODType creds),
                      TagCODTimeoutWindow \<mapsto> lib_showInt L (lc_CODTimeoutWindow creds)));
          pw = getenv (PasswordEnvVar (SenderCompID sid))
      in if pw = [] then c
         else c(tagRawDataLength \<mapsto> lib_showInt L (int (length pw)), tagRawData \<mapsto> pw))"
  by (simp add: InjectLogon_def Password_def Let_def)

lemma InjectLogon_error:
  "fst (InjectLogon L getenv msg sid creds) =
     (if getenv (PasswordEnvVar (SenderCompID sid)) = []
      then Some (NotSet (PasswordEnvVar (SenderCompID sid))) else None)"
  by (simp add: InjectLogon_def Password_def Let_def)

text \<open>A Logon as the engine hands it to \<open>ToAdmin\<close>: none of the fields is there yet.\<close>

definition fresh_logon :: "message \<Rightarrow> bool" where
  "fresh_logon msg \<longleftrightarrow>
     msg_body msg tagRawData = None \<and> msg_body msg TagCODType = None \<and>
     msg_body msg TagCODTimeoutWindow = None"

lemma ParseLogon_InjectLogon:
  assumes "int_roundtrip L" "fresh_logon msg"
    and "int64 (lc_CODType creds)" "int64 (lc_CODTimeoutWindow creds)"
  shows "ParseLogon L (snd (InjectLogon L getenv msg sid creds)) peer =
     \<lparr>lr_SessionID = peer,
      lr_Password = getenv (PasswordEnvVar (SenderCompID sid)),
      lr_AppID = lc_AppID creds,
      lr_CODType = lc_CODType creds,
      lr_CODTimeoutWindow =
        (if lc_CODType creds = CODDisabled then 0 else lc_CODTimeoutWindow creds)\<rparr>"
  using assms
  by (simp add: ParseLogon_def InjectLogon_body fresh_logon_def int_roundtrip_def getter_defs
        tag_defs CODDisabled_def Let_def)

lemma PasswordEnvVar_eq:
  "PasswordEnvVar s = PasswordEnvVar t \<longleftrightarrow> ToUpper s = ToUpper t"
  by (simp add: PasswordEnvVar_def)

end
