(* ===== verification/Venue.thy ===== *)
theory Venue
  imports BookSpec Logon "HOL-Library.AList"
begin

text \<open>
  The state of the exchange application (\<open>internal/exchange/exchange.go\<close>) and the execution
  reports it publishes (\<open>internal/exchange/reports.go\<close>).

  The maps of the source whose missing entries are read as zero values (\<open>loggedOn\<close>,
  \<open>seqnums\<close>) are total functions; those whose presence is tested (\<open>cod\<close>, \<open>expect\<close>) are
  partial. \<open>kinds\<close> is an association list; a range loop over it may begin anywhere, which Go
  decides anew for every loop (\<open>lib_range\<close>). Three parts stand for the outside: \<open>app_now\<close> is the
  clock, in nanoseconds; \<open>app_outbox\<close> records the calls of \<open>quickfix.SendToTarget\<close> in
  order; \<open>app_timers\<close> holds the timers started by \<open>time.AfterFunc\<close> that have not run.
  What \<open>a.log\<close> prints is in \<open>Narration\<close>.
\<close>

type_synonym Kind = string

definition KindOrderEntry :: Kind where [venue_consts]: "KindOrderEntry = ''ORDER_ENTRY''"
definition KindDropCopy :: Kind where [venue_consts]: "KindDropCopy = ''DROP_COPY''"
definition SettingKind :: string where [venue_consts]: "SettingKind = ''SessionKind''"

record SeqNums =
  LastSent :: int
  LastReceived :: int

record timer =
  tm_deadline :: int
  tm_session :: SessionID

record App =
  app_book :: Book
  app_kinds :: "(SessionID \<times> Kind) list"
  app_loggedOn :: "SessionID \<Rightarrow> bool"
  app_cod :: "SessionID \<rightharpoonup> LogonRequest"
  app_seqnums :: "SessionID \<Rightarrow> SeqNums"
  app_expect :: "string \<rightharpoonup> string"
  app_rejectLogons :: string
  app_silenced :: bool
  app_now :: int
  app_outbox :: "(SessionID \<times> message) list"
  app_timers :: "timer list"

definition New :: "Book \<Rightarrow> App" where
  "New book = \<lparr>app_book = book, app_kinds = [], app_loggedOn = (\<lambda>_. False),
     app_cod = Map.empty, app_seqnums = (\<lambda>_. \<lparr>LastSent = 0, LastReceived = 0\<rparr>),
     app_expect = Map.empty, app_rejectLogons = [], app_silenced = False,
     app_now = 0, app_outbox = [], app_timers = []\<rparr>"

subsection \<open>Sequence numbers seen on the wire\<close>

definition noteSent :: "lib \<Rightarrow> message \<Rightarrow> SessionID \<Rightarrow> App \<Rightarrow> App" where
  "noteSent L msg sid a =
     (case GetInt L (msg_header msg) tagMsgSeqNum of
        Inl _ \<Rightarrow> a
      | Inr n \<Rightarrow> a\<lparr>app_seqnums := (app_seqnums a)(sid := (app_seqnums a sid)\<lparr>LastSent := n\<rparr>)\<rparr>)"

definition noteReceived :: "lib \<Rightarrow> message \<Rightarrow> SessionID \<Rightarrow> App \<Rightarrow> App" where
  "noteReceived L msg sid a =
     (case GetInt L (msg_header msg) tagMsgSeqNum of
        Inl _ \<Rightarrow> a
      | Inr n \<Rightarrow> a\<lparr>app_seqnums := (app_seqnums a)(sid := (app_seqnums a sid)\<lparr>LastReceived := n\<rparr>)\<rparr>)"

subsection \<open>Roles\<close>

definition RegisterKind :: "SessionID \<Rightarrow> Kind \<Rightarrow> App \<Rightarrow> App" where
  "RegisterKind sid kind a = a\<lparr>app_kinds := AList.update sid kind (app_kinds a)\<rparr>"

datatype load_error = SessionKindRequired SessionID | BadSessionKind SessionID string

text \<open>The counterparty's password, looked up under the session's target, if one is set.\<close>

definition capture_password :: "environment \<Rightarrow> SessionID \<Rightarrow> App \<Rightarrow> App" where
  "capture_password getenv sid a =
     (case Password getenv (TargetCompID sid) of
        Inl _ \<Rightarrow> a
      | Inr pw \<Rightarrow> a\<lparr>app_expect := (app_expect a)(TargetCompID sid \<mapsto> pw)\<rparr>)"

text \<open>
  The settings are what \<open>SessionSettings()\<close> returned: the sessions in the order the range
  loop visits them, each with its keys. An error ends the loop; what was registered before
  it stays.
\<close>

fun LoadKinds ::
  "environment \<Rightarrow> (SessionID \<times> (string \<rightharpoonup> string)) list \<Rightarrow> App \<Rightarrow> load_error option \<times> App" where
  "LoadKinds getenv [] a = (None, a)"
| "LoadKinds getenv ((sid, s) # rest) a =
     (case s SettingKind of
        None \<Rightarrow> (Some (SessionKindRequired sid), a)
      | Some raw \<Rightarrow>
          let kind = ToUpper (TrimSpace raw)
          in if kind \<noteq> KindOrderEntry \<and> kind \<noteq> KindDropCopy
             then (Some (BadSessionKind sid raw), a)
             else
               LoadKinds getenv rest (capture_password getenv sid (RegisterKind sid kind a)))"

definition kindOf :: "SessionID \<Rightarrow> App \<Rightarrow> Kind" where
  "kindOf sid a = (case map_of (app_kinds a) sid of None \<Rightarrow> [] | Some k \<Rightarrow> k)"

fun sessionOf_loop :: "Kind \<Rightarrow> (SessionID \<times> Kind) list \<Rightarrow> SessionID option" where
  "sessionOf_loop kind [] = None"
| "sessionOf_loop kind ((i, k) # rest) = (if k = kind then Some i else sessionOf_loop kind rest)"

text \<open>The loop goes round the map from a place \<open>n\<close>, and returns at the first session of the role.\<close>

definition sessionOf :: "nat \<Rightarrow> Kind \<Rightarrow> App \<Rightarrow> SessionID option" where
  "sessionOf n kind a = sessionOf_loop kind (rotate n (app_kinds a))"

text \<open>A role with one session: then the place does not matter.\<close>

definition sole :: "Kind \<Rightarrow> App \<Rightarrow> SessionID \<Rightarrow> bool" where
  "sole kind a sid \<longleftrightarrow> (\<forall>i. (i, kind) \<in> set (app_kinds a) \<longleftrightarrow> i = sid)"

lemma sessionOf_loop_in: "sessionOf_loop kind ks = Some i \<Longrightarrow> (i, kind) \<in> set ks"
  by (induction kind ks rule: sessionOf_loop.induct) (auto split: if_splits)

lemma sessionOf_loop_None: "sessionOf_loop kind ks = None \<Longrightarrow> (i, kind) \<notin> set ks"
  by (induction kind ks rule: sessionOf_loop.induct) (auto split: if_splits)

lemma sessionOf_in: "sessionOf n kind a = Some i \<Longrightarrow> (i, kind) \<in> set (app_kinds a)"
  using sessionOf_loop_in by (fastforce simp: sessionOf_def)

lemma sole_sessionOf [simp]:
  assumes "sole kind a sid"
  shows "sessionOf n kind a = Some sid"
proof (cases "sessionOf n kind a")
  case None
  then have "(sid, kind) \<notin> set (app_kinds a)"
    using sessionOf_loop_None [of kind "rotate n (app_kinds a)" sid] by (simp add: sessionOf_def)
  then show ?thesis using assms by (simp add: sole_def)
next
  case (Some i)
  then show ?thesis using sessionOf_in [OF Some] assms by (simp add: sole_def)
qed

subsection \<open>Execution reports\<close>

record report =
  rp_order :: OrderState
  rp_execType :: string
  rp_lastQty :: rat
  rp_lastPx :: rat
  rp_text :: string
  rp_restatement :: int
  rp_execID :: string

text \<open>A report literal of the source: the fields it does not name are zero values.\<close>

definition mk_report :: "OrderState \<Rightarrow> string \<Rightarrow> report" where
  "mk_report ord execType =
     \<lparr>rp_order = ord, rp_execType = execType, rp_lastQty = 0, rp_lastPx = 0,
      rp_text = [], rp_restatement = 0, rp_execID = []\<rparr>"

definition buildExecutionReport :: "lib \<Rightarrow> int \<Rightarrow> report \<Rightarrow> message" where
  "buildExecutionReport L now r =
     (let ord = rp_order r;
          m0 = \<lparr>msg_header = [tagMsgType \<mapsto> ''8''],
                msg_body = [tagOrderID \<mapsto> os_OrderID ord,
                            tagExecID \<mapsto> rp_execID r,
                            tagExecType \<mapsto> rp_execType r,
                            tagOrdStatus \<mapsto> os_Status ord,
                            tagSide \<mapsto> os_Side ord,
                            tagLeavesQty \<mapsto> lib_showDec L 0 (LeavesQty ord),
                            tagCumQty \<mapsto> lib_showDec L 0 (os_CumQty ord),
                            tagAvgPx \<mapsto> lib_showDec L 2 (os_AvgPx ord)]\<rparr>;
          m1 = SetField tagClOrdID (os_ClOrdID ord) m0;
          m2 = SetField tagSymbol (os_Symbol ord) m1;
          m3 = SetField tagOrderQty (lib_showDec L 0 (os_OrderQty ord)) m2;
          m4 = SetField tagTransactTime (lib_showTime L now) m3;
          m5 = (if os_Price ord \<noteq> 0 then SetField tagPrice (lib_showDec L 2 (os_Price ord)) m4 else m4);
          m6 = (if os_Account ord \<noteq> [] then SetField tagAccount (os_Account ord) m5 else m5);
          m7 = (if rp_execType r = ExecTypeTrade
                then SetField tagLastPx (lib_showDec L 2 (rp_lastPx r))
                       (SetField tagLastQty (lib_showDec L 0 (rp_lastQty r)) m6)
                else m6);
          m8 = (if rp_text r \<noteq> [] then SetField tagText (rp_text r) m7 else m7);
          m9 = (if rp_restatement r \<noteq> 0
                then SetField tagExecRestatementReason (lib_showInt L (rp_restatement r)) m8 else m8)
      in m9)"

text \<open>\<open>send\<close> builds a message of its own for the session; an error of the engine is only logged.\<close>

definition send :: "lib \<Rightarrow> report \<Rightarrow> SessionID \<Rightarrow> App \<Rightarrow> App" where
  "send L r sid a =
     a\<lparr>app_outbox := app_outbox a @ [(sid, buildExecutionReport L (app_now a) r)]\<rparr>"

definition publish :: "lib \<Rightarrow> report \<Rightarrow> App \<Rightarrow> App" where
  "publish L r a =
     (let silenced = app_silenced a;
          (eid, book') = NextExecID (app_book a);
          r1 = r\<lparr>rp_execID := eid\<rparr>;
          a1 = a\<lparr>app_book := book'\<rparr>
      in if silenced then a1
         else
           let a2 = (case sessionOf (lib_range L eid KindOrderEntry) KindOrderEntry a1 of
                     Some oeID \<Rightarrow> send L r1 oeID a1 | None \<Rightarrow> a1)
           in (case sessionOf (lib_range L eid KindDropCopy) KindDropCopy a2 of
                 Some dcID \<Rightarrow> send L r1 dcID a2 | None \<Rightarrow> a2))"

subsection \<open>New orders\<close>

text \<open>
  The required fields are read in the source's order; the first that is missing ends the
  handler with its error. The optional ones keep their zero values. \<open>*o\<close> is read again
  after the insertion, through the pointer.
\<close>

definition build_order :: "lib \<Rightarrow> field_map \<Rightarrow> reject + OrderState" where
  "build_order L f =
     (case GetString f tagClOrdID of Inl e \<Rightarrow> Inl e | Inr clOrdID \<Rightarrow>
      case GetString f tagSymbol of Inl e \<Rightarrow> Inl e | Inr symbol \<Rightarrow>
      case GetString f tagSide of Inl e \<Rightarrow> Inl e | Inr side \<Rightarrow>
      case GetDec L f tagOrderQty of Inl e \<Rightarrow> Inl e | Inr orderQty \<Rightarrow>
      case GetString f tagOrdType of Inl e \<Rightarrow> Inl e | Inr ordType \<Rightarrow>
        Inr \<lparr>os_ClOrdID = clOrdID, os_OrderID = [], os_Account = get_or (GetString f tagAccount) [],
             os_Symbol = symbol, os_Side = side, os_OrdType = ordType,
             os_TimeInForce = get_or (GetString f tagTimeInForce) [],
             os_Price = get_or (GetDec L f tagPrice) 0, os_OrderQty = orderQty,
             os_CumQty = 0, os_AvgPx = 0, os_Status = []\<rparr>)"

definition onNewOrderSingle :: "lib \<Rightarrow> message \<Rightarrow> SessionID \<Rightarrow> App \<Rightarrow> reject option \<times> App" where
  "onNewOrderSingle L msg sid a =
     (case build_order L (msg_body msg) of
        Inl e \<Rightarrow> (Some e, a)
      | Inr ord \<Rightarrow>
          let (p, b1) = alloc ord (app_book a)
          in case Insert p b1 of
               (Some err, b2) \<Rightarrow> (Some (BusinessReject (OrderRefused err) 5), a\<lparr>app_book := b2\<rparr>)
             | (None, b2) \<Rightarrow>
                 (None, publish L (mk_report (deref b2 p) ExecTypeNew) (a\<lparr>app_book := b2\<rparr>)))"

subsection \<open>Cancel on disconnect\<close>

text \<open>The callback of \<open>CancelAllOpenDay\<close>: it does not look at the order's status.\<close>

definition set_canceled :: order_update where
  "set_canceled s = (None, s\<lparr>os_Status := StatusCanceled\<rparr>)"

fun cancel_loop :: "lib \<Rightarrow> string \<Rightarrow> OrderState list \<Rightarrow> App \<Rightarrow> App" where
  "cancel_loop L reason [] a = a"
| "cancel_loop L reason (ord # rest) a =
     (case Update (os_ClOrdID ord) set_canceled (app_book a) of
        (Inl err, b) \<Rightarrow> cancel_loop L reason rest (a\<lparr>app_book := b\<rparr>)
      | (Inr updated, b) \<Rightarrow>
          cancel_loop L reason rest
            (publish L ((mk_report updated ExecTypeCanceled)
                         \<lparr>rp_text := reason, rp_restatement := RestatementCancelOnDisconnect\<rparr>)
               (a\<lparr>app_book := b\<rparr>)))"

definition CancelAllOpenDay :: "lib \<Rightarrow> string \<Rightarrow> App \<Rightarrow> nat \<times> App" where
  "CancelAllOpenDay L reason a =
     (let orders = OpenDayOrders (app_book a) in (length orders, cancel_loop L reason orders a))"

text \<open>
  \<open>time.Duration(window) * time.Millisecond\<close>, a 64-bit product. A timer whose duration is
  not positive is due at once.
\<close>

definition cod_window :: "int \<Rightarrow> int" where
  "cod_window ms = wrap64 (ms * 1000000)"

definition onSessionLost :: "SessionID \<Rightarrow> LogonRequest \<Rightarrow> App \<Rightarrow> App" where
  "onSessionLost sid req a =
     a\<lparr>app_timers := app_timers a @
        [\<lparr>tm_deadline = app_now a + cod_window (lr_CODTimeoutWindow req), tm_session = sid\<rparr>]\<rparr>"

definition cod_reason :: "lib \<Rightarrow> SessionID \<Rightarrow> string" where
  "cod_reason L sid = ''cancel on disconnect ('' @ lib_idString L sid @ '')''"

text \<open>The function the timer runs.\<close>

definition cod_expire :: "lib \<Rightarrow> SessionID \<Rightarrow> App \<Rightarrow> App" where
  "cod_expire L sid a =
     (let back = app_loggedOn a sid
      in if back then a else snd (CancelAllOpenDay L (cod_reason L sid) a))"

subsection \<open>The callbacks of the engine\<close>

definition OnLogon :: "SessionID \<Rightarrow> App \<Rightarrow> App" where
  "OnLogon sid a = a\<lparr>app_loggedOn := (app_loggedOn a)(sid := True)\<rparr>"

definition OnLogout :: "SessionID \<Rightarrow> App \<Rightarrow> App" where
  "OnLogout sid a =
     (let a1 = a\<lparr>app_loggedOn := (app_loggedOn a)(sid := False)\<rparr>
      in case app_cod a sid of
           None \<Rightarrow> a1
         | Some req \<Rightarrow> if lr_CODType req \<noteq> CODDisabled then onSessionLost sid req a1 else a1)"

definition ToAdmin :: "lib \<Rightarrow> message \<Rightarrow> SessionID \<Rightarrow> App \<Rightarrow> App" where
  "ToAdmin L msg sid a = noteSent L msg sid a"

definition ToApp :: "lib \<Rightarrow> message \<Rightarrow> SessionID \<Rightarrow> App \<Rightarrow> App" where
  "ToApp L msg sid a = noteSent L msg sid a"

definition checkPassword :: "SessionID \<Rightarrow> string \<Rightarrow> App \<Rightarrow> string option" where
  "checkPassword sid got a =
     (case app_expect a (TargetCompID sid) of
        None \<Rightarrow> None
      | Some expected \<Rightarrow> if got \<noteq> expected then Some ''invalid credentials'' else None)"

definition FromAdmin :: "lib \<Rightarrow> message \<Rightarrow> SessionID \<Rightarrow> App \<Rightarrow> reject option \<times> App" where
  "FromAdmin L msg sid a =
     (let a1 = noteReceived L msg sid a
      in case GetString (msg_header msg) tagMsgType of
           Inl err \<Rightarrow> (Some err, a1)
         | Inr msgType \<Rightarrow>
             if msgType \<noteq> ''A'' then (None, a1)
             else if app_rejectLogons a1 \<noteq> [] then (Some (RejectLogon (app_rejectLogons a1)), a1)
             else
               let req = ParseLogon L msg sid
               in case checkPassword sid (lr_Password req) a1 of
                    Some err \<Rightarrow> (Some (RejectLogon err), a1)
                  | None \<Rightarrow> (None, a1\<lparr>app_cod := (app_cod a1)(sid \<mapsto> req)\<rparr>))"

definition FromApp :: "lib \<Rightarrow> message \<Rightarrow> SessionID \<Rightarrow> App \<Rightarrow> reject option \<times> App" where
  "FromApp L msg sid a =
     (let a1 = noteReceived L msg sid a
      in if kindOf sid a1 = KindDropCopy then (Some (BusinessReject DropCopyReadOnly 3), a1)
         else case GetString (msg_header msg) tagMsgType of
           Inl err \<Rightarrow> (Some err, a1)
         | Inr msgType \<Rightarrow>
             if msgType = ''D'' then onNewOrderSingle L msg sid a1
             else if msgType = ''j'' \<or> msgType = ''3'' then (None, a1)
             else (Some (BusinessReject (UnsupportedMsgType msgType) 3), a1))"

end
