(* ===== verification/Commands.thy ===== *)
theory Commands
  imports Venue "HOL-Library.List_Lexorder" "HOL-Library.Char_ord"
begin

text \<open>
  The venue's commanded behaviour (\<open>internal/exchange/commands.go\<close>): fills, cancels,
  rejects, the switches for refusing logons and going silent, the sequence gap, and the
  reports of sessions and orders. An error is returned as \<open>Some\<close>.
\<close>

subsection \<open>Fills\<close>

text \<open>The callback of \<open>Partial\<close>: the guards come before any write.\<close>

definition apply_fill :: "lib \<Rightarrow> string \<Rightarrow> rat \<Rightarrow> rat \<Rightarrow> order_update" where
  "apply_fill L clOrdID qty px ord =
     (if \<not> IsOpen ord then (Some (CannotTrade clOrdID (os_Status ord)), ord)
      else if LeavesQty ord < qty then (Some (ExceedsLeaves qty (LeavesQty ord)), ord)
      else
        let notional = os_AvgPx ord * os_CumQty ord + px * qty;
            cum = os_CumQty ord + qty;
            ord1 = ord\<lparr>os_CumQty := cum, os_AvgPx := lib_div L notional cum\<rparr>
        in (None, if os_CumQty ord1 = os_OrderQty ord1
                  then ord1\<lparr>os_Status := StatusFilled\<rparr>
                  else ord1\<lparr>os_Status := StatusPartiallyFilled\<rparr>))"

definition Partial :: "lib \<Rightarrow> string \<Rightarrow> rat \<Rightarrow> rat \<Rightarrow> App \<Rightarrow> venue_error option \<times> App" where
  "Partial L clOrdID qty px a =
     (if qty \<le> 0 then (Some (QtyNotPositive qty), a)
      else case Update clOrdID (apply_fill L clOrdID qty px) (app_book a) of
             (Inl err, b) \<Rightarrow> (Some err, a\<lparr>app_book := b\<rparr>)
           | (Inr updated, b) \<Rightarrow>
               (None, publish L ((mk_report updated ExecTypeTrade)\<lparr>rp_lastQty := qty, rp_lastPx := px\<rparr>)
                        (a\<lparr>app_book := b\<rparr>)))"

definition Fill :: "lib \<Rightarrow> string \<Rightarrow> rat \<Rightarrow> App \<Rightarrow> venue_error option \<times> App" where
  "Fill L clOrdID px a =
     (case Get clOrdID (app_book a) of
        None \<Rightarrow> (Some (UnknownClOrdID clOrdID), a)
      | Some ord \<Rightarrow> Partial L clOrdID (LeavesQty ord) px a)"

subsection \<open>Cancel and Reject\<close>

definition apply_cancel :: "string \<Rightarrow> order_update" where
  "apply_cancel clOrdID ord =
     (if \<not> IsOpen ord then (Some (CannotCancel clOrdID (os_Status ord)), ord)
      else (None, ord\<lparr>os_Status := StatusCanceled\<rparr>))"

definition Cancel :: "lib \<Rightarrow> string \<Rightarrow> string \<Rightarrow> App \<Rightarrow> venue_error option \<times> App" where
  "Cancel L clOrdID reason a =
     (case Update clOrdID (apply_cancel clOrdID) (app_book a) of
        (Inl err, b) \<Rightarrow> (Some err, a\<lparr>app_book := b\<rparr>)
      | (Inr updated, b) \<Rightarrow>
          (None, publish L ((mk_report updated ExecTypeCanceled)\<lparr>rp_text := reason\<rparr>)
                   (a\<lparr>app_book := b\<rparr>)))"

definition apply_reject :: "string \<Rightarrow> order_update" where
  "apply_reject clOrdID ord =
     (if \<not> IsOpen ord then (Some (CannotReject clOrdID (os_Status ord)), ord)
      else (None, ord\<lparr>os_Status := StatusRejected\<rparr>))"

definition Reject :: "lib \<Rightarrow> string \<Rightarrow> string \<Rightarrow> App \<Rightarrow> venue_error option \<times> App" where
  "Reject L clOrdID reason a =
     (case Update clOrdID (apply_reject clOrdID) (app_book a) of
        (Inl err, b) \<Rightarrow> (Some err, a\<lparr>app_book := b\<rparr>)
      | (Inr updated, b) \<Rightarrow>
          (None, publish L ((mk_report updated ExecTypeRejected)\<lparr>rp_text := reason\<rparr>)
                   (a\<lparr>app_book := b\<rparr>)))"

subsection \<open>Switches\<close>

definition SetRejectLogons :: "string \<Rightarrow> App \<Rightarrow> App" where
  "SetRejectLogons reason a = a\<lparr>app_rejectLogons := reason\<rparr>"

definition SetSilenced :: "bool \<Rightarrow> App \<Rightarrow> App" where
  "SetSilenced v a = a\<lparr>app_silenced := v\<rparr>"

definition Silenced :: "App \<Rightarrow> bool" where
  "Silenced a = app_silenced a"

subsection \<open>The sequence gap\<close>

text \<open>
  The engine's store is outside: \<open>get_num\<close> and \<open>set_num\<close> are \<open>quickfix.GetExpectedSenderNum\<close>
  and \<open>quickfix.SetNextSenderMsgSeqNum\<close> on an engine state \<open>e\<close>; \<open>n0\<close> is where the range loop of
  \<open>sessionOf\<close> begins. The sum is a 64-bit one.
\<close>

definition AdvanceSeqNum ::
  "nat \<Rightarrow> ('e \<Rightarrow> SessionID \<Rightarrow> string + int) \<Rightarrow> ('e \<Rightarrow> SessionID \<Rightarrow> int \<Rightarrow> string + 'e)
     \<Rightarrow> Kind \<Rightarrow> int \<Rightarrow> App \<Rightarrow> 'e \<Rightarrow> (venue_error + int) \<times> 'e" where
  "AdvanceSeqNum n0 get_num set_num kind n a e =
     (if n \<le> 0 then (Inl (NNotPositive n), e)
      else
        let sid = (case sessionOf n0 kind a of Some i \<Rightarrow> i | None \<Rightarrow> zero_SessionID)
        in if sid = zero_SessionID then (Inl (NoSessionConfigured kind), e)
           else case get_num e sid of
                  Inl err \<Rightarrow> (Inl (EngineError err), e)
                | Inr current \<Rightarrow>
                    let nxt = wrap64 (current + n)
                    in case set_num e sid nxt of
                         Inl err \<Rightarrow> (Inl (EngineError err), e)
                       | Inr e' \<Rightarrow> (Inr nxt, e'))"

subsection \<open>What the admin API reads\<close>

record SessionStatus =
  st_SessionID :: string
  st_Kind :: Kind
  st_LoggedOn :: bool
  st_SeqNums :: SeqNums
  st_CODType :: int
  st_CODTimeout :: int

definition session_status :: "lib \<Rightarrow> App \<Rightarrow> SessionID \<times> Kind \<Rightarrow> SessionStatus" where
  "session_status L a = (\<lambda>(i, kind).
     \<lparr>st_SessionID = lib_idString L i, st_Kind = kind, st_LoggedOn = app_loggedOn a i,
      st_SeqNums = app_seqnums a i,
      st_CODType = (case app_cod a i of None \<Rightarrow> 0 | Some req \<Rightarrow> lr_CODType req),
      st_CODTimeout = (case app_cod a i of None \<Rightarrow> 0 | Some req \<Rightarrow> lr_CODTimeoutWindow req)\<rparr>)"

text \<open>\<open>sort.Slice\<close> by session id, strings compared byte by byte.\<close>

definition Sessions :: "lib \<Rightarrow> App \<Rightarrow> SessionStatus list" where
  "Sessions L a = sort_key st_SessionID (map (session_status L a) (app_kinds a))"

definition Orders :: "App \<Rightarrow> OrderState list" where
  "Orders a = All_orders (app_book a)"

end
