(* ===== verification/VenueInv.thy ===== *)
theory VenueInv
  imports Commands
begin

text \<open>
  What the venue keeps true (for \<open>internal/exchange\<close>): the frame of \<open>publish\<close>, the
  well-formedness of orders, the steps an order may take, and the effect of each command on
  the book and on what is sent. Each handler is one step here; the interleavings of handlers
  that do not hold the book's lock throughout are in \<open>Races\<close>.
\<close>

subsection \<open>The frame of publish\<close>

lemma send_frame [simp]:
  "app_book (send L r sid a) = app_book a" "app_kinds (send L r sid a) = app_kinds a"
  "app_loggedOn (send L r sid a) = app_loggedOn a" "app_cod (send L r sid a) = app_cod a"
  "app_seqnums (send L r sid a) = app_seqnums a" "app_expect (send L r sid a) = app_expect a"
  "app_rejectLogons (send L r sid a) = app_rejectLogons a"
  "app_silenced (send L r sid a) = app_silenced a" "app_now (send L r sid a) = app_now a"
  "app_timers (send L r sid a) = app_timers a"
  "sessionOf n k (send L r sid a) = sessionOf n k a"
  by (simp_all add: send_def sessionOf_def)

lemma publish_frame [simp]:
  "app_book (publish L r a) = snd (NextExecID (app_book a))"
  "app_kinds (publish L r a) = app_kinds a"
  "app_loggedOn (publish L r a) = app_loggedOn a" "app_cod (publish L r a) = app_cod a"
  "app_seqnums (publish L r a) = app_seqnums a" "app_expect (publish L r a) = app_expect a"
  "app_rejectLogons (publish L r a) = app_rejectLogons a"
  "app_silenced (publish L r a) = app_silenced a" "app_now (publish L r a) = app_now a"
  "app_timers (publish L r a) = app_timers a"
  by (simp_all add: publish_def NextExecID_def Let_def split: option.split)

lemma cancel_loop_loggedOn: "app_loggedOn (cancel_loop L t xs b) = app_loggedOn b"
  by (induction L t xs b rule: cancel_loop.induct) (simp_all split: prod.split sum.split)

lemma sessionOf_frame [simp]:
  "sessionOf n k (publish L r a) = sessionOf n k a" "sole k (publish L r a) sid = sole k a sid"
  "sessionOf n k (a\<lparr>app_book := b\<rparr>) = sessionOf n k a" "sole k (a\<lparr>app_book := b\<rparr>) sid = sole k a sid"
  by (simp_all add: sessionOf_def sole_def)

lemma Orders_publish [simp]: "Orders (publish L r a) = Orders a"
  by (simp add: Orders_def)

subsection \<open>What a session was sent\<close>

definition messages_to :: "SessionID \<Rightarrow> App \<Rightarrow> message list" where
  "messages_to sid a = map snd (filter (\<lambda>(i, m). i = sid) (app_outbox a))"

definition exec_id :: "message \<Rightarrow> string" where
  "exec_id m = get_or (GetString (msg_body m) tagExecID) []"

text \<open>The message \<open>publish\<close> builds: the report under the next ExecID.\<close>

definition next_message :: "lib \<Rightarrow> report \<Rightarrow> App \<Rightarrow> message" where
  "next_message L r a =
     buildExecutionReport L (app_now a) (r\<lparr>rp_execID := fst (NextExecID (app_book a))\<rparr>)"

lemma messages_to_book [simp]: "messages_to sid (a\<lparr>app_book := b\<rparr>) = messages_to sid a"
  by (simp add: messages_to_def)

text \<open>The session of a role that the next publication finds.\<close>

abbreviation picked :: "lib \<Rightarrow> Kind \<Rightarrow> App \<Rightarrow> SessionID option" where
  "picked L k a \<equiv> sessionOf (lib_range L (fst (NextExecID (app_book a))) k) k a"

lemma messages_to_publish:
  "messages_to sid (publish L r a) =
     messages_to sid a @
       (if app_silenced a then []
        else (if picked L KindOrderEntry a = Some sid then [next_message L r a] else []) @
             (if picked L KindDropCopy a = Some sid then [next_message L r a] else []))"
  by (auto simp: publish_def send_def messages_to_def next_message_def NextExecID_def Let_def
      sessionOf_def split: option.split)

lemma build_body:
  "msg_body (buildExecutionReport L now r) tagExecID = Some (rp_execID r)"
  "msg_body (buildExecutionReport L now r) tagClOrdID = Some (os_ClOrdID (rp_order r))"
  "msg_body (buildExecutionReport L now r) tagOrderID = Some (os_OrderID (rp_order r))"
  "msg_body (buildExecutionReport L now r) tagExecType = Some (rp_execType r)"
  "msg_body (buildExecutionReport L now r) tagOrdStatus = Some (os_Status (rp_order r))"
  "msg_body (buildExecutionReport L now r) tagCumQty = Some (lib_showDec L 0 (os_CumQty (rp_order r)))"
  "msg_body (buildExecutionReport L now r) tagLeavesQty = Some (lib_showDec L 0 (LeavesQty (rp_order r)))"
  "msg_body (buildExecutionReport L now r) tagAvgPx = Some (lib_showDec L 2 (os_AvgPx (rp_order r)))"
  "msg_header (buildExecutionReport L now r) = [tagMsgType \<mapsto> ''8'']"
  by (simp_all add: buildExecutionReport_def tag_defs Let_def)

lemma exec_id_next_message [simp]:
  "exec_id (next_message L r a) = fst (NextExecID (app_book a))"
  by (simp add: exec_id_def next_message_def build_body)

subsection \<open>Well-formed orders\<close>

text \<open>
  The quantities fit the status. \<open>OrderQty\<close> itself is whatever the client asked for: the
  venue does not check that it is positive.
\<close>

definition order_ok :: "OrderState \<Rightarrow> bool" where
  "order_ok ord \<longleftrightarrow>
     (os_Status ord = StatusNew \<and> os_CumQty ord = 0) \<or>
     (os_Status ord = StatusPartiallyFilled \<and> 0 < os_CumQty ord \<and> os_CumQty ord < os_OrderQty ord) \<or>
     (os_Status ord = StatusFilled \<and> 0 < os_CumQty ord \<and> os_CumQty ord = os_OrderQty ord) \<or>
     ((os_Status ord = StatusCanceled \<or> os_Status ord = StatusRejected) \<and>
        (os_CumQty ord = 0 \<or> (0 < os_CumQty ord \<and> os_CumQty ord < os_OrderQty ord)))"

text \<open>
  How an order may change over time: its terms never do, its executed quantity only grows,
  a closed order is final, and an order that has traded is never new again.
\<close>

definition same_terms :: "OrderState \<Rightarrow> OrderState \<Rightarrow> bool" where
  "same_terms ord ord' \<longleftrightarrow>
     os_ClOrdID ord' = os_ClOrdID ord \<and> os_OrderID ord' = os_OrderID ord \<and>
     os_Account ord' = os_Account ord \<and> os_Symbol ord' = os_Symbol ord \<and>
     os_Side ord' = os_Side ord \<and> os_OrdType ord' = os_OrdType ord \<and>
     os_TimeInForce ord' = os_TimeInForce ord \<and> os_Price ord' = os_Price ord \<and>
     os_OrderQty ord' = os_OrderQty ord"

definition order_step :: "OrderState \<Rightarrow> OrderState \<Rightarrow> bool" where
  "order_step ord ord' \<longleftrightarrow>
     same_terms ord ord' \<and> os_CumQty ord \<le> os_CumQty ord' \<and>
     (\<not> IsOpen ord \<longrightarrow> ord' = ord) \<and>
     (os_Status ord' = StatusNew \<longrightarrow> os_Status ord = StatusNew)"

lemma order_step_refl [simp]: "order_step ord ord"
  by (simp add: order_step_def same_terms_def)

lemma order_step_trans: "order_step x y \<Longrightarrow> order_step y z \<Longrightarrow> order_step x z"
  unfolding order_step_def same_terms_def by auto

lemma order_step_final: "order_step x y \<Longrightarrow> \<not> IsOpen x \<Longrightarrow> y = x"
  by (simp add: order_step_def)

text \<open>The steps the commands take.\<close>

lemmas callback_defs = apply_fill_def apply_cancel_def apply_reject_def set_canceled_def

lemma callbacks_keep_identity [simp]:
  "keeps_identity (apply_fill L i q p)" "keeps_identity (apply_cancel i)"
  "keeps_identity (apply_reject i)" "keeps_identity set_canceled"
  by (auto simp: keeps_identity_def callback_defs Let_def)

lemma open_status: "IsOpen ord \<longleftrightarrow> os_Status ord \<in> {StatusNew, StatusPartiallyFilled}"
  by (auto simp: IsOpen_def)

lemma fill_step: "0 < q \<Longrightarrow> order_step ord (snd (apply_fill L i q p ord))"
  by (auto simp: order_step_def same_terms_def apply_fill_def Let_def venue_consts)

lemma cancel_step: "order_step ord (snd (apply_cancel i ord))"
  by (auto simp: order_step_def same_terms_def apply_cancel_def venue_consts)

lemma reject_step: "order_step ord (snd (apply_reject i ord))"
  by (auto simp: order_step_def same_terms_def apply_reject_def venue_consts)

lemma set_canceled_step: "IsOpen ord \<Longrightarrow> order_step ord (snd (set_canceled ord))"
  by (auto simp: order_step_def same_terms_def set_canceled_def venue_consts)

lemma fill_ok: "0 < q \<Longrightarrow> order_ok ord \<Longrightarrow> order_ok (snd (apply_fill L i q p ord))"
  by (auto simp: order_ok_def apply_fill_def Let_def LeavesQty_def IsOpen_def venue_consts
      split: if_splits)

lemma cancel_ok: "order_ok ord \<Longrightarrow> order_ok (snd (apply_cancel i ord))"
  by (auto simp: order_ok_def apply_cancel_def IsOpen_def venue_consts)

lemma reject_ok: "order_ok ord \<Longrightarrow> order_ok (snd (apply_reject i ord))"
  by (auto simp: order_ok_def apply_reject_def IsOpen_def venue_consts)

lemma set_canceled_ok: "IsOpen ord \<Longrightarrow> order_ok ord \<Longrightarrow> order_ok (snd (set_canceled ord))"
  by (auto simp: order_ok_def set_canceled_def IsOpen_def venue_consts)

lemmas callback_steps = fill_step cancel_step reject_step set_canceled_step
lemmas callback_ok = fill_ok cancel_ok reject_ok set_canceled_ok

subsection \<open>The book under the commands\<close>

definition book_ok :: "App \<Rightarrow> bool" where
  "book_ok a \<longleftrightarrow> book_inv (app_book a) \<and> (\<forall>ord \<in> set (Orders a). order_ok ord)"

text \<open>
  \<open>extends xs ys\<close>: the orders \<open>xs\<close> are still there, in the same places, each moved by
  \<open>order_step\<close>, and new orders come after them.
\<close>

definition extends :: "OrderState list \<Rightarrow> OrderState list \<Rightarrow> bool" where
  "extends xs ys \<longleftrightarrow> (\<exists>mid new. ys = mid @ new \<and> list_all2 order_step xs mid)"

lemma extends_refl [simp]: "extends xs xs"
  unfolding extends_def by (metis append_Nil2 list.rel_refl order_step_refl)

lemma extends_app: "extends xs (xs @ ys)"
  unfolding extends_def by (metis list.rel_refl order_step_refl)

lemma extends_rel: "list_all2 order_step xs ys \<Longrightarrow> extends xs ys"
  unfolding extends_def by (metis append_Nil2)

lemma extends_trans:
  assumes "extends xs ys" "extends ys zs"
  shows "extends xs zs"
proof -
  obtain m n where ys: "ys = m @ n" "list_all2 order_step xs m"
    using assms(1) by (auto simp: extends_def)
  obtain m' n' where zs: "zs = m' @ n'" "list_all2 order_step ys m'"
    using assms(2) by (auto simp: extends_def)
  obtain u v where m': "m' = u @ v" "list_all2 order_step m u"
    using ys(1) zs(2) by (auto simp: list_all2_append1)
  have "list_all2 order_step xs u"
    using list_all2_trans [OF order_step_trans ys(2) m'(2)] .
  then show ?thesis using zs(1) m'(1) by (auto simp: extends_def)
qed

lemma extends_mem:
  assumes "extends xs ys" "x \<in> set xs"
  shows "\<exists>y \<in> set ys. order_step x y"
proof -
  obtain mid new where ys: "ys = mid @ new" and rel: "list_all2 order_step xs mid"
    using assms(1) by (auto simp: extends_def)
  obtain i where "i < length xs" "x = xs ! i" using assms(2) by (auto simp: in_set_conv_nth)
  with rel have "order_step x (mid ! i)" "mid ! i \<in> set mid"
    by (auto simp: list_all2_conv_all_nth)
  with ys show ?thesis by auto
qed

lemma book_ok_publish [simp]: "book_ok (publish L r a) = book_ok a"
  by (simp add: book_ok_def)

lemma Orders_book [simp]: "Orders (a\<lparr>app_book := b\<rparr>) = All_orders b"
  by (simp add: Orders_def)

text \<open>One update of the book, whatever the callback answers.\<close>

lemma update_effect:
  assumes "book_ok a" "keeps_identity fn"
    and "\<And>ord. Get i (app_book a) = Some ord \<Longrightarrow> order_ok ord \<Longrightarrow>
           order_step ord (snd (fn ord)) \<and> order_ok (snd (fn ord))"
  shows "book_ok (a\<lparr>app_book := snd (Update i fn (app_book a))\<rparr>) \<and>
         extends (Orders a) (All_orders (snd (Update i fn (app_book a))))"
proof
  have inv: "book_inv (app_book a)" and ok: "\<forall>ord \<in> set (All_orders (app_book a)). order_ok ord"
    using assms(1) by (auto simp: book_ok_def Orders_def)
  have good: "order_ok ord" if "Get i (app_book a) = Some ord" for ord
    using that ok by (auto simp: book_Get [OF inv] dest: log_get_Some)
  show "book_ok (a\<lparr>app_book := snd (Update i fn (app_book a))\<rparr>)"
    using book.inv_update [OF inv assms(2), of i] book.update_all [OF inv ok, of i fn] assms(3)
    by (simp add: book_ok_def)
  show "extends (Orders a) (All_orders (snd (Update i fn (app_book a))))"
    unfolding Orders_def using assms(3) good
    by (intro extends_rel book.update_rel [OF inv]) auto
qed

lemma Partial_effect:
  assumes "book_ok a"
  shows "book_ok (snd (Partial L i q p a)) \<and> extends (Orders a) (Orders (snd (Partial L i q p a)))"
  using update_effect [OF assms, of "apply_fill L i q p" i] fill_step fill_ok assms
  by (auto simp: Partial_def split: prod.split sum.split)

lemma Fill_effect:
  assumes "book_ok a"
  shows "book_ok (snd (Fill L i p a)) \<and> extends (Orders a) (Orders (snd (Fill L i p a)))"
  using Partial_effect [OF assms] assms by (auto simp: Fill_def split: option.split)

lemma Cancel_effect:
  assumes "book_ok a"
  shows "book_ok (snd (Cancel L i t a)) \<and> extends (Orders a) (Orders (snd (Cancel L i t a)))"
  using update_effect [OF assms, of "apply_cancel i" i] cancel_step cancel_ok
  by (auto simp: Cancel_def split: prod.split sum.split)

lemma Reject_effect:
  assumes "book_ok a"
  shows "book_ok (snd (Reject L i t a)) \<and> extends (Orders a) (Orders (snd (Reject L i t a)))"
  using update_effect [OF assms, of "apply_reject i" i] reject_step reject_ok
  by (auto simp: Reject_def split: prod.split sum.split)

subsection \<open>New orders\<close>

definition accepted_as :: "OrderState \<Rightarrow> Book \<Rightarrow> OrderState" where
  "accepted_as ord b =
     ord\<lparr>os_OrderID := ''ORD'' @ fmt06 (bk_orderSeq b + 1), os_Status := StatusNew\<rparr>"

lemma onNewOrderSingle_eq:
  "onNewOrderSingle L msg sid a =
     (case build_order L (msg_body msg) of
        Inl e \<Rightarrow> (Some e, a)
      | Inr ord \<Rightarrow>
          (case insert_new ord (app_book a) of
             (Some err, b) \<Rightarrow> (Some (BusinessReject (OrderRefused err) 5), a\<lparr>app_book := b\<rparr>)
           | (None, b) \<Rightarrow>
               (None, publish L (mk_report (accepted_as ord (app_book a)) ExecTypeNew)
                        (a\<lparr>app_book := b\<rparr>))))"
proof -
  have "deref b2 (length (bk_heap b)) = accepted_as ord b"
    if "Insert (length (bk_heap b)) (b\<lparr>bk_heap := bk_heap b @ [ord]\<rparr>) = (None, b2)" for ord b b2
  proof -
    have new: "insert_new ord b = (None, b2)" using that by (simp add: insert_new_def alloc_def)
    show ?thesis
    proof (cases "Get (os_ClOrdID ord) b")
      case None
      then show ?thesis using new insert_new_ok [OF None]
        by (auto simp: deref_def accepted_as_def)
    next
      case (Some y)
      with new show ?thesis by (simp add: insert_new_dup)
    qed
  qed
  then show ?thesis
    by (auto simp: onNewOrderSingle_def insert_new_def alloc_def split: sum.split prod.split option.split)
qed

lemma build_order_fresh:
  "build_order L f = Inr ord \<Longrightarrow> os_CumQty ord = 0 \<and> os_AvgPx ord = 0 \<and> os_Status ord = []"
  by (auto simp: build_order_def split: sum.splits)

lemma insert_effect:
  assumes "book_ok a" "os_CumQty ord = 0"
  shows "book_ok (a\<lparr>app_book := snd (insert_new ord (app_book a))\<rparr>) \<and>
         extends (Orders a) (All_orders (snd (insert_new ord (app_book a))))"
proof
  have inv: "book_inv (app_book a)" and ok: "\<forall>x \<in> set (All_orders (app_book a)). order_ok x"
    using assms(1) by (auto simp: book_ok_def Orders_def)
  show "book_ok (a\<lparr>app_book := snd (insert_new ord (app_book a))\<rparr>)"
    using book.inv_insert [OF inv] book.insert_all [OF inv ok, of ord] assms(2)
    by (simp add: book_ok_def order_ok_def)
  show "extends (Orders a) (All_orders (snd (insert_new ord (app_book a))))"
    using book.insert_prefix [OF inv, of ord] by (auto simp: Orders_def extends_app)
qed

lemma onNewOrderSingle_effect:
  assumes "book_ok a"
  shows "book_ok (snd (onNewOrderSingle L msg sid a)) \<and>
         extends (Orders a) (Orders (snd (onNewOrderSingle L msg sid a)))"
proof (cases "build_order L (msg_body msg)")
  case (Inr ord)
  then have "os_CumQty ord = 0" by (simp add: build_order_fresh)
  from insert_effect [OF assms this] Inr show ?thesis
    by (auto simp: onNewOrderSingle_eq split: prod.split option.split)
qed (simp add: onNewOrderSingle_eq assms)

subsection \<open>Cancelling the open day orders\<close>

text \<open>
  The loop runs over the snapshot \<open>xs\<close>: while its orders are the present ones, each pass
  closes one of them and leaves the rest of the snapshot present.
\<close>

definition present :: "OrderState list \<Rightarrow> App \<Rightarrow> bool" where
  "present xs a \<longleftrightarrow> distinct (map os_ClOrdID xs) \<and>
     (\<forall>ord \<in> set xs. Get (os_ClOrdID ord) (app_book a) = Some ord)"

definition cancel_one :: "lib \<Rightarrow> string \<Rightarrow> OrderState \<Rightarrow> App \<Rightarrow> App" where
  "cancel_one L reason ord a =
     publish L ((mk_report (ord\<lparr>os_Status := StatusCanceled\<rparr>) ExecTypeCanceled)
                  \<lparr>rp_text := reason, rp_restatement := RestatementCancelOnDisconnect\<rparr>)
       (a\<lparr>app_book := snd (Update (os_ClOrdID ord) set_canceled (app_book a))\<rparr>)"

lemma cancel_loop_step:
  assumes "book_inv (app_book a)" "present (ord # xs) a"
  shows "cancel_loop L reason (ord # xs) a = cancel_loop L reason xs (cancel_one L reason ord a)"
    and "present xs (cancel_one L reason ord a)"
    and "Orders (cancel_one L reason ord a) =
           log_set (os_ClOrdID ord) (ord\<lparr>os_Status := StatusCanceled\<rparr>) (Orders a)"
    and "book_inv (app_book (cancel_one L reason ord a))"
proof -
  let ?i = "os_ClOrdID ord"
  have get: "Get ?i (app_book a) = Some ord" using assms(2) by (simp add: present_def)
  have res: "fst (Update ?i set_canceled (app_book a)) = Inr (ord\<lparr>os_Status := StatusCanceled\<rparr>)"
    using book.update_Some(1) [OF assms(1) get] by (simp add: set_canceled_def)
  show "cancel_loop L reason (ord # xs) a = cancel_loop L reason xs (cancel_one L reason ord a)"
    using res by (cases "Update ?i set_canceled (app_book a)") (simp add: cancel_one_def)
  show "Orders (cancel_one L reason ord a) =
           log_set ?i (ord\<lparr>os_Status := StatusCanceled\<rparr>) (Orders a)"
    using book.update_Some(2) [OF assms(1) get, of set_canceled]
    by (simp add: cancel_one_def Orders_def set_canceled_def)
  show "book_inv (app_book (cancel_one L reason ord a))"
    using book.inv_update [OF assms(1)] by (simp add: cancel_one_def)
  show "present xs (cancel_one L reason ord a)"
  proof -
    have "Get (os_ClOrdID x) (app_book (cancel_one L reason ord a)) = Some x" if "x \<in> set xs" for x
    proof -
      have "os_ClOrdID x \<noteq> ?i" "Get (os_ClOrdID x) (app_book a) = Some x"
        using assms(2) that by (force simp: present_def)+
      then show ?thesis
        using book.get_update_other [OF assms(1)] by (simp add: cancel_one_def)
    qed
    then show ?thesis using assms(2) by (simp add: present_def)
  qed
qed

lemma cancel_loop_effect:
  assumes "book_ok a" "present xs a" "\<forall>ord \<in> set xs. IsOpen ord"
  shows "book_ok (cancel_loop L reason xs a) \<and> extends (Orders a) (Orders (cancel_loop L reason xs a))"
  using assms
proof (induction xs arbitrary: a)
  case (Cons ord xs)
  let ?a = "cancel_one L reason ord a"
  have inv: "book_inv (app_book a)" using Cons.prems by (simp add: book_ok_def)
  note step = cancel_loop_step [OF inv Cons.prems(2), of L reason]
  have get: "Get (os_ClOrdID ord) (app_book a) = Some ord" "IsOpen ord"
    using Cons.prems by (auto simp: present_def)
  have "book_ok ?a \<and> extends (Orders a) (Orders ?a)"
    using update_effect [OF Cons.prems(1), of set_canceled "os_ClOrdID ord"] get
      set_canceled_step set_canceled_ok
    by (simp add: cancel_one_def)
  moreover from this Cons.IH [of ?a] step(2) Cons.prems(3)
  have "book_ok (cancel_loop L reason xs ?a) \<and> extends (Orders ?a) (Orders (cancel_loop L reason xs ?a))"
    by simp
  ultimately show ?case using step(1) extends_trans by auto
qed simp

lemma present_OpenDayOrders:
  assumes "book_inv (app_book a)"
  shows "present (OpenDayOrders (app_book a)) a"
  using book_distinct_ids [OF assms] log_get_iff [OF book_distinct_ids [OF assms]]
  by (auto simp: present_def OpenDayOrders_log book_Get [OF assms] distinct_map_filter)

lemma CancelAllOpenDay_effect:
  assumes "book_ok a"
  shows "book_ok (snd (CancelAllOpenDay L reason a)) \<and>
         extends (Orders a) (Orders (snd (CancelAllOpenDay L reason a)))"
proof -
  have "present (OpenDayOrders (app_book a)) a"
    using assms by (intro present_OpenDayOrders) (simp add: book_ok_def)
  moreover have "\<forall>ord \<in> set (OpenDayOrders (app_book a)). IsOpen ord"
    by (auto simp: OpenDayOrders_log)
  ultimately show ?thesis
    using cancel_loop_effect [OF assms, of _ L reason] by (simp add: CancelAllOpenDay_def Let_def)
qed

text \<open>What cancelling does to the orders, and the reports it sends: one per order, in order.\<close>

lemma cancel_loop_Orders:
  assumes "book_inv (app_book a)" "present xs a"
  shows "Orders (cancel_loop L reason xs a) =
    map (\<lambda>ord. if ord \<in> set xs then ord\<lparr>os_Status := StatusCanceled\<rparr> else ord) (Orders a)"
  using assms
proof (induction xs arbitrary: a)
  case (Cons ord xs)
  note step = cancel_loop_step [OF Cons.prems, of L reason]
  have here: "ord \<in> set (Orders a)" "log_get (os_ClOrdID ord) (Orders a) = Some ord"
    using Cons.prems by (auto simp: present_def Orders_def book_Get dest: log_get_Some)
  have notin: "ord\<lparr>os_Status := StatusCanceled\<rparr> \<notin> set xs"
    using Cons.prems(2) by (force simp: present_def)
  have same: "x = ord \<longleftrightarrow> os_ClOrdID x = os_ClOrdID ord" if "x \<in> set (Orders a)" for x
    using that here(1) log_unique [OF book_distinct_ids [OF Cons.prems(1)]]
    by (auto simp: Orders_def)
  show ?case
    using step(1,3) Cons.IH [OF step(4,2)] same notin by (auto simp: log_set_def)
qed simp

fun cancel_reports :: "lib \<Rightarrow> string \<Rightarrow> int \<Rightarrow> nat \<Rightarrow> OrderState list \<Rightarrow> message list" where
  "cancel_reports L reason now n [] = []"
| "cancel_reports L reason now n (ord # xs) =
     buildExecutionReport L now ((mk_report (ord\<lparr>os_Status := StatusCanceled\<rparr>) ExecTypeCanceled)
       \<lparr>rp_text := reason, rp_restatement := RestatementCancelOnDisconnect,
        rp_execID := ''EXE'' @ fmt06 (Suc n)\<rparr>)
     # cancel_reports L reason now (Suc n) xs"

lemma cancel_one_frame [simp]:
  "app_kinds (cancel_one L reason ord a) = app_kinds a"
  "app_silenced (cancel_one L reason ord a) = app_silenced a"
  "app_now (cancel_one L reason ord a) = app_now a"
  "app_loggedOn (cancel_one L reason ord a) = app_loggedOn a"
  "app_cod (cancel_one L reason ord a) = app_cod a"
  "app_timers (cancel_one L reason ord a) = app_timers a"
  "app_expect (cancel_one L reason ord a) = app_expect a"
  "app_rejectLogons (cancel_one L reason ord a) = app_rejectLogons a"
  "app_seqnums (cancel_one L reason ord a) = app_seqnums a"
  "sessionOf n k (cancel_one L reason ord a) = sessionOf n k a"
  "sole k (cancel_one L reason ord a) sid = sole k a sid"
  "bk_execSeq (app_book (cancel_one L reason ord a)) = Suc (bk_execSeq (app_book a))"
  by (simp_all add: cancel_one_def exec_ids.draw_count)

lemma sessionOf_distinct:
  assumes "distinct (map fst (app_kinds a))"
    and "sessionOf n KindOrderEntry a = Some s" "sessionOf m KindDropCopy a = Some t"
  shows "s \<noteq> t"
  using assms(1) sessionOf_in [OF assms(2)] sessionOf_in [OF assms(3)]
  by (auto simp: venue_consts dest: eq_key_imp_eq_value)

lemma sole_distinct:
  assumes "distinct (map fst (app_kinds a))" "sole KindOrderEntry a s" "sole KindDropCopy a t"
  shows "s \<noteq> t"
  using sessionOf_distinct [OF assms(1)] assms(2,3) sole_sessionOf by blast

text \<open>A session that is alone in its role is sent every report once.\<close>

lemma messages_to_publish_sole:
  assumes "distinct (map fst (app_kinds a))" "sole KindOrderEntry a sid \<or> sole KindDropCopy a sid"
  shows "messages_to sid (publish L r a) =
    messages_to sid a @ (if app_silenced a then [] else [next_message L r a])"
  using assms(2) sessionOf_distinct [OF assms(1), of _ sid _ sid]
  by (auto simp: messages_to_publish)

lemma cancel_loop_messages:
  assumes "book_inv (app_book a)" "present xs a" "\<not> app_silenced a"
    and "distinct (map fst (app_kinds a))"
    and "sole KindOrderEntry a sid \<or> sole KindDropCopy a sid"
  shows "messages_to sid (cancel_loop L reason xs a) =
    messages_to sid a @ cancel_reports L reason (app_now a) (bk_execSeq (app_book a)) xs"
  using assms
proof (induction xs arbitrary: a)
  case (Cons ord xs)
  note step = cancel_loop_step [OF Cons.prems(1,2), of L reason]
  have one: "messages_to sid (cancel_one L reason ord a) =
    messages_to sid a @ cancel_reports L reason (app_now a) (bk_execSeq (app_book a)) [ord]"
    using Cons.prems(3-5)
    by (simp add: cancel_one_def messages_to_publish_sole next_message_def exec_ids.draw_id)
  show ?case
    using Cons.IH [OF step(4,2)] Cons.prems(3-5) step(1) one by simp
qed simp

subsection \<open>What was sent\<close>

abbreviation exec_name :: "nat \<Rightarrow> string" where
  "exec_name n \<equiv> ''EXE'' @ fmt06 n"

text \<open>
  Each session has its own key; the ExecIDs a session was sent were drawn from the counter
  and none twice; an order-entry and a drop-copy session that are alone in their roles were sent
  the same reports.
\<close>

definition sent_ok :: "App \<Rightarrow> bool" where
  "sent_ok a \<longleftrightarrow>
     distinct (map fst (app_kinds a)) \<and>
     (\<forall>sid. drawn_log exec_name (bk_execSeq (app_book a)) (map exec_id (messages_to sid a))) \<and>
     (\<forall>oe dc. sole KindOrderEntry a oe \<longrightarrow> sole KindDropCopy a dc \<longrightarrow>
        messages_to oe a = messages_to dc a)"

lemma sent_ok_book:
  "bk_execSeq b = bk_execSeq (app_book a) \<Longrightarrow> sent_ok (a\<lparr>app_book := b\<rparr>) = sent_ok a"
  by (simp add: sent_ok_def)

lemma sent_ok_publish:
  assumes "sent_ok a"
  shows "sent_ok (publish L r a)"
proof -
  have "drawn_log exec_name (bk_execSeq (app_book (publish L r a)))
          (map exec_id (messages_to sid (publish L r a)))" for sid
  proof -
    let ?ids = "map exec_id (messages_to sid a)"
    have "drawn_log exec_name (bk_execSeq (app_book a)) ?ids" using assms by (simp add: sent_ok_def)
    note exec_ids.drawn_log_draw [OF this] drawn_log_mono [OF this, of "Suc (bk_execSeq (app_book a))"]
    moreover have "\<not> (picked L KindOrderEntry a = Some sid \<and> picked L KindDropCopy a = Some sid)"
      using sessionOf_distinct [of a _ sid _ sid] assms by (auto simp: sent_ok_def)
    ultimately show ?thesis by (auto simp: messages_to_publish exec_ids.draw_count)
  qed
  moreover have "messages_to oe (publish L r a) = messages_to dc (publish L r a)"
    if "sole KindOrderEntry a oe" "sole KindDropCopy a dc" for oe dc
    using that assms by (simp add: messages_to_publish_sole sent_ok_def)
  ultimately show ?thesis using assms by (simp add: sent_ok_def)
qed

lemma sent_ok_cancel_loop: "sent_ok a \<Longrightarrow> sent_ok (cancel_loop L reason xs a)"
proof (induction xs arbitrary: a)
  case (Cons ord xs)
  obtain r b where u: "Update (os_ClOrdID ord) set_canceled (app_book a) = (r, b)" by force
  have "bk_execSeq b = bk_execSeq (app_book a)"
    using execSeq_frame(2) [of "os_ClOrdID ord" set_canceled "app_book a"] u by simp
  with Cons u show ?case
    by (cases r) (simp_all add: sent_ok_book sent_ok_publish)
qed simp

lemma sent_ok_Update:
  "Update i fn (app_book a) = (r, b) \<Longrightarrow> sent_ok (a\<lparr>app_book := b\<rparr>) = sent_ok a"
  using execSeq_frame(2) [of i fn "app_book a"] by (simp add: sent_ok_book)

lemma sent_ok_insert_new:
  "insert_new ord (app_book a) = (r, b) \<Longrightarrow> sent_ok (a\<lparr>app_book := b\<rparr>) = sent_ok a"
  using execSeq_frame(1) [of ord "app_book a"] by (simp add: sent_ok_book)

lemma sent_ok_commands:
  assumes "sent_ok a"
  shows "sent_ok (snd (Partial L i q p a))" "sent_ok (snd (Fill L i p a))"
    "sent_ok (snd (Cancel L i t a))" "sent_ok (snd (Reject L i t a))"
    "sent_ok (snd (CancelAllOpenDay L t a))" "sent_ok (snd (onNewOrderSingle L msg sid a))"
proof -
  show partial: "sent_ok (snd (Partial L i q p a))" for q
    using assms by (auto simp: Partial_def sent_ok_publish sent_ok_Update split: prod.split sum.split)
  show "sent_ok (snd (Fill L i p a))"
    using assms partial by (simp add: Fill_def split: option.split)
  show "sent_ok (snd (Cancel L i t a))" "sent_ok (snd (Reject L i t a))"
    using assms
    by (auto simp: Cancel_def Reject_def sent_ok_publish sent_ok_Update split: prod.split sum.split)
  show "sent_ok (snd (CancelAllOpenDay L t a))"
    using assms by (simp add: CancelAllOpenDay_def sent_ok_cancel_loop Let_def)
  show "sent_ok (snd (onNewOrderSingle L msg sid a))"
    using assms
    by (auto simp: onNewOrderSingle_eq sent_ok_publish sent_ok_insert_new
        split: sum.split prod.split option.split)
qed

end
