(* ===== verification/VenueStep.thy ===== *)
theory VenueStep
  imports VenueInv
begin

text \<open>
  The venue as a state machine: every way into the exchange application (the engine's
  callbacks, the admin commands, a timer, the clock) is an event, \<open>handle\<close> is its handler
  and \<open>venue_run\<close> a sequence of them. A handler is one step: what happens when the parts of
  two handlers interleave is in \<open>Races\<close>. Reachable states start from a venue that has loaded
  its settings.
\<close>

datatype event =
    Tick int
  | EvLogon SessionID
  | EvLogout SessionID
  | EvToAdmin message SessionID
  | EvToApp message SessionID
  | EvFromAdmin message SessionID
  | EvFromApp message SessionID
  | EvFill string rat
  | EvPartial string rat rat
  | EvCancel string string
  | EvReject string string
  | EvCancelAll string
  | EvSilence bool
  | EvRejectLogons string
  | EvExpire nat

text \<open>A timer runs the callback once: it leaves the list and \<open>cod_expire\<close> runs.\<close>

definition run_timer :: "lib \<Rightarrow> nat \<Rightarrow> App \<Rightarrow> App" where
  "run_timer L k a =
     (let tm = app_timers a ! k
      in cod_expire L (tm_session tm)
           (a\<lparr>app_timers := take k (app_timers a) @ drop (Suc k) (app_timers a)\<rparr>))"

fun enabled :: "event \<Rightarrow> App \<Rightarrow> bool" where
  "enabled (Tick d) a = (0 \<le> d)"
| "enabled (EvExpire k) a =
     (k < length (app_timers a) \<and> tm_deadline (app_timers a ! k) \<le> app_now a)"
| "enabled _ a = True"

fun handle :: "lib \<Rightarrow> event \<Rightarrow> App \<Rightarrow> App" where
  "handle L (Tick d) a = a\<lparr>app_now := app_now a + d\<rparr>"
| "handle L (EvLogon sid) a = OnLogon sid a"
| "handle L (EvLogout sid) a = OnLogout sid a"
| "handle L (EvToAdmin msg sid) a = ToAdmin L msg sid a"
| "handle L (EvToApp msg sid) a = ToApp L msg sid a"
| "handle L (EvFromAdmin msg sid) a = snd (FromAdmin L msg sid a)"
| "handle L (EvFromApp msg sid) a = snd (FromApp L msg sid a)"
| "handle L (EvFill i p) a = snd (Fill L i p a)"
| "handle L (EvPartial i q p) a = snd (Partial L i q p a)"
| "handle L (EvCancel i t) a = snd (Cancel L i t a)"
| "handle L (EvReject i t) a = snd (Reject L i t a)"
| "handle L (EvCancelAll t) a = snd (CancelAllOpenDay L t a)"
| "handle L (EvSilence v) a = SetSilenced v a"
| "handle L (EvRejectLogons t) a = SetRejectLogons t a"
| "handle L (EvExpire k) a = run_timer L k a"

inductive venue_run :: "lib \<Rightarrow> App \<Rightarrow> event list \<Rightarrow> App \<Rightarrow> bool" for L where
  run_Nil: "venue_run L a [] a"
| run_Cons: "enabled e a \<Longrightarrow> venue_run L (handle L e a) es a' \<Longrightarrow> venue_run L a (e # es) a'"

inductive_cases run_NilE: "venue_run L a [] a'"
inductive_cases run_ConsE: "venue_run L a (e # es) a'"

inductive_simps run_simps [simp]: "venue_run L a [] a'" "venue_run L a (e # es) a'"

text \<open>A venue that started: its settings loaded without an error.\<close>

definition started :: "App \<Rightarrow> bool" where
  "started a \<longleftrightarrow> (\<exists>getenv settings. LoadKinds getenv settings (New NewBook) = (None, a))"

definition reachable :: "lib \<Rightarrow> App \<Rightarrow> bool" where
  "reachable L a \<longleftrightarrow> (\<exists>a0 es. started a0 \<and> venue_run L a0 es a)"

lemma venue_run_append:
  "venue_run L a es b \<Longrightarrow> venue_run L b fs c \<Longrightarrow> venue_run L a (es @ fs) c"
  by (induction rule: venue_run.induct) auto

lemma started_reachable: "started a \<Longrightarrow> reachable L a"
  unfolding reachable_def using run_Nil by blast

lemma reachable_run: "reachable L a \<Longrightarrow> venue_run L a es a' \<Longrightarrow> reachable L a'"
  unfolding reachable_def by (blast intro: venue_run_append)

subsection \<open>Frames of the remaining handlers\<close>

lemma note_frame [frame]:
  "app_book (noteSent L msg sid a) = app_book a" "app_book (noteReceived L msg sid a) = app_book a"
  "app_kinds (noteSent L msg sid a) = app_kinds a" "app_kinds (noteReceived L msg sid a) = app_kinds a"
  "app_outbox (noteSent L msg sid a) = app_outbox a" "app_outbox (noteReceived L msg sid a) = app_outbox a"
  "app_loggedOn (noteSent L msg sid a) = app_loggedOn a"
  "app_loggedOn (noteReceived L msg sid a) = app_loggedOn a"
  "app_timers (noteSent L msg sid a) = app_timers a" "app_timers (noteReceived L msg sid a) = app_timers a"
  "app_cod (noteSent L msg sid a) = app_cod a" "app_cod (noteReceived L msg sid a) = app_cod a"
  "app_expect (noteReceived L msg sid a) = app_expect a"
  "app_rejectLogons (noteReceived L msg sid a) = app_rejectLogons a"
  "app_silenced (noteReceived L msg sid a) = app_silenced a"
  "app_now (noteReceived L msg sid a) = app_now a"
  by (simp_all add: noteSent_def noteReceived_def split: sum.split)

lemma callback_frame [frame]:
  "app_book (OnLogon sid a) = app_book a" "app_book (OnLogout sid a) = app_book a"
  "app_kinds (OnLogon sid a) = app_kinds a" "app_kinds (OnLogout sid a) = app_kinds a"
  "app_outbox (OnLogon sid a) = app_outbox a" "app_outbox (OnLogout sid a) = app_outbox a"
  "app_now (OnLogon sid a) = app_now a" "app_now (OnLogout sid a) = app_now a"
  "app_cod (OnLogon sid a) = app_cod a" "app_cod (OnLogout sid a) = app_cod a"
  "app_silenced (OnLogon sid a) = app_silenced a" "app_silenced (OnLogout sid a) = app_silenced a"
  "app_book (ToAdmin L msg sid a) = app_book a" "app_book (ToApp L msg sid a) = app_book a"
  "app_kinds (ToAdmin L msg sid a) = app_kinds a" "app_kinds (ToApp L msg sid a) = app_kinds a"
  "app_outbox (ToAdmin L msg sid a) = app_outbox a" "app_outbox (ToApp L msg sid a) = app_outbox a"
  by (simp_all add: OnLogon_def OnLogout_def onSessionLost_def ToAdmin_def ToApp_def note_frame Let_def
      split: option.split)

lemma FromAdmin_frame [frame]:
  "app_book (snd (FromAdmin L msg sid a)) = app_book a"
  "app_kinds (snd (FromAdmin L msg sid a)) = app_kinds a"
  "app_outbox (snd (FromAdmin L msg sid a)) = app_outbox a"
  "app_loggedOn (snd (FromAdmin L msg sid a)) = app_loggedOn a"
  "app_timers (snd (FromAdmin L msg sid a)) = app_timers a"
  by (simp_all add: FromAdmin_def note_frame Let_def split: sum.split option.split)

lemma book_ok_cong: "app_book a' = app_book a \<Longrightarrow> book_ok a' = book_ok a"
  by (simp add: book_ok_def Orders_def)

lemma sent_ok_cong:
  "app_book a' = app_book a \<Longrightarrow> app_kinds a' = app_kinds a \<Longrightarrow> app_outbox a' = app_outbox a \<Longrightarrow>
     sent_ok a' = sent_ok a"
  by (simp add: sent_ok_def messages_to_def sole_def)

subsection \<open>The invariant\<close>

definition venue_inv :: "App \<Rightarrow> bool" where
  "venue_inv a \<longleftrightarrow> book_ok a \<and> sent_ok a"

lemma venue_inv_frame:
  assumes "app_book a' = app_book a" "app_kinds a' = app_kinds a" "app_outbox a' = app_outbox a"
  shows "venue_inv a' = venue_inv a" and "Orders a' = Orders a"
  using book_ok_cong [OF assms(1)] sent_ok_cong [OF assms] assms(1)
  by (simp_all add: venue_inv_def Orders_def)

lemma FromApp_cases:
  "snd (FromApp L msg sid a) = noteReceived L msg sid a \<or>
   snd (FromApp L msg sid a) = snd (onNewOrderSingle L msg sid (noteReceived L msg sid a))"
  by (auto simp: FromApp_def Let_def split: sum.split)

text \<open>Every handler keeps the invariant and moves the orders forward.\<close>

lemma handle_good:
  assumes "venue_inv a"
  shows "venue_inv (handle L e a) \<and> extends (Orders a) (Orders (handle L e a))"
proof -
  have book: "book_ok a" and sent: "sent_ok a" using assms by (simp_all add: venue_inv_def)
  have cancel: "venue_inv (snd (CancelAllOpenDay L t b)) \<and>
      extends (Orders b) (Orders (snd (CancelAllOpenDay L t b)))" if "venue_inv b" for t b
    using that CancelAllOpenDay_effect sent_ok_commands(5) by (simp add: venue_inv_def)
  show ?thesis
  proof (cases e)
    case (EvFromApp msg sid)
    let ?a = "noteReceived L msg sid a"
    have a: "venue_inv ?a" "Orders ?a = Orders a"
      using venue_inv_frame [of ?a a] assms by (simp_all add: note_frame)
    then show ?thesis
      using EvFromApp FromApp_cases [of L msg sid a] onNewOrderSingle_effect [of ?a L msg sid]
        sent_ok_commands(6) [of ?a L msg sid]
      by (auto simp: venue_inv_def)
  next
    case (EvFill i p)
    then show ?thesis
      using Fill_effect [OF book] sent_ok_commands(2) [OF sent] by (simp add: venue_inv_def)
  next
    case (EvPartial i q p)
    then show ?thesis
      using Partial_effect [OF book] sent_ok_commands(1) [OF sent] by (simp add: venue_inv_def)
  next
    case (EvCancel i t)
    then show ?thesis
      using Cancel_effect [OF book] sent_ok_commands(3) [OF sent] by (simp add: venue_inv_def)
  next
    case (EvReject i t)
    then show ?thesis
      using Reject_effect [OF book] sent_ok_commands(4) [OF sent] by (simp add: venue_inv_def)
  next
    case (EvCancelAll t)
    then show ?thesis using cancel [OF assms] by simp
  next
    case (EvExpire k)
    let ?a = "a\<lparr>app_timers := take k (app_timers a) @ drop (Suc k) (app_timers a)\<rparr>"
    have "venue_inv ?a" "Orders ?a = Orders a" using venue_inv_frame [of ?a a] assms by simp_all
    then show ?thesis
      using EvExpire cancel [of ?a] by (simp add: run_timer_def cod_expire_def Let_def)
  qed (use venue_inv_frame [of "handle L e a" a] assms in
       \<open>simp_all add: frame SetSilenced_def SetRejectLogons_def\<close>)
qed

lemma register_frame [frame]:
  "app_book (capture_password getenv sid (RegisterKind sid k a)) = app_book a"
  "app_outbox (capture_password getenv sid (RegisterKind sid k a)) = app_outbox a"
  "app_kinds (capture_password getenv sid (RegisterKind sid k a)) = AList.update sid k (app_kinds a)"
  by (simp_all add: capture_password_def RegisterKind_def split: sum.split)

lemma LoadKinds_frame:
  "LoadKinds getenv settings a = (r, a') \<Longrightarrow>
     app_book a' = app_book a \<and> app_outbox a' = app_outbox a \<and>
     (distinct (map fst (app_kinds a)) \<longrightarrow> distinct (map fst (app_kinds a')))"
proof (induction getenv settings a rule: LoadKinds.induct)
  case (2 getenv sid s rest a)
  show ?case
  proof (cases "s SettingKind")
    case None
    then show ?thesis using "2.prems" by simp
  next
    case (Some raw)
    show ?thesis
    proof (cases "ToUpper (TrimSpace raw) \<noteq> KindOrderEntry \<and> ToUpper (TrimSpace raw) \<noteq> KindDropCopy")
      case True
      then show ?thesis using "2.prems" Some by simp
    next
      case False
      have "LoadKinds getenv rest
          (capture_password getenv sid (RegisterKind sid (ToUpper (TrimSpace raw)) a)) = (r, a')"
        using "2.prems" Some False by (simp add: Let_def del: de_Morgan_conj)
      from "2.IH" [OF Some refl False this] show ?thesis
        by (simp add: frame distinct_update)
    qed
  qed
qed simp

lemma started_inv: "started a \<Longrightarrow> venue_inv a"
proof -
  assume "started a"
  then obtain getenv settings where "LoadKinds getenv settings (New NewBook) = (None, a)"
    by (auto simp: started_def)
  from LoadKinds_frame [OF this] have "app_book a = NewBook" "app_outbox a = []"
      "distinct (map fst (app_kinds a))"
    by (simp_all add: New_def)
  moreover have "All_orders NewBook = []" by (simp add: All_orders_def NewBook_def)
  ultimately show ?thesis
    by (simp add: venue_inv_def book_ok_def sent_ok_def Orders_def messages_to_def book_inv_NewBook)
qed

lemma run_good:
  "venue_run L a es a' \<Longrightarrow> venue_inv a \<Longrightarrow> venue_inv a' \<and> extends (Orders a) (Orders a')"
proof (induction rule: venue_run.induct)
  case (run_Cons e a es a')
  then show ?case using handle_good [of a L e] extends_trans by blast
qed simp

lemma reachable_inv: "reachable L a \<Longrightarrow> venue_inv a"
  unfolding reachable_def using run_good started_inv by blast

lemma venue_inv_book: "venue_inv a \<Longrightarrow> book_inv (app_book a)"
  by (simp add: venue_inv_def book_ok_def)

lemma run_Get:
  assumes "venue_run L a es a'" "venue_inv a" "Get i (app_book a) = Some ord"
  shows "\<exists>ord'. Get i (app_book a') = Some ord' \<and> order_step ord ord' \<and> order_ok ord'"
proof -
  have inv': "venue_inv a'" and ext: "extends (Orders a) (Orders a')"
    using run_good [OF assms(1,2)] by auto
  have "ord \<in> set (Orders a)" "os_ClOrdID ord = i"
    using assms(3) by (auto simp: Orders_def book_Get [OF venue_inv_book [OF assms(2)]] dest: log_get_Some)
  then obtain ord' where ord': "ord' \<in> set (Orders a')" "order_step ord ord'"
    using extends_mem [OF ext] by blast
  moreover have "os_ClOrdID ord' = i"
    using ord'(2) \<open>os_ClOrdID ord = i\<close> by (simp add: order_step_def same_terms_def)
  ultimately show ?thesis
    using inv' log_get_iff [OF book_distinct_ids [OF venue_inv_book [OF inv']]]
    by (auto simp: book_Get [OF venue_inv_book [OF inv']] Orders_def venue_inv_def book_ok_def)
qed

end
