(* ===== verification/Demo.thy ===== *)
theory Demo
  imports VenueStep
begin

text \<open>
  A concrete instance of everything the model is parametrised by, for the witnesses: a
  library (decimal fields written as a scaled integer and its scale, exact division), an
  environment, two configured sessions and some messages. The hypotheses about the library
  hold of it.
\<close>

definition read_signed :: "string \<Rightarrow> int" where
  "read_signed s = (case s of c # cs \<Rightarrow> if c = CHR ''-'' then - dval cs else dval s | [] \<Rightarrow> 0)"

definition demo_showDec :: "nat \<Rightarrow> rat \<Rightarrow> string" where
  "demo_showDec s v = itoa_int \<lfloor>v * 10 ^ s\<rfloor> @ CHR ''E'' # itoa s"

definition demo_readDec :: "string \<Rightarrow> rat option" where
  "demo_readDec str =
     (let k = IndexByte str (CHR ''E'')
      in if k < 0 then None
         else Some (of_int (read_signed (take (nat k) str)) / 10 ^ nat (dval (drop (nat k + 1) str))))"

definition demo_lib :: lib where
  "demo_lib =
     \<lparr>lib_readInt = Atoi,
      lib_readBool = (\<lambda>s. if s = ''Y'' then Some True else if s = ''N'' then Some False else None),
      lib_readDec = demo_readDec,
      lib_showInt = itoa_int,
      lib_showDec = demo_showDec,
      lib_showTime = itoa_int,
      lib_parseDec = (\<lambda>s. map_option of_int (Atoi s)),
      lib_div = (\<lambda>x y. x / y),
      lib_idString = (\<lambda>i. ''FIX.4.4:'' @ SenderCompID i @ ''->'' @ TargetCompID i),
      lib_range = (\<lambda>call kind. 0)\<rparr>"

lemma demo_int_roundtrip: "int_roundtrip demo_lib"
  by (simp add: int_roundtrip_def demo_lib_def Atoi_itoa)

lemma demo_div_close: "div_close demo_lib"
  by (simp add: div_close_def demo_lib_def)

lemma read_signed_itoa: "read_signed (itoa_int n) = n"
proof (cases "n < 0")
  case True
  then show ?thesis by (simp add: read_signed_def itoa_int_def dval_itoa)
next
  case False
  have "hd (itoa (nat n)) \<noteq> CHR ''-''" using is_digit_not_sign [OF itoa_hd] by blast
  then show ?thesis
    using False dval_itoa [of "nat n"]
    by (cases "itoa (nat n)") (auto simp: read_signed_def itoa_int_def)
qed

lemma itoa_no_E: "CHR ''E'' \<notin> set (itoa_int n)"
  by (auto simp: itoa_int_def is_digit_def dest!: itoa_digits)

lemma demo_dec_reads: "dec_reads demo_lib"
proof -
  have "CHR ''E'' \<in> set (demo_showDec s v)" for s v by (simp add: demo_showDec_def)
  then have "\<not> IndexByte (demo_showDec s v) (CHR ''E'') < 0" for s v by (simp add: IndexByte_neg_iff)
  then show ?thesis by (simp add: dec_reads_def demo_lib_def demo_readDec_def Let_def)
qed

lemma demo_dec_roundtrip: "dec_roundtrip demo_lib"
proof -
  have "demo_readDec (demo_showDec s v) = Some v" if "has_scale s v" for s v
  proof -
    from that obtain m where m: "v * 10 ^ s = of_int m" by (auto simp: has_scale_def elim: Ints_cases)
    then have "demo_readDec (demo_showDec s v) = Some (of_int m / 10 ^ s)"
      using IndexByte_append [OF itoa_no_E, of m "itoa s"]
      by (simp add: demo_readDec_def demo_showDec_def read_signed_itoa dval_itoa Let_def nat_add_distrib)
    also have "of_int m / 10 ^ s = v" by (simp flip: m)
    finally show ?thesis .
  qed
  then show ?thesis by (simp add: dec_roundtrip_def demo_lib_def)
qed

subsection \<open>A configured venue\<close>

definition demo_oe :: SessionID where
  "demo_oe = \<lparr>SenderCompID = ''FIXLABEX'', TargetCompID = ''OECLIENT'', SessionRest = ''FIX.4.4''\<rparr>"

definition demo_dc :: SessionID where
  "demo_dc = \<lparr>SenderCompID = ''FIXLABEX'', TargetCompID = ''DCCLIENT'', SessionRest = ''FIX.4.4''\<rparr>"

definition demo_client :: SessionID where
  "demo_client = \<lparr>SenderCompID = ''OECLIENT'', TargetCompID = ''FIXLABEX'', SessionRest = ''FIX.4.4''\<rparr>"

definition demo_creds :: LogonCredentials where
  "demo_creds = \<lparr>lc_AppID = ''app'', lc_CODType = 1, lc_CODTimeoutWindow = 5000\<rparr>"

definition demo_env :: environment where
  "demo_env v = (if v = ''FIXLAB_OECLIENT_PASSWORD'' then ''oe-secret'' else [])"

definition demo_settings :: "(SessionID \<times> (string \<rightharpoonup> string)) list" where
  "demo_settings = [(demo_oe, [''SessionKind'' \<mapsto> ''ORDER_ENTRY'']), (demo_dc, [''SessionKind'' \<mapsto> '' drop_copy''])]"

definition demo_start :: App where
  "demo_start = (New NewBook)\<lparr>app_kinds := [(demo_oe, KindOrderEntry), (demo_dc, KindDropCopy)],
     app_expect := [''OECLIENT'' \<mapsto> ''oe-secret'']\<rparr>"

lemma demo_loaded: "LoadKinds demo_env demo_settings (New NewBook) = (None, demo_start)"
  by (simp add: demo_settings_def demo_start_def demo_env_def demo_oe_def demo_dc_def
        venue_consts TrimSpace_def is_space_def ToUpperChar_def New_def RegisterKind_def
        capture_password_def Password_def PasswordEnvVar_def Let_def char_of_def)

lemma demo_started: "started demo_start"
  using demo_loaded by (auto simp: started_def)

definition demo_order :: "string \<Rightarrow> string \<Rightarrow> message" where
  "demo_order i tif =
     \<lparr>msg_header = [tagMsgType \<mapsto> ''D'', tagMsgSeqNum \<mapsto> ''2''],
      msg_body = [tagClOrdID \<mapsto> i, tagSymbol \<mapsto> ''PETR4'', tagSide \<mapsto> ''1'',
                  tagOrderQty \<mapsto> ''100E0'', tagOrdType \<mapsto> ''2'', tagPrice \<mapsto> ''2550E2'',
                  tagTimeInForce \<mapsto> tif]\<rparr>"

definition demo_logon :: message where
  "demo_logon =
     \<lparr>msg_header = [tagMsgType \<mapsto> ''A'', tagMsgSeqNum \<mapsto> ''1''],
      msg_body = [tagRawData \<mapsto> ''oe-secret'', TagCODType \<mapsto> ''3'', TagCODTimeoutWindow \<mapsto> ''5000'']\<rparr>"

text \<open>Running a list of events that are all enabled.\<close>

fun all_enabled :: "lib \<Rightarrow> event list \<Rightarrow> App \<Rightarrow> bool" where
  "all_enabled L [] a = True"
| "all_enabled L (e # es) a = (enabled e a \<and> all_enabled L es (handle L e a))"

definition run_events :: "lib \<Rightarrow> event list \<Rightarrow> App \<Rightarrow> App" where
  "run_events L es a = fold (handle L) es a"

lemma venue_run_events: "all_enabled L es a \<Longrightarrow> venue_run L a es (run_events L es a)"
  by (induction es arbitrary: a) (simp_all add: run_events_def)

lemma demo_reachable:
  "all_enabled L es demo_start \<Longrightarrow> reachable L (run_events L es demo_start)"
  unfolding reachable_def using demo_started venue_run_events by blast

lemma demo_start_reachable: "reachable demo_lib demo_start"
  using demo_reachable [of demo_lib "[]"] by (simp add: run_events_def)

lemma demo_roles:
  assumes "app_kinds a = app_kinds demo_start"
  shows "sole KindOrderEntry a demo_oe" "sole KindDropCopy a demo_dc"
  using assms by (auto simp: sole_def demo_start_def venue_consts)

text \<open>What a closed run unfolds.\<close>

lemmas demo_eval =
  run_events_def demo_start_def New_def NewBook_def demo_oe_def demo_dc_def demo_lib_def
  demo_order_def FromApp_def noteReceived_def getter_defs tag_defs kindOf_def
  onNewOrderSingle_def build_order_def alloc_def Insert_def deref_def store_def Let_def
  publish_def NextExecID_def sessionOf_def send_def mk_report_def Partial_def Fill_def Update_def
  apply_fill_def Get_def Orders_def All_orders_def LeavesQty_def IsOpen_def venue_consts
  demo_readDec_def read_signed_def dval_def Atoi_def is_digit_def
  demo_logon_def FromAdmin_def ParseLogon_def checkPassword_def OnLogon_def

end
