(* ===== verification/VenueProps.thy ===== *)
theory VenueProps
  imports Demo
begin

text \<open>
  The properties of the venue (\<open>internal/exchange\<close>): the life of an order, fills and their
  average price, new orders, the fan-out and its ExecIDs, cancel on disconnect, logons, roles
  and sequence numbers.
\<close>

subsection \<open>Commands on one order\<close>

text \<open>The result of an update in terms of the order the callback sees.\<close>

lemma Update_fst:
  "fst (Update i fn b) =
    (case Get i b of
       None \<Rightarrow> Inl (UnknownClOrdID i)
     | Some ord \<Rightarrow> (case fst (fn ord) of Some e \<Rightarrow> Inl e | None \<Rightarrow> Inr (snd (fn ord))))"
  by (simp add: Update_def Get_def split: prod.split option.split)

lemma Update_None: "Get i b = None \<Longrightarrow> Update i fn b = (Inl (UnknownClOrdID i), b)"
  by (simp add: Update_def Get_def split: option.splits)

lemma Partial_unfold:
  "Partial L i q p a =
    (if q \<le> 0 then (Some (QtyNotPositive q), a)
     else
       let u = Update i (apply_fill L i q p) (app_book a)
       in case fst u of
            Inl err \<Rightarrow> (Some err, a\<lparr>app_book := snd u\<rparr>)
          | Inr updated \<Rightarrow>
              (None, publish L ((mk_report updated ExecTypeTrade)\<lparr>rp_lastQty := q, rp_lastPx := p\<rparr>)
                       (a\<lparr>app_book := snd u\<rparr>)))"
  by (simp add: Partial_def case_prod_beta Let_def)

text \<open>A callback that answers an error without having written anything changes no order.\<close>

lemma Update_refused:
  assumes "book_inv (app_book a)" "Get i (app_book a) = Some ord" "snd (fn ord) = ord"
  shows "All_orders (snd (Update i fn (app_book a))) = Orders a"
proof -
  have "log_set i ord (Orders a) = Orders a"
  proof -
    have ord: "ord \<in> set (Orders a)" "os_ClOrdID ord = i"
      using assms(2) by (auto simp: Orders_def book_Get [OF assms(1)] dest: log_get_Some)
    then have "x = ord" if "x \<in> set (Orders a)" "os_ClOrdID x = i" for x
      using that log_unique [OF book_distinct_ids [OF assms(1)], of x ord] by (simp add: Orders_def)
    then show ?thesis by (simp add: log_set_def map_idI)
  qed
  then show ?thesis
    using book.update_Some(2) [OF assms(1,2), of fn] assms(3) by (simp add: Orders_def)
qed

definition partial_error :: "string \<Rightarrow> rat \<Rightarrow> OrderState option \<Rightarrow> venue_error option" where
  "partial_error i q r =
     (if q \<le> 0 then Some (QtyNotPositive q)
      else case r of None \<Rightarrow> Some (UnknownClOrdID i)
        | Some ord \<Rightarrow> if \<not> IsOpen ord then Some (CannotTrade i (os_Status ord))
                      else if LeavesQty ord < q then Some (ExceedsLeaves q (LeavesQty ord))
                      else None)"

definition filled :: "lib \<Rightarrow> rat \<Rightarrow> rat \<Rightarrow> OrderState \<Rightarrow> OrderState" where
  "filled L q p ord =
     ord\<lparr>os_CumQty := os_CumQty ord + q,
         os_AvgPx := lib_div L (os_AvgPx ord * os_CumQty ord + p * q) (os_CumQty ord + q),
         os_Status := if os_CumQty ord + q = os_OrderQty ord then StatusFilled
                      else StatusPartiallyFilled\<rparr>"

lemma apply_fill_ok:
  "IsOpen ord \<Longrightarrow> \<not> LeavesQty ord < q \<Longrightarrow> apply_fill L i q p ord = (None, filled L q p ord)"
  by (simp add: apply_fill_def filled_def Let_def)

lemma Partial_error: "fst (Partial L i q p a) = partial_error i q (Get i (app_book a))"
  by (simp add: Partial_unfold partial_error_def Update_fst apply_fill_def Let_def
      split: option.split)

lemma Partial_refused:
  assumes "book_inv (app_book a)" "fst (Partial L i q p a) \<noteq> None"
  shows "Orders (snd (Partial L i q p a)) = Orders a \<and> app_outbox (snd (Partial L i q p a)) = app_outbox a"
proof (cases "q \<le> 0")
  case False
  then have err: "partial_error i q (Get i (app_book a)) \<noteq> None"
    using assms Partial_error by simp
  show ?thesis
  proof (cases "Get i (app_book a)")
    case None
    then show ?thesis using False by (simp add: Partial_unfold Update_None Orders_def)
  next
    case (Some ord)
    obtain e where no: "apply_fill L i q p ord = (Some e, ord)"
      using err Some False by (auto simp: partial_error_def apply_fill_def split: if_splits)
    have "Orders (snd (Partial L i q p a)) = All_orders (snd (Update i (apply_fill L i q p) (app_book a)))"
      "app_outbox (snd (Partial L i q p a)) = app_outbox a"
      using False Some no by (simp_all add: Partial_unfold Update_fst Let_def)
    then show ?thesis using Update_refused [OF assms(1) Some, of "apply_fill L i q p"] no by simp
  qed
qed (simp add: Partial_def)

lemma Partial_done:
  assumes "book_inv (app_book a)" "fst (Partial L i q p a) = None"
  obtains ord where "Get i (app_book a) = Some ord" "0 < q" "IsOpen ord" "q \<le> LeavesQty ord"
    "Get i (app_book (snd (Partial L i q p a))) = Some (filled L q p ord)"
    "\<And>j. j \<noteq> i \<Longrightarrow> Get j (app_book (snd (Partial L i q p a))) = Get j (app_book a)"
    "snd (Partial L i q p a) =
       publish L ((mk_report (filled L q p ord) ExecTypeTrade)\<lparr>rp_lastQty := q, rp_lastPx := p\<rparr>)
         (a\<lparr>app_book := snd (Update i (apply_fill L i q p) (app_book a))\<rparr>)"
proof -
  let ?fn = "apply_fill L i q p"
  obtain ord where ord: "Get i (app_book a) = Some ord" "0 < q" "IsOpen ord" "\<not> LeavesQty ord < q"
    using assms(2) by (auto simp: Partial_error partial_error_def split: if_splits option.splits)
  note fill = apply_fill_ok [OF ord(3,4), of L i p]
  have eq: "snd (Partial L i q p a) =
       publish L ((mk_report (filled L q p ord) ExecTypeTrade)\<lparr>rp_lastQty := q, rp_lastPx := p\<rparr>)
         (a\<lparr>app_book := snd (Update i ?fn (app_book a))\<rparr>)"
    using ord(1,2) fill by (simp add: Partial_unfold Update_fst Let_def)
  show thesis
    using that [OF ord(1-3)] ord(4) eq fill
      book.get_update_same [OF assms(1) callbacks_keep_identity(1) ord(1)]
      book.get_update_other [OF assms(1) callbacks_keep_identity(1)]
    by (simp add: not_less)
qed

lemma Partial_inv: "book_inv (app_book a) \<Longrightarrow> book_inv (app_book (snd (Partial L i q p a)))"
  using book.inv_update [of "app_book a" "apply_fill L i q p" i]
  by (simp add: Partial_unfold Let_def split: sum.split)

subsection \<open>A series of fills\<close>

text \<open>Partial fills of one order, one after the other, as long as each succeeds.\<close>

fun partials :: "lib \<Rightarrow> string \<Rightarrow> (rat \<times> rat) list \<Rightarrow> App \<Rightarrow> App option" where
  "partials L i [] a = Some a"
| "partials L i ((q, p) # fs) a =
     (if fst (Partial L i q p a) = None then partials L i fs (snd (Partial L i q p a)) else None)"

definition volume :: "(rat \<times> rat) list \<Rightarrow> rat" where
  "volume fs = sum_list (map fst fs)"

definition notional :: "(rat \<times> rat) list \<Rightarrow> rat" where
  "notional fs = sum_list (map (\<lambda>(q, p). p * q) fs)"

lemma volume_simps [simp]: "volume [] = 0" "volume ((q, p) # fs) = q + volume fs"
  by (simp_all add: volume_def)

lemma notional_simps [simp]: "notional [] = 0" "notional ((q, p) # fs) = p * q + notional fs"
  by (simp_all add: notional_def)

text \<open>
  One fill's rounding: the average times the quantity is off by at most one more unit of
  rounding per share executed.
\<close>

lemma filled_notional:
  assumes "div_close L" "0 < q" "0 \<le> c"
    and "\<bar>p0 * c - n\<bar> \<le> k / 10 ^ 16 * c" "0 \<le> k"
  shows "\<bar>lib_div L (p0 * c + p * q) (c + q) * (c + q) - (n + p * q)\<bar> \<le> (k + 1) / 10 ^ 16 * (c + q)"
proof -
  let ?d = "lib_div L (p0 * c + p * q) (c + q)"
  let ?u = "1 / 10 ^ 16 :: rat"
  have pos: "0 < c + q" using assms by simp
  then have "\<bar>?d - (p0 * c + p * q) / (c + q)\<bar> \<le> ?u"
    using assms(1) unfolding div_close_def by (metis less_irrefl)
  then have "\<bar>?d - (p0 * c + p * q) / (c + q)\<bar> * (c + q) \<le> ?u * (c + q)"
    using pos by (intro mult_right_mono) auto
  moreover have "\<bar>?d - (p0 * c + p * q) / (c + q)\<bar> * (c + q) = \<bar>?d * (c + q) - (p0 * c + p * q)\<bar>"
  proof -
    have "(?d - (p0 * c + p * q) / (c + q)) * (c + q) = ?d * (c + q) - (p0 * c + p * q)"
      using pos by (simp add: left_diff_distrib)
    then show ?thesis using pos by (metis abs_mult abs_of_pos)
  qed
  ultimately have 1: "\<bar>?d * (c + q) - (p0 * c + p * q)\<bar> \<le> ?u * (c + q)" by simp
  have "k / 10 ^ 16 * c \<le> k / 10 ^ 16 * (c + q)"
    using assms by (intro mult_left_mono) auto
  then have 2: "\<bar>(p0 * c + p * q) - (n + p * q)\<bar> \<le> k / 10 ^ 16 * (c + q)"
    using assms(4) by simp
  have "(k + 1) / 10 ^ 16 * (c + q) = ?u * (c + q) + k / 10 ^ 16 * (c + q)"
    by (simp add: add_divide_distrib distrib_right)
  then show ?thesis using 1 2 by linarith
qed

lemma partials_notional:
  assumes "div_close L" "book_inv (app_book a)" "partials L i fs a = Some a'"
    and "Get i (app_book a) = Some ord" "0 \<le> os_CumQty ord" "0 \<le> k"
    and "\<bar>os_AvgPx ord * os_CumQty ord - n\<bar> \<le> k / 10 ^ 16 * os_CumQty ord"
  shows "\<exists>ord'. Get i (app_book a') = Some ord' \<and>
    os_CumQty ord' = os_CumQty ord + volume fs \<and> 0 \<le> os_CumQty ord' \<and>
    \<bar>os_AvgPx ord' * os_CumQty ord' - (n + notional fs)\<bar>
      \<le> (k + of_nat (length fs)) / 10 ^ 16 * os_CumQty ord'"
  using assms
proof (induction L i fs a arbitrary: ord n k rule: partials.induct)
  case (2 L i q p fs a)
  let ?a = "snd (Partial L i q p a)"
  have ok: "fst (Partial L i q p a) = None" "partials L i fs ?a = Some a'"
    using "2.prems"(3) by (auto split: if_splits)
  obtain ord0 where "Get i (app_book a) = Some ord0" and q: "0 < q"
    and next': "Get i (app_book ?a) = Some (filled L q p ord0)"
    using Partial_done [OF "2.prems"(2) ok(1)] by metis
  then have get: "Get i (app_book ?a) = Some (filled L q p ord)" using "2.prems"(4) by simp
  have err: "\<bar>os_AvgPx (filled L q p ord) * os_CumQty (filled L q p ord) - (n + p * q)\<bar>
      \<le> (k + 1) / 10 ^ 16 * os_CumQty (filled L q p ord)"
    using filled_notional [OF "2.prems"(1) q "2.prems"(5) "2.prems"(7,6)]
    by (simp add: filled_def)
  have c: "0 \<le> os_CumQty (filled L q p ord)" using "2.prems"(5) q by (simp add: filled_def)
  have k: "0 \<le> k + 1" using "2.prems"(6) by simp
  from "2.IH" [OF ok(1) "2.prems"(1) Partial_inv [OF "2.prems"(2)] ok(2) get c k err]
  show ?case by (simp add: filled_def algebra_simps)
qed auto

subsection \<open>Properties: orders\<close>

lemma open_leaves: "IsOpen ord \<Longrightarrow> LeavesQty ord = os_OrderQty ord - os_CumQty ord"
  by (simp add: LeavesQty_def)

lemma order_ok_open:
  "order_ok ord \<Longrightarrow> IsOpen ord \<Longrightarrow> 0 < os_OrderQty ord \<Longrightarrow> os_CumQty ord < os_OrderQty ord"
  by (auto simp: order_ok_def IsOpen_def venue_consts)

lemma venue_order_ok: "venue_inv a \<Longrightarrow> Get i (app_book a) = Some ord \<Longrightarrow> order_ok ord"
  using venue_inv_book
  by (fastforce simp: venue_inv_def book_ok_def Orders_def book_Get dest: log_get_Some)

text \<open>
  C1. The life of an order, over any sequence of events of a running venue: once in the book
  it stays there with the same terms and OrderID; its executed quantity never shrinks; its
  status always fits its quantities; and once it is filled, canceled or rejected nothing in it
  ever changes again.
\<close>

theorem order_history:
  assumes "reachable L a" "venue_run L a es a'" "Get i (app_book a) = Some ord"
  shows "\<exists>ord'. Get i (app_book a') = Some ord' \<and> same_terms ord ord' \<and> order_ok ord' \<and>
    os_CumQty ord \<le> os_CumQty ord' \<and> (\<not> IsOpen ord \<longrightarrow> ord' = ord)"
  using run_Get [OF assms(2) reachable_inv [OF assms(1)] assms(3)] by (auto simp: order_step_def)

theorem order_history_witness:
  "\<exists>ord'. Get ''C1'' (app_book (run_events demo_lib
       [EvFromApp (demo_order ''C1'' ''0'') demo_oe, EvCancel ''C1'' ''x'', EvPartial ''C1'' 30 25]
       demo_start)) = Some ord' \<and> os_Status ord' = StatusCanceled"
proof -
  let ?a = "run_events demo_lib [EvFromApp (demo_order ''C1'' ''0'') demo_oe, EvCancel ''C1'' ''x''] demo_start"
  have a: "reachable demo_lib ?a" by (rule demo_reachable) simp
  have run: "venue_run demo_lib ?a [EvPartial ''C1'' 30 25] (run_events demo_lib [EvPartial ''C1'' 30 25] ?a)"
    by (rule venue_run_events) simp
  have get: "\<exists>ord. Get ''C1'' (app_book ?a) = Some ord \<and> os_Status ord = StatusCanceled"
    by (simp add: demo_eval Cancel_def apply_cancel_def)
  then obtain ord where ord: "Get ''C1'' (app_book ?a) = Some ord" "os_Status ord = StatusCanceled"
    by blast
  have "\<not> IsOpen ord" using ord(2) by (simp add: IsOpen_def venue_consts)
  then show ?thesis using order_history [OF a run ord(1)] ord(2) by (auto simp: run_events_def)
qed

text \<open>
  C24. A partial fill, on every branch: the error it answers is determined by the quantity and
  by the order it finds; with an error nothing changes and nothing is sent; without one the
  order has the quantity added, the new average, and the status filled exactly when the whole
  quantity is executed, and no other order is touched.
\<close>

theorem partial_fill_result:
  assumes "book_inv (app_book a)"
  shows "fst (Partial L i q p a) = partial_error i q (Get i (app_book a)) \<and>
    (fst (Partial L i q p a) \<noteq> None \<longrightarrow>
       Orders (snd (Partial L i q p a)) = Orders a \<and>
       app_outbox (snd (Partial L i q p a)) = app_outbox a) \<and>
    (fst (Partial L i q p a) = None \<longrightarrow>
       (\<exists>ord. Get i (app_book a) = Some ord \<and>
          Get i (app_book (snd (Partial L i q p a))) = Some (filled L q p ord)) \<and>
       (\<forall>j. j \<noteq> i \<longrightarrow> Get j (app_book (snd (Partial L i q p a))) = Get j (app_book a)))"
  using Partial_error [of L i q p a] Partial_refused [OF assms, of L i q p]
    Partial_done [OF assms, of L i q p]
  by metis

theorem partial_fill_result_witness:
  "Orders (snd (Partial demo_lib ''C1'' 500 25
      (run_events demo_lib [EvFromApp (demo_order ''C1'' ''0'') demo_oe] demo_start))) =
   Orders (run_events demo_lib [EvFromApp (demo_order ''C1'' ''0'') demo_oe] demo_start)"
proof -
  let ?a = "run_events demo_lib [EvFromApp (demo_order ''C1'' ''0'') demo_oe] demo_start"
  have "venue_inv ?a" by (rule reachable_inv, rule demo_reachable) simp
  note result = partial_fill_result [OF venue_inv_book [OF this], of demo_lib "''C1''" 500 25]
  have "partial_error ''C1'' 500 (Get ''C1'' (app_book ?a)) \<noteq> None"
    by (simp add: demo_eval partial_error_def)
  with result show ?thesis by simp
qed

lemma Fill_result:
  assumes "reachable L a"
  shows "(fst (Fill L i p a) = None \<longleftrightarrow>
            (\<exists>ord. Get i (app_book a) = Some ord \<and> IsOpen ord \<and> 0 < os_OrderQty ord)) \<and>
         (fst (Fill L i p a) = None \<longrightarrow>
            (\<exists>ord'. Get i (app_book (snd (Fill L i p a))) = Some ord' \<and>
               os_Status ord' = StatusFilled \<and> os_CumQty ord' = os_OrderQty ord' \<and>
               LeavesQty ord' = 0))"
proof (cases "Get i (app_book a)")
  case None
  then show ?thesis by (simp add: Fill_def)
next
  case (Some ord)
  have inv: "venue_inv a" using assms by (rule reachable_inv)
  have ok: "order_ok ord" using venue_order_ok [OF inv Some] .
  have fill: "Fill L i p a = Partial L i (LeavesQty ord) p a" by (simp add: Fill_def Some)
  have "fst (Fill L i p a) = None \<longleftrightarrow> IsOpen ord \<and> 0 < LeavesQty ord"
    by (auto simp: fill Partial_error partial_error_def Some LeavesQty_def)
  moreover have "IsOpen ord \<Longrightarrow> 0 < LeavesQty ord \<longleftrightarrow> 0 < os_OrderQty ord"
    using ok order_ok_open [OF ok] by (auto simp: open_leaves order_ok_def IsOpen_def venue_consts)
  moreover have "\<exists>ord'. Get i (app_book (snd (Fill L i p a))) = Some ord' \<and>
      os_Status ord' = StatusFilled \<and> os_CumQty ord' = os_OrderQty ord' \<and> LeavesQty ord' = 0"
    if none: "fst (Fill L i p a) = None"
  proof -
    obtain ord0 where "Get i (app_book a) = Some ord0" "IsOpen ord0"
      "Get i (app_book (snd (Fill L i p a))) = Some (filled L (LeavesQty ord) p ord0)"
      using Partial_done [OF venue_inv_book [OF inv] none [unfolded fill]] fill by metis
    then show ?thesis
      using Some by (simp add: filled_def LeavesQty_def IsOpen_def venue_consts)
  qed
  ultimately show ?thesis using Some by auto
qed

text \<open>
  A fill fills: it succeeds exactly on an open order with a positive order quantity, and
  then the order is filled, its executed quantity is the order quantity and nothing is left.
\<close>

theorem fill_completes:
  assumes "reachable L a"
  shows "(fst (Fill L i p a) = None \<longleftrightarrow>
            (\<exists>ord. Get i (app_book a) = Some ord \<and> IsOpen ord \<and> 0 < os_OrderQty ord)) \<and>
         (fst (Fill L i p a) = None \<longrightarrow>
            (\<exists>ord'. Get i (app_book (snd (Fill L i p a))) = Some ord' \<and>
               os_Status ord' = StatusFilled \<and> os_CumQty ord' = os_OrderQty ord' \<and>
               LeavesQty ord' = 0))"
  by (rule Fill_result [OF assms])

theorem fill_completes_witness:
  "\<exists>ord'. Get ''C1'' (app_book (snd (Fill demo_lib ''C1'' 25
      (run_events demo_lib [EvFromApp (demo_order ''C1'' ''0'') demo_oe] demo_start)))) = Some ord' \<and>
      os_Status ord' = StatusFilled"
proof -
  let ?a = "run_events demo_lib [EvFromApp (demo_order ''C1'' ''0'') demo_oe] demo_start"
  have a: "reachable demo_lib ?a" by (rule demo_reachable) simp
  have "\<exists>ord. Get ''C1'' (app_book ?a) = Some ord \<and> IsOpen ord \<and> 0 < os_OrderQty ord"
    by (simp add: demo_eval)
  then show ?thesis using fill_completes [OF a, of "''C1''" 25] by blast
qed

text \<open>
  C40. The average price after any number of fills of a new order: the executed quantity is the
  sum of the quantities, and AvgPx is within one unit of rounding (10 to the -16, the precision
  of the decimal library's division) per fill of the exact quantity-weighted average.
\<close>

theorem average_price_bound:
  assumes "div_close L" "book_inv (app_book a)" "partials L i fs a = Some a'" "fs \<noteq> []"
    and "Get i (app_book a) = Some ord" "os_CumQty ord = 0"
  shows "\<exists>ord'. Get i (app_book a') = Some ord' \<and> os_CumQty ord' = volume fs \<and>
    \<bar>os_AvgPx ord' - notional fs / volume fs\<bar> \<le> of_nat (length fs) / 10 ^ 16"
proof -
  obtain ord' where ord': "Get i (app_book a') = Some ord'" "os_CumQty ord' = volume fs"
    and err: "\<bar>os_AvgPx ord' * volume fs - notional fs\<bar> \<le> of_nat (length fs) / 10 ^ 16 * volume fs"
    using partials_notional [OF assms(1-3,5), of 0 0] assms(6) by auto
  have pos: "0 < volume fs" using assms(2-4)
  proof (induction L i fs a rule: partials.induct)
    case (2 L i q p fs a)
    then have ok: "fst (Partial L i q p a) = None" "partials L i fs (snd (Partial L i q p a)) = Some a'"
      by (auto split: if_splits)
    then have "0 < q" using Partial_done [OF "2.prems"(1)] by metis
    then show ?case using "2.IH" [OF ok(1) Partial_inv [OF "2.prems"(1)] ok(2)] by (cases fs) auto
  qed simp
  have "\<bar>os_AvgPx ord' - notional fs / volume fs\<bar> * volume fs
      = \<bar>os_AvgPx ord' * volume fs - notional fs\<bar>"
  proof -
    have "(os_AvgPx ord' - notional fs / volume fs) * volume fs = os_AvgPx ord' * volume fs - notional fs"
      using pos by (simp add: left_diff_distrib)
    then show ?thesis using pos by (metis abs_mult abs_of_pos)
  qed
  with err pos have "\<bar>os_AvgPx ord' - notional fs / volume fs\<bar> \<le> of_nat (length fs) / 10 ^ 16"
    by (metis mult_le_cancel_right_pos)
  with ord' show ?thesis by blast
qed

theorem average_price_bound_witness:
  "\<exists>a'. partials demo_lib ''C1'' [(30, 25), (70, 26)]
     (run_events demo_lib [EvFromApp (demo_order ''C1'' ''0'') demo_oe] demo_start) = Some a' \<and>
   (\<exists>ord'. Get ''C1'' (app_book a') = Some ord' \<and> os_CumQty ord' = 100)"
proof -
  let ?a = "run_events demo_lib [EvFromApp (demo_order ''C1'' ''0'') demo_oe] demo_start"
  have "venue_inv ?a" by (rule reachable_inv, rule demo_reachable) simp
  then have inv: "book_inv (app_book ?a)" by (rule venue_inv_book)
  have "partials demo_lib ''C1'' [(30, 25), (70, 26)] ?a \<noteq> None"
    by (simp add: demo_eval)
  then obtain a' where run: "partials demo_lib ''C1'' [(30, 25), (70, 26)] ?a = Some a'" by blast
  have "\<exists>ord. Get ''C1'' (app_book ?a) = Some ord \<and> os_CumQty ord = 0" by (simp add: demo_eval)
  then obtain ord where "Get ''C1'' (app_book ?a) = Some ord" "os_CumQty ord = 0" by blast
  from average_price_bound [OF demo_div_close inv run _ this] run show ?thesis by auto
qed

subsection \<open>Properties: new orders and reports\<close>

text \<open>What a publish sends to a session that is alone in its role.\<close>

definition has_role :: "SessionID \<Rightarrow> App \<Rightarrow> bool" where
  "has_role sid a \<longleftrightarrow> sole KindOrderEntry a sid \<or> sole KindDropCopy a sid"

lemma messages_to_publish_role:
  assumes "venue_inv a" "has_role sid a"
  shows "messages_to sid (publish L r (a\<lparr>app_book := b\<rparr>)) =
    messages_to sid a @ (if app_silenced a then [] else [next_message L r (a\<lparr>app_book := b\<rparr>)])"
proof -
  have "distinct (map fst (app_kinds a))" using assms(1) by (simp add: venue_inv_def sent_ok_def)
  then show ?thesis
    using messages_to_publish_sole [of "a\<lparr>app_book := b\<rparr>" sid L r] assms(2) by (simp add: has_role_def)
qed

text \<open>What a publication adds to the messages of such a session: one report, or nothing in a silence.\<close>

definition reported :: "lib \<Rightarrow> report \<Rightarrow> App \<Rightarrow> message list" where
  "reported L r a =
     (if app_silenced a then []
      else [buildExecutionReport L (app_now a) (r\<lparr>rp_execID := exec_name (bk_execSeq (app_book a) + 1)\<rparr>)])"

lemma messages_to_reported:
  assumes "venue_inv a" "has_role sid a" "bk_execSeq b = bk_execSeq (app_book a)"
  shows "messages_to sid (publish L r (a\<lparr>app_book := b\<rparr>)) = messages_to sid a @ reported L r a"
  unfolding messages_to_publish_role [OF assms(1,2)]
  by (simp add: reported_def next_message_def exec_ids.draw_id assms(3))

text \<open>
  The required fields of a NewOrderSingle, in the order they are looked at, and the answer to the
  first that is absent or not a number where one is needed.
\<close>

definition required :: "(tag \<times> bool) list" where
  "required = [(tagClOrdID, False), (tagSymbol, False), (tagSide, False), (tagOrderQty, True), (tagOrdType, False)]"

fun first_refusal :: "lib \<Rightarrow> field_map \<Rightarrow> (tag \<times> bool) list \<Rightarrow> reject option" where
  "first_refusal L f [] = None"
| "first_refusal L f ((t, number) # ts) =
     (case f t of
        None \<Rightarrow> Some (FieldMissing t)
      | Some v \<Rightarrow> if number \<and> lib_readDec L v = None then Some (FieldMalformed t) else first_refusal L f ts)"

text \<open>The order as the message has it: the optional fields with their zero values when absent.\<close>

definition asked_in :: "lib \<Rightarrow> field_map \<Rightarrow> OrderState \<Rightarrow> bool" where
  "asked_in L f ord \<longleftrightarrow>
     f tagClOrdID = Some (os_ClOrdID ord) \<and> f tagSymbol = Some (os_Symbol ord) \<and> f tagSide = Some (os_Side ord) \<and>
     Option.bind (f tagOrderQty) (lib_readDec L) = Some (os_OrderQty ord) \<and> f tagOrdType = Some (os_OrdType ord) \<and>
     os_Price ord = (case Option.bind (f tagPrice) (lib_readDec L) of None \<Rightarrow> 0 | Some p \<Rightarrow> p) \<and>
     os_TimeInForce ord = (case f tagTimeInForce of None \<Rightarrow> [] | Some v \<Rightarrow> v) \<and>
     os_Account ord = (case f tagAccount of None \<Rightarrow> [] | Some v \<Rightarrow> v) \<and>
     os_CumQty ord = 0 \<and> os_AvgPx ord = 0"

lemma build_order_spec:
  "build_order L f = Inl e \<longleftrightarrow> first_refusal L f required = Some e"
  "build_order L f = Inr ord \<Longrightarrow> first_refusal L f required = None \<and> asked_in L f ord"
  by (auto simp: build_order_def required_def getter_defs asked_in_def get_or_def split: option.splits)

text \<open>
  C26. A NewOrderSingle, on every branch. The first required field that is absent or malformed
  is the answer, and nothing at all changes; a ClOrdID the book already has is refused with a
  business reject, reason code 5, the book is unchanged and nothing is sent. Otherwise one
  order is appended to the book: every field of it is the one of the message, it has the next
  OrderID and is new, with nothing executed; and a session that is alone in its role is sent one
  report of it under the next ExecID, or nothing while the venue is silenced.
\<close>

theorem new_order_result:
  assumes "reachable L a" "onNewOrderSingle L msg sid a = (answer, a')"
  shows "case first_refusal L (msg_body msg) required of
      Some e \<Rightarrow> answer = Some e \<and> a' = a
    | None \<Rightarrow> (\<exists>i. msg_body msg tagClOrdID = Some i \<and>
        (if Get i (app_book a) \<noteq> None
         then answer = Some (BusinessReject (OrderRefused (DuplicateClOrdID i)) 5) \<and>
              Orders a' = Orders a \<and> app_outbox a' = app_outbox a
         else answer = None \<and>
              (\<exists>ord. Orders a' = Orders a @ [ord] \<and> asked_in L (msg_body msg) ord \<and> os_Status ord = StatusNew \<and>
                 os_OrderID ord = ''ORD'' @ fmt06 (bk_orderSeq (app_book a) + 1) \<and>
                 (\<forall>peer. has_role peer a \<longrightarrow>
                    messages_to peer a' = messages_to peer a @ reported L (mk_report ord ExecTypeNew) a))))"
proof (cases "build_order L (msg_body msg)")
  case (Inl e)
  then have "first_refusal L (msg_body msg) required = Some e" by (simp only: build_order_spec(1))
  moreover have "answer = Some e \<and> a' = a" using Inl assms(2) by (simp add: onNewOrderSingle_eq)
  ultimately show ?thesis by simp
next
  case (Inr ord)
  have vinv: "venue_inv a" using assms(1) by (rule reachable_inv)
  note inv = venue_inv_book [OF vinv] and spec = build_order_spec(2) [OF Inr]
  then have id: "msg_body msg tagClOrdID = Some (os_ClOrdID ord)" by (simp add: asked_in_def)
  show ?thesis
  proof (cases "Get (os_ClOrdID ord) (app_book a)")
    case (Some y)
    then have "answer = Some (BusinessReject (OrderRefused (DuplicateClOrdID (os_ClOrdID ord))) 5) \<and>
        Orders a' = Orders a \<and> app_outbox a' = app_outbox a"
      using Inr insert_new_dup [of ord "app_book a"] All_orders_alloc [OF inv, of "[ord]"] assms(2)
      by (auto simp: onNewOrderSingle_eq Orders_def)
    then show ?thesis using spec id Some by simp
  next
    case None
    let ?new = "accepted_as ord (app_book a)"
    obtain b where b: "insert_new ord (app_book a) = (None, b)" using insert_new_ok [OF None] by blast
    then have eq: "answer = None" "a' = publish L (mk_report ?new ExecTypeNew) (a\<lparr>app_book := b\<rparr>)"
      using Inr assms(2) by (simp_all add: onNewOrderSingle_eq)
    have "bk_execSeq b = bk_execSeq (app_book a)"
      using execSeq_frame(1) [of ord "app_book a"] b by simp
    then have sent: "messages_to peer a' = messages_to peer a @ reported L (mk_report ?new ExecTypeNew) a"
      if "has_role peer a" for peer
      unfolding eq(2) using messages_to_reported [OF vinv that] by blast
    have "Orders a' = Orders a @ [?new]"
      using insert_new_inv(2) [OF inv None] b by (simp add: eq accepted_as_def Orders_def)
    moreover have "asked_in L (msg_body msg) ?new" "os_Status ?new = StatusNew"
        "os_OrderID ?new = ''ORD'' @ fmt06 (bk_orderSeq (app_book a) + 1)"
      using spec by (simp_all add: accepted_as_def asked_in_def)
    ultimately have "\<exists>ord. Orders a' = Orders a @ [ord] \<and> asked_in L (msg_body msg) ord \<and> os_Status ord = StatusNew \<and>
        os_OrderID ord = ''ORD'' @ fmt06 (bk_orderSeq (app_book a) + 1) \<and>
        (\<forall>peer. has_role peer a \<longrightarrow> messages_to peer a' = messages_to peer a @ reported L (mk_report ord ExecTypeNew) a)"
      using sent by blast
    then show ?thesis using spec None eq(1) id by simp
  qed
qed

theorem new_order_result_witness:
  "fst (onNewOrderSingle demo_lib (demo_order ''C1'' ''0'') demo_oe
      (run_events demo_lib [EvFromApp (demo_order ''C1'' ''0'') demo_oe] demo_start))
   = Some (BusinessReject (OrderRefused (DuplicateClOrdID ''C1'')) 5)"
proof -
  let ?a = "run_events demo_lib [EvFromApp (demo_order ''C1'' ''0'') demo_oe] demo_start"
  have a: "reachable demo_lib ?a" by (rule demo_reachable) simp
  obtain answer a' where out: "onNewOrderSingle demo_lib (demo_order ''C1'' ''0'') demo_oe ?a = (answer, a')"
    by force
  have msg: "first_refusal demo_lib (msg_body (demo_order ''C1'' ''0'')) required = None"
      "msg_body (demo_order ''C1'' ''0'') tagClOrdID = Some ''C1''"
    using build_order_spec [of demo_lib "msg_body (demo_order ''C1'' ''0'')"]
    by (auto simp: demo_order_def build_order_def getter_defs tag_defs demo_lib_def demo_readDec_def Let_def
        split: option.splits)
  have dup: "Get ''C1'' (app_book ?a) \<noteq> None" by (simp add: demo_eval)
  have "answer = Some (BusinessReject (OrderRefused (DuplicateClOrdID ''C1'')) 5)"
    using new_order_result [OF a out] dup unfolding msg option.case option.inject by metis
  then show ?thesis by (simp only: out fst_conv)
qed

text \<open>
  No ExecID repeats: among all the reports a running venue has sent on a session, no two
  carry the same ExecID, whatever the commands were.
\<close>

theorem exec_ids_distinct:
  assumes "reachable L a"
  shows "distinct (map exec_id (messages_to sid a))"
  using reachable_inv [OF assms] by (auto simp: venue_inv_def sent_ok_def drawn_log_def)

theorem exec_ids_distinct_witness:
  "distinct (map exec_id (messages_to demo_oe (run_events demo_lib
     [EvFromApp (demo_order ''C1'' ''0'') demo_oe, EvPartial ''C1'' 30 25] demo_start)))"
  by (rule exec_ids_distinct [where L = demo_lib], rule demo_reachable) simp

definition without_time :: "message \<Rightarrow> message" where
  "without_time m = m\<lparr>msg_body := (msg_body m)(tagTransactTime := None)\<rparr>"

text \<open>
  C2. The drop copy is complete: in a venue with one order-entry and one drop-copy session the
  drop-copy session has, at every moment, been sent exactly the reports the order-entry session
  was sent, in the same order and field by field, ExecID included; only TransactTime (tag 60)
  is left out of the comparison, as the clock is read anew for each message.
\<close>

theorem drop_copy_complete:
  assumes "reachable L a" "sole KindOrderEntry a oe" "sole KindDropCopy a dc"
  shows "map without_time (messages_to dc a) = map without_time (messages_to oe a)"
  using reachable_inv [OF assms(1)] assms(2,3) by (simp add: venue_inv_def sent_ok_def)

theorem drop_copy_complete_witness:
  "map without_time (messages_to demo_dc (run_events demo_lib
       [EvFromApp (demo_order ''C1'' ''0'') demo_oe, EvPartial ''C1'' 30 25] demo_start))
   = map without_time (messages_to demo_oe (run_events demo_lib
       [EvFromApp (demo_order ''C1'' ''0'') demo_oe, EvPartial ''C1'' 30 25] demo_start))"
proof (rule drop_copy_complete [where L = demo_lib])
  show "reachable demo_lib (run_events demo_lib
       [EvFromApp (demo_order ''C1'' ''0'') demo_oe, EvPartial ''C1'' 30 25] demo_start)"
    by (rule demo_reachable) simp
qed (rule demo_roles, simp add: demo_eval)+

lemma silenced_publish: "app_silenced a \<Longrightarrow> app_outbox (publish L r a) = app_outbox a"
  by (simp add: publish_def NextExecID_def Let_def)

lemma silenced_cancel_loop:
  "app_silenced a \<Longrightarrow> app_outbox (cancel_loop L t xs a) = app_outbox a \<and> app_silenced (cancel_loop L t xs a)"
  by (induction L t xs a rule: cancel_loop.induct) (simp_all add: silenced_publish split: prod.split sum.split)

lemma silenced_handle:
  assumes "app_silenced a" "e \<noteq> EvSilence False"
  shows "app_outbox (handle L e a) = app_outbox a \<and> app_silenced (handle L e a)"
proof -
  have partial: "app_outbox (snd (Partial L i q p a)) = app_outbox a \<and> app_silenced (snd (Partial L i q p a))"
    for i q p
    using assms by (simp add: Partial_unfold Let_def silenced_publish split: sum.split)
  show ?thesis
  proof (cases e)
    case (EvFromApp msg sid)
    have "app_outbox (snd (onNewOrderSingle L msg sid b)) = app_outbox b \<and>
        app_silenced (snd (onNewOrderSingle L msg sid b))" if "app_silenced b" for b
      using that by (auto simp: onNewOrderSingle_eq silenced_publish split: sum.split prod.split option.split)
    then show ?thesis
      using FromApp_cases [of L msg sid a] assms EvFromApp
      by (auto simp: note_frame)
  next
    case (EvSilence v)
    then show ?thesis using assms(2) by (simp add: SetSilenced_def)
  qed (use assms partial silenced_cancel_loop in
       \<open>simp_all add: frame SetRejectLogons_def Fill_def Cancel_def Reject_def ToAdmin_def ToApp_def
          noteSent_def FromAdmin_def note_frame CancelAllOpenDay_def run_timer_def cod_expire_def
          silenced_publish Let_def case_prod_beta split: sum.split option.split\<close>)
qed

text \<open>
  A silent venue sends nothing: as long as no event ends the silence, no session is sent
  any report: new orders, fills, cancels, rejects and mass cancels reach nobody.
\<close>

theorem silence_sends_nothing:
  assumes "venue_run L a es a'" "app_silenced a" "EvSilence False \<notin> set es"
  shows "app_outbox a' = app_outbox a"
proof -
  have "app_outbox a' = app_outbox a \<and> app_silenced a'"
    using assms
  proof (induction rule: venue_run.induct)
    case (run_Cons e a es a')
    then show ?case using silenced_handle [of a e L] by auto
  qed simp
  then show ?thesis by simp
qed

theorem silence_sends_nothing_witness:
  "app_outbox (run_events demo_lib [EvFromApp (demo_order ''C1'' ''0'') demo_oe] (SetSilenced True demo_start))
   = app_outbox (SetSilenced True demo_start)"
proof (rule silence_sends_nothing)
  show "venue_run demo_lib (SetSilenced True demo_start) [EvFromApp (demo_order ''C1'' ''0'') demo_oe]
     (run_events demo_lib [EvFromApp (demo_order ''C1'' ''0'') demo_oe] (SetSilenced True demo_start))"
    by (rule venue_run_events) simp
qed (simp_all add: SetSilenced_def)

end
