(* ===== verification/DisconnectProps.thy ===== *)
theory DisconnectProps
  imports VenueProps
begin

text \<open>
  Cancel on disconnect (\<open>onSessionLost\<close>, \<open>CancelAllOpenDay\<close> and \<open>OnLogout\<close> of
  \<open>internal/exchange\<close>): what the mass cancel does, when its timer fires and when it stands
  down, and the cases where it fires although the grace window of the last disconnect is open.
\<close>

definition cancel_day :: "OrderState \<Rightarrow> OrderState" where
  "cancel_day ord = (if IsOpen ord \<and> IsDay ord then ord\<lparr>os_Status := StatusCanceled\<rparr> else ord)"

definition open_day :: "OrderState list \<Rightarrow> OrderState list" where
  "open_day = filter (\<lambda>ord. IsOpen ord \<and> IsDay ord)"

lemma CancelAll_Orders:
  assumes "venue_inv a"
  shows "Orders (snd (CancelAllOpenDay L t a)) = map cancel_day (Orders a)"
proof -
  have inv: "book_inv (app_book a)" using assms by (rule venue_inv_book)
  have "ord \<in> set (OpenDayOrders (app_book a)) \<longleftrightarrow> IsOpen ord \<and> IsDay ord" if "ord \<in> set (Orders a)" for ord
    using that by (simp add: OpenDayOrders_log Orders_def)
  then show ?thesis
    using cancel_loop_Orders [OF inv present_OpenDayOrders [OF inv], of L t]
    by (simp add: CancelAllOpenDay_def Let_def cancel_day_def)
qed

lemma CancelAll_messages:
  assumes "venue_inv a" "has_role peer a"
  shows "messages_to peer (snd (CancelAllOpenDay L t a)) = messages_to peer a @
    (if app_silenced a then []
     else cancel_reports L t (app_now a) (bk_execSeq (app_book a)) (open_day (Orders a)))"
proof (cases "app_silenced a")
  case True
  then show ?thesis
    using silenced_cancel_loop [OF True, of L t] by (simp add: CancelAllOpenDay_def Let_def messages_to_def)
next
  case False
  have inv: "book_inv (app_book a)" using assms(1) by (rule venue_inv_book)
  have "distinct (map fst (app_kinds a))" using assms(1) by (simp add: venue_inv_def sent_ok_def)
  from cancel_loop_messages [OF inv present_OpenDayOrders [OF inv] False this] assms(2) False
  show ?thesis
    by (simp add: CancelAllOpenDay_def Let_def has_role_def OpenDayOrders_log open_day_def Orders_def)
qed

lemma venue_inv_book_eq:
  "venue_inv a \<Longrightarrow> app_book b = app_book a \<Longrightarrow> app_kinds b = app_kinds a \<Longrightarrow>
     app_outbox b = app_outbox a \<Longrightarrow> venue_inv b \<and> Orders b = Orders a"
  using venue_inv_frame by metis

text \<open>A timer that is due and whose session is down cancels every open day order.\<close>

lemma expire_down:
  assumes "venue_inv a" "k < length (app_timers a)" "tm_session (app_timers a ! k) = sid"
    and "\<not> app_loggedOn a sid"
  shows "Orders (handle L (EvExpire k) a) = map cancel_day (Orders a)"
proof -
  let ?a = "a\<lparr>app_timers := take k (app_timers a) @ drop (Suc k) (app_timers a)\<rparr>"
  have "venue_inv ?a" "Orders ?a = Orders a" using venue_inv_book_eq [OF assms(1), of ?a] by simp_all
  then show ?thesis
    using assms(3,4) CancelAll_Orders [of ?a L] by (simp add: run_timer_def cod_expire_def Let_def)
qed

subsection \<open>Properties\<close>

text \<open>
  C19. The mass cancel: every working day order, and no other, becomes canceled; good-till
  orders and closed orders are as they were; the count is the number of canceled orders; and
  a session that is alone in its role is sent one report per canceled order, in insertion
  order, under consecutive ExecIDs, each carrying the reason and ExecRestatementReason 100, or
  no report at all while the venue is silenced.
\<close>

theorem cancel_all_result:
  assumes "reachable L a" "has_role peer a"
  shows "fst (CancelAllOpenDay L t a) = length (open_day (Orders a)) \<and>
    Orders (snd (CancelAllOpenDay L t a)) = map cancel_day (Orders a) \<and>
    messages_to peer (snd (CancelAllOpenDay L t a)) = messages_to peer a @
      (if app_silenced a then []
       else cancel_reports L t (app_now a) (bk_execSeq (app_book a)) (open_day (Orders a)))"
  using CancelAll_Orders [OF reachable_inv [OF assms(1)]]
    CancelAll_messages [OF reachable_inv [OF assms(1)] assms(2)]
  by (simp add: CancelAllOpenDay_def Let_def OpenDayOrders_log open_day_def Orders_def)

theorem cancel_all_result_witness:
  "map os_Status (Orders (snd (CancelAllOpenDay demo_lib ''x'' (run_events demo_lib
     [EvFromApp (demo_order ''C1'' ''0'') demo_oe, EvFromApp (demo_order ''C2'' ''1'') demo_oe] demo_start))))
   = [StatusCanceled, StatusNew]"
proof -
  let ?a = "run_events demo_lib
     [EvFromApp (demo_order ''C1'' ''0'') demo_oe, EvFromApp (demo_order ''C2'' ''1'') demo_oe] demo_start"
  have a: "reachable demo_lib ?a" by (rule demo_reachable) simp
  have "app_kinds ?a = app_kinds demo_start" by (simp add: demo_eval)
  then have "has_role demo_oe ?a" unfolding has_role_def by (rule disjI1 [OF demo_roles(1)])
  then have "Orders (snd (CancelAllOpenDay demo_lib ''x'' ?a)) = map cancel_day (Orders ?a)"
    using cancel_all_result [OF a, of demo_oe "''x''"] by blast
  moreover have "map os_Status (map cancel_day (Orders ?a)) = [StatusCanceled, StatusNew]"
    by (simp add: demo_eval cancel_day_def IsDay_def)
  ultimately show ?thesis by metis
qed

text \<open>The timers: a handler appends to the list, but for the one that runs a timer.\<close>

lemma cancel_loop_timers: "app_timers (cancel_loop L t xs b) = app_timers b"
  by (induction L t xs b rule: cancel_loop.induct) (simp_all split: prod.split sum.split)

lemma timers_kept:
  assumes "\<And>k. e \<noteq> EvExpire k"
  shows "\<exists>new. app_timers (handle L e a) = app_timers a @ new"
proof -
  have partial: "app_timers (snd (Partial L i q p b)) = app_timers b" for i q p b
    by (simp add: Partial_unfold Let_def split: sum.split)
  show ?thesis
  proof (cases e)
    case (EvFromApp msg s)
    have "app_timers (snd (onNewOrderSingle L msg s b)) = app_timers b" for b
      by (auto simp: onNewOrderSingle_eq split: sum.split prod.split option.split)
    then show ?thesis using FromApp_cases [of L msg s a] EvFromApp by (auto simp: note_frame)
  next
    case (EvLogout s)
    then show ?thesis by (auto simp: OnLogout_def onSessionLost_def Let_def split: option.split)
  qed (use assms in
        \<open>simp_all add: frame cancel_loop_timers partial SetSilenced_def SetRejectLogons_def OnLogon_def Fill_def
           Cancel_def Reject_def ToAdmin_def ToApp_def CancelAllOpenDay_def
           Let_def case_prod_beta split: sum.split option.split\<close>)
qed

lemma loggedOn_kept:
  assumes "e \<noteq> EvLogon sid" "\<not> app_loggedOn a sid"
  shows "\<not> app_loggedOn (handle L e a) sid"
proof -
  have partial: "app_loggedOn (snd (Partial L i q p b)) = app_loggedOn b" for i q p b
    by (simp add: Partial_unfold Let_def split: sum.split)
  show ?thesis
  proof (cases e)
    case (EvFromApp msg s)
    have "app_loggedOn (snd (onNewOrderSingle L msg s b)) = app_loggedOn b" for b
      by (auto simp: onNewOrderSingle_eq split: sum.split prod.split option.split)
    then show ?thesis
      using FromApp_cases [of L msg s a] assms EvFromApp by (auto simp: note_frame)
  next
    case (EvLogout s)
    then show ?thesis using assms by (auto simp: OnLogout_def onSessionLost_def Let_def split: option.split)
  qed (use assms in
        \<open>simp_all add: frame cancel_loop_loggedOn partial SetSilenced_def SetRejectLogons_def OnLogon_def Fill_def
           Cancel_def Reject_def ToAdmin_def ToApp_def CancelAllOpenDay_def run_timer_def
           cod_expire_def Let_def case_prod_beta split: sum.split option.split\<close>)
qed

text \<open>A moment of a run, from its beginning to its end, at which a timer of the session cancels.\<close>

definition canceled_at :: "lib \<Rightarrow> timer \<Rightarrow> App \<Rightarrow> nat \<Rightarrow> bool" where
  "canceled_at L tm a k \<longleftrightarrow> k < length (app_timers a) \<and> app_timers a ! k = tm \<and>
     Orders (handle L (EvExpire k) a) = map cancel_day (Orders a)"

lemma timer_waits_or_ran:
  assumes "venue_run L a es a'" "venue_inv a" "tm \<in> set (app_timers a)" "\<not> app_loggedOn a (tm_session tm)"
    and "EvLogon (tm_session tm) \<notin> set es"
  shows "(\<exists>k. canceled_at L tm a' k) \<or> (\<exists>before k rest b. es = before @ EvExpire k # rest \<and>
    venue_run L a before b \<and> enabled (EvExpire k) b \<and> canceled_at L tm b k)"
  using assms
proof (induction rule: venue_run.induct)
  case (run_Nil a)
  then obtain k where "k < length (app_timers a)" "app_timers a ! k = tm" by (auto simp: in_set_conv_nth)
  then have "canceled_at L tm a k"
    using expire_down [OF run_Nil(1)] run_Nil(3) by (simp add: canceled_at_def)
  then show ?case by blast
next
  case (run_Cons e a es a')
  have inv: "venue_inv (handle L e a)" using handle_good [OF run_Cons.prems(1)] by blast
  have down: "\<not> app_loggedOn (handle L e a) (tm_session tm)"
    using loggedOn_kept run_Cons.prems(3,4) by auto
  have later: ?case if "tm \<in> set (app_timers (handle L e a))"
  proof -
    from run_Cons.IH [OF inv that down] run_Cons.prems(4)
    consider k where "canceled_at L tm a' k"
      | before k rest b where "es = before @ EvExpire k # rest" "venue_run L (handle L e a) before b"
          "enabled (EvExpire k) b" "canceled_at L tm b k"
      by auto
    then show ?thesis
    proof cases
      case (2 before k rest b)
      then have "e # es = (e # before) @ EvExpire k # rest" "venue_run L a (e # before) b"
        using run_Cons.hyps(1) by simp_all
      then show ?thesis using 2(3,4) by blast
    qed blast
  qed
  show ?case
  proof (cases "\<exists>k. e = EvExpire k \<and> k < length (app_timers a) \<and> app_timers a ! k = tm")
    case True
    then obtain k where k: "e = EvExpire k" "k < length (app_timers a)" "app_timers a ! k = tm" by blast
    then have "canceled_at L tm a k"
      using expire_down [OF run_Cons.prems(1)] run_Cons.prems(3) by (simp add: canceled_at_def)
    moreover have "e # es = [] @ EvExpire k # es" "venue_run L a [] a" using k(1) by simp_all
    ultimately show ?thesis using run_Cons.hyps(1) k(1) by blast
  next
    case False
    show ?thesis
    proof (rule later, cases "\<exists>k. e = EvExpire k")
      case True
      then obtain k where k: "e = EvExpire k" "k < length (app_timers a)" using run_Cons.hyps(1) by auto
      have "app_timers (handle L e a) = take k (app_timers a) @ drop (Suc k) (app_timers a)"
        using k by (simp add: run_timer_def cod_expire_def CancelAllOpenDay_def Let_def cancel_loop_timers)
      moreover have "app_timers a ! k \<noteq> tm" using False k by blast
      moreover have "app_timers a = take k (app_timers a) @ app_timers a ! k # drop (Suc k) (app_timers a)"
        using k(2) by (rule id_take_nth_drop)
      then have "set (app_timers a) = insert (app_timers a ! k) (set (take k (app_timers a)) \<union> set (drop (Suc k) (app_timers a)))"
        by (metis Un_insert_right list.simps(15) set_append)
      ultimately show "tm \<in> set (app_timers (handle L e a))" using run_Cons.prems(2) by auto
    next
      case False
      then obtain new where "app_timers (handle L e a) = app_timers a @ new"
        using timers_kept [of e L a] by blast
      then show "tm \<in> set (app_timers (handle L e a))" using run_Cons.prems(2) by simp
    qed
  qed
qed

text \<open>Whatever the role of the session and its mode, as long as the mode is not zero.\<close>

lemma lost_session_cancels:
  assumes "reachable L a" "app_cod a sid = Some req" "lr_CODType req \<noteq> CODDisabled"
    and "venue_run L (OnLogout sid a) es a'" "EvLogon sid \<notin> set es"
    and tm: "tm = \<lparr>tm_deadline = app_now a + cod_window (lr_CODTimeoutWindow req), tm_session = sid\<rparr>"
  shows "(\<exists>k. canceled_at L tm a' k) \<or> (\<exists>before k rest b. es = before @ EvExpire k # rest \<and>
    venue_run L (OnLogout sid a) before b \<and> enabled (EvExpire k) b \<and> canceled_at L tm b k)"
proof -
  have "venue_inv (OnLogout sid a)"
    using reachable_inv [OF reachable_run [OF assms(1), of "[EvLogout sid]"]] by simp
  moreover have "tm \<in> set (app_timers (OnLogout sid a))" "\<not> app_loggedOn (OnLogout sid a) (tm_session tm)"
    using assms(2,3) tm by (simp_all add: OnLogout_def onSessionLost_def Let_def)
  ultimately show ?thesis using timer_waits_or_ran [OF assms(4)] assms(5) tm by simp
qed

text \<open>
  C15. Cancel on disconnect, where code and documentation agree: an order-entry session that
  armed mode 3 (disconnect or logout) is lost, anything happens, and the session does not come
  back. Then its timer has run, not before the window was over, or it is still there, and once
  the window is over it is due; either way, in the state in which it runs every working day
  order is canceled and every other order is as it was. (The code treats modes 1 and 2 and a
  drop-copy session alike, see \<open>lost_session_cancels\<close>, which the documentation does not.)
\<close>

theorem disconnect_cancels:
  assumes "reachable L a" "kindOf sid a = KindOrderEntry"
    and "app_cod a sid = Some req" "lr_CODType req = CODOnDisconnectOrLogout"
    and "0 \<le> lr_CODTimeoutWindow req" "lr_CODTimeoutWindow req \<le> 60000"
    and "venue_run L (OnLogout sid a) es a'" "EvLogon sid \<notin> set es"
  shows "let deadline = app_now a + lr_CODTimeoutWindow req * 1000000;
             cancels = (\<lambda>b k. k < length (app_timers b) \<and>
               app_timers b ! k = \<lparr>tm_deadline = deadline, tm_session = sid\<rparr> \<and>
               Orders (handle L (EvExpire k) b) = map cancel_day (Orders b))
         in (\<exists>k. cancels a' k \<and> (deadline \<le> app_now a' \<longrightarrow> enabled (EvExpire k) a')) \<or>
            (\<exists>before k rest b. es = before @ EvExpire k # rest \<and> venue_run L (OnLogout sid a) before b \<and>
               deadline \<le> app_now b \<and> cancels b k)"
proof -
  have "cod_window (lr_CODTimeoutWindow req) = lr_CODTimeoutWindow req * 1000000"
    using assms(5,6) by (simp add: cod_window_def wrap64_id)
  moreover have "lr_CODType req \<noteq> CODDisabled"
    using assms(4) by (simp add: CODDisabled_def CODOnDisconnectOrLogout_def)
  ultimately show ?thesis
    using lost_session_cancels [OF assms(1,3) _ assms(7,8) refl]
    by (fastforce simp: canceled_at_def Let_def)
qed

text \<open>A venue whose order-entry session logged on with the window of five seconds, and has an order.\<close>

definition demo_armed :: App where
  "demo_armed = run_events demo_lib
     [EvFromAdmin demo_logon demo_oe, EvLogon demo_oe, EvFromApp (demo_order ''C1'' ''0'') demo_oe] demo_start"

lemma demo_armed_reachable: "reachable demo_lib demo_armed"
  unfolding demo_armed_def by (rule demo_reachable) simp

lemma demo_armed_cod:
  "app_cod demo_armed demo_oe = Some \<lparr>lr_SessionID = demo_oe, lr_Password = ''oe-secret'', lr_AppID = [],
     lr_CODType = 3, lr_CODTimeoutWindow = 5000\<rparr>"
  "cod_window 5000 = 5000000000"
  "map os_Status (map cancel_day (Orders demo_armed)) = [StatusCanceled]"
  "app_timers demo_armed = []"
  by (simp_all add: demo_armed_def demo_eval cod_window_def wrap64_id cancel_day_def IsDay_def)

theorem disconnect_cancels_witness:
  "map os_Status (Orders (handle demo_lib (EvExpire 0)
     (handle demo_lib (Tick 5000000000) (OnLogout demo_oe demo_armed)))) = [StatusCanceled]"
proof -
  let ?b = "handle demo_lib (Tick 5000000000) (OnLogout demo_oe demo_armed)"
  have run: "venue_run demo_lib (OnLogout demo_oe demo_armed) [Tick 5000000000] ?b" by simp
  have kind: "kindOf demo_oe demo_armed = KindOrderEntry" by (simp add: demo_armed_def demo_eval)
  have timers: "length (app_timers ?b) = 1"
    using demo_armed_cod(1,4) by (simp add: OnLogout_def onSessionLost_def CODDisabled_def Let_def)
  have "\<exists>k < length (app_timers ?b). Orders (handle demo_lib (EvExpire k) ?b) = map cancel_day (Orders demo_armed)"
    using disconnect_cancels [OF demo_armed_reachable kind demo_armed_cod(1) _ _ _ run]
    by (auto simp: CODOnDisconnectOrLogout_def Let_def Cons_eq_append_conv Orders_def frame)
  then show ?thesis unfolding timers using demo_armed_cod(3) by auto
qed

lemma logged_on_until_logout:
  "venue_run L a es a' \<Longrightarrow> app_loggedOn a sid \<Longrightarrow> EvLogout sid \<notin> set es \<Longrightarrow> app_loggedOn a' sid"
proof (induction rule: venue_run.induct)
  case (run_Cons e a es a')
  have partial: "app_loggedOn (snd (Partial L i q p b)) = app_loggedOn b" for i q p b
    by (simp add: Partial_unfold Let_def split: sum.split)
  have "app_loggedOn (handle L e a) sid"
  proof (cases e)
    case (EvFromApp msg s)
    have "app_loggedOn (snd (onNewOrderSingle L msg s b)) = app_loggedOn b" for b
      by (auto simp: onNewOrderSingle_eq split: sum.split prod.split option.split)
    then show ?thesis
      using FromApp_cases [of L msg s a] run_Cons.prems(1) EvFromApp by (auto simp: note_frame)
  next
    case (EvLogout s)
    then show ?thesis
      using run_Cons.prems by (auto simp: OnLogout_def onSessionLost_def Let_def split: option.split)
  qed (use run_Cons.prems in
        \<open>simp_all add: frame cancel_loop_loggedOn partial SetSilenced_def SetRejectLogons_def OnLogon_def Fill_def
           Cancel_def Reject_def ToAdmin_def ToApp_def CancelAllOpenDay_def run_timer_def
           cod_expire_def Let_def case_prod_beta split: sum.split option.split\<close>)
  then show ?case using run_Cons by simp
qed simp

text \<open>
  A client that is back keeps its orders: after a logon, and as long as no further logout
  of that session happens, a timer of the session, however old, stands down when it fires. It
  leaves the timer list and nothing else changes: no order, no report.
\<close>

theorem reconnect_stands_down:
  assumes "venue_run L (OnLogon sid a) es a'" "EvLogout sid \<notin> set es"
    and "k < length (app_timers a')" "tm_session (app_timers a' ! k) = sid"
  shows "handle L (EvExpire k) a' =
    a'\<lparr>app_timers := take k (app_timers a') @ drop (Suc k) (app_timers a')\<rparr>"
proof -
  have "app_loggedOn a' sid"
    by (rule logged_on_until_logout [OF assms(1) _ assms(2)]) (simp add: OnLogon_def)
  then show ?thesis using assms(4) by (simp add: run_timer_def cod_expire_def Let_def)
qed

theorem reconnect_stands_down_witness:
  "Orders (handle demo_lib (EvExpire 0) (OnLogon demo_oe (OnLogout demo_oe demo_armed))) = Orders demo_armed"
proof -
  let ?a = "OnLogon demo_oe (OnLogout demo_oe demo_armed)"
  have t: "app_timers ?a = [\<lparr>tm_deadline = app_now demo_armed + 5000000000, tm_session = demo_oe\<rparr>]"
    using demo_armed_cod by (simp add: OnLogon_def OnLogout_def onSessionLost_def CODDisabled_def Let_def)
  have "venue_run demo_lib (OnLogon demo_oe (OnLogout demo_oe demo_armed)) [] ?a" by simp
  from reconnect_stands_down [OF this, of 0] t show ?thesis
    by (simp add: Orders_def frame)
qed

text \<open>
  A stale timer: a session that reconnects inside the window and is lost again has the
  timer of its first loss still running. When that timer fires the session is down, so the
  working day orders are canceled, although the window of the second loss has not passed.
\<close>

theorem stale_timer_cancels:
  assumes "reachable L a" "app_cod a sid = Some req" "lr_CODType req \<noteq> CODDisabled"
    and "0 \<le> d1" "0 \<le> d2" "0 < d1 + d2" "d1 + d2 \<le> cod_window (lr_CODTimeoutWindow req)"
  shows "let w = cod_window (lr_CODTimeoutWindow req);
             lost_again = OnLogout sid (handle L (Tick d2) (OnLogon sid (handle L (Tick d1) (OnLogout sid a))));
             later = handle L (Tick (w - (d1 + d2))) lost_again;
             k = length (app_timers a)
         in app_now later < app_now lost_again + w \<and> enabled (EvExpire k) later \<and>
            Orders (handle L (EvExpire k) later) = map cancel_day (Orders a)"
proof -
  let ?w = "cod_window (lr_CODTimeoutWindow req)"
  let ?lost = "OnLogout sid (handle L (Tick d2) (OnLogon sid (handle L (Tick d1) (OnLogout sid a))))"
  let ?b = "handle L (Tick (?w - (d1 + d2))) ?lost"
  have b: "app_book ?b = app_book a" "app_kinds ?b = app_kinds a" "app_outbox ?b = app_outbox a"
    by (simp_all add: frame)
  have now: "app_now ?b = app_now a + ?w" "app_now ?lost = app_now a + d1 + d2"
    by (simp_all add: frame)
  have timers: "app_timers ?b = app_timers a @
      [\<lparr>tm_deadline = app_now a + ?w, tm_session = sid\<rparr>,
       \<lparr>tm_deadline = app_now a + d1 + d2 + ?w, tm_session = sid\<rparr>]"
    and down: "\<not> app_loggedOn ?b sid"
    using assms(2,3) by (simp_all add: OnLogout_def OnLogon_def onSessionLost_def Let_def)
  have "venue_inv ?b \<and> Orders ?b = Orders a"
    using venue_inv_book_eq [OF reachable_inv [OF assms(1)] b] .
  then have "Orders (handle L (EvExpire (length (app_timers a))) ?b) = map cancel_day (Orders a)"
    using expire_down [of ?b "length (app_timers a)" sid L] timers down by (simp add: nth_append)
  then show ?thesis using now timers assms(6) by (simp add: Let_def nth_append)
qed

theorem stale_timer_cancels_witness:
  "map os_Status (Orders (handle demo_lib (EvExpire 0) (handle demo_lib (Tick 100000000)
     (OnLogout demo_oe (handle demo_lib (Tick 900000000) (OnLogon demo_oe
        (handle demo_lib (Tick 4000000000) (OnLogout demo_oe demo_armed)))))))) = [StatusCanceled]"
  using stale_timer_cancels [OF demo_armed_reachable demo_armed_cod(1), of 4000000000 900000000]
    demo_armed_cod(2-)
  by (simp add: CODDisabled_def Let_def)

text \<open>
  The mode is not used: modes 1, 2 and 3 (and any other value but 0) start the same timer
  on every logout, whether the session was logged out or cut.
\<close>

theorem mode_not_distinguished:
  assumes "lr_CODType req \<noteq> CODDisabled" "m \<noteq> CODDisabled"
  shows "app_timers (OnLogout sid (a\<lparr>app_cod := (app_cod a)(sid \<mapsto> req\<lparr>lr_CODType := m\<rparr>)\<rparr>))
       = app_timers a @ [\<lparr>tm_deadline = app_now a + cod_window (lr_CODTimeoutWindow req), tm_session = sid\<rparr>]
     \<and> app_timers (OnLogout sid (a\<lparr>app_cod := (app_cod a)(sid \<mapsto> req)\<rparr>))
       = app_timers (OnLogout sid (a\<lparr>app_cod := (app_cod a)(sid \<mapsto> req\<lparr>lr_CODType := m\<rparr>)\<rparr>))"
  using assms by (simp add: OnLogout_def onSessionLost_def Let_def)

theorem mode_not_distinguished_witness:
  "app_timers (OnLogout demo_oe (demo_start\<lparr>app_cod := (app_cod demo_start)(demo_oe \<mapsto>
      \<lparr>lr_SessionID = demo_oe, lr_Password = [], lr_AppID = [], lr_CODType = CODOnLogout,
       lr_CODTimeoutWindow = 1\<rparr>)\<rparr>))
   = [\<lparr>tm_deadline = 0 + cod_window 1, tm_session = demo_oe\<rparr>]"
  using mode_not_distinguished [of "\<lparr>lr_SessionID = demo_oe, lr_Password = [], lr_AppID = [],
      lr_CODType = CODOnDisconnect, lr_CODTimeoutWindow = 1\<rparr>" CODOnLogout demo_oe demo_start]
  by (simp add: CODOnDisconnect_def CODOnLogout_def CODDisabled_def demo_start_def New_def)

text \<open>
  The window in nanoseconds: the 64-bit product is the window exactly for values of at most
  9223372036854 milliseconds in size; the next larger window is negative, so that its timer is
  due at once.
\<close>

theorem cod_window_exact:
  "(cod_window ms = ms * 1000000) = (- 9223372036854 \<le> ms \<and> ms \<le> 9223372036854) \<and>
   cod_window 9223372036855 < 0"
proof -
  have "cod_window ms = ms * 1000000 \<longleftrightarrow> int64 (ms * 1000000)"
    using wrap64_id [of "ms * 1000000"] wrap64_range [of "ms * 1000000"]
    unfolding cod_window_def by auto
  moreover have "int64 (ms * 1000000) \<longleftrightarrow> - 9223372036854 \<le> ms \<and> ms \<le> 9223372036854"
  proof -
    have "- (2 ^ 63) \<le> ms * 1000000 \<longleftrightarrow> - 9223372036854 \<le> ms" by (simp, linarith)
    moreover have "ms * 1000000 < 2 ^ 63 \<longleftrightarrow> ms \<le> 9223372036854" by (simp, linarith)
    ultimately show ?thesis by blast
  qed
  moreover have "cod_window 9223372036855 < 0" by (simp add: cod_window_def wrap64_def)
  ultimately show ?thesis by blast
qed

end
