(* ===== verification/Client.thy ===== *)
theory Client
  imports Logon
begin

text \<open>
  The half both initiator applications share (\<open>internal/session/client.go\<close>): credentials on
  the outbound Logon, whether a session is up, and the callbacks that are told of every inbound
  message and of its class. A callback is a closure over state outside the client; it is
  modelled as a function on that state, of type \<open>'w\<close>, which \<open>NoteInbound\<close> threads through the
  callbacks in the order they were registered.
\<close>

datatype InboundClass = InboundAdmin | InboundApp

definition InboundClass_String :: "InboundClass \<Rightarrow> string" where
  "InboundClass_String c = (if c = InboundApp then ''app'' else ''admin'')"

type_synonym 'w inbound_fn = "SessionID \<Rightarrow> InboundClass \<Rightarrow> 'w \<Rightarrow> 'w"

record 'w Client =
  cl_Creds :: LogonCredentials
  cl_loggedOn :: "SessionID \<Rightarrow> bool"
  cl_onInbound :: "'w inbound_fn list"

definition NewClient :: "LogonCredentials \<Rightarrow> 'w Client" where
  "NewClient creds = \<lparr>cl_Creds = creds, cl_loggedOn = (\<lambda>_. False), cl_onInbound = []\<rparr>"

definition OnInbound :: "'w inbound_fn \<Rightarrow> 'w Client \<Rightarrow> 'w Client" where
  "OnInbound fn c = c\<lparr>cl_onInbound := cl_onInbound c @ [fn]\<rparr>"

fun inbound_loop :: "'w inbound_fn list \<Rightarrow> SessionID \<Rightarrow> InboundClass \<Rightarrow> 'w \<Rightarrow> 'w" where
  "inbound_loop [] sid class w = w"
| "inbound_loop (fn # fns) sid class w = inbound_loop fns sid class (fn sid class w)"

definition NoteInbound :: "'w Client \<Rightarrow> SessionID \<Rightarrow> InboundClass \<Rightarrow> 'w \<Rightarrow> 'w" where
  "NoteInbound c sid class w = inbound_loop (cl_onInbound c) sid class w"

definition LoggedOn :: "SessionID \<Rightarrow> 'w Client \<Rightarrow> bool" where
  "LoggedOn sid c = cl_loggedOn c sid"

definition Client_OnLogon :: "SessionID \<Rightarrow> 'w Client \<Rightarrow> 'w Client" where
  "Client_OnLogon sid c = c\<lparr>cl_loggedOn := (cl_loggedOn c)(sid := True)\<rparr>"

definition Client_OnLogout :: "SessionID \<Rightarrow> 'w Client \<Rightarrow> 'w Client" where
  "Client_OnLogout sid c = c\<lparr>cl_loggedOn := (cl_loggedOn c)(sid := False)\<rparr>"

text \<open>The outbound message is mutated; an error of \<open>InjectLogon\<close> is only logged.\<close>

definition Client_ToAdmin :: "lib \<Rightarrow> environment \<Rightarrow> message \<Rightarrow> SessionID \<Rightarrow> 'w Client \<Rightarrow> message" where
  "Client_ToAdmin L getenv msg sid c =
     (case GetString (msg_header msg) tagMsgType of
        Inl err \<Rightarrow> msg
      | Inr msgType \<Rightarrow>
          if msgType \<noteq> ''A'' then msg else snd (InjectLogon L getenv msg sid (cl_Creds c)))"

definition Client_ToApp :: "message \<Rightarrow> SessionID \<Rightarrow> 'w Client \<Rightarrow> string option" where
  "Client_ToApp msg sid c = None"

definition Client_FromAdmin :: "message \<Rightarrow> SessionID \<Rightarrow> 'w Client \<Rightarrow> 'w \<Rightarrow> reject option \<times> 'w" where
  "Client_FromAdmin msg sid c w = (None, NoteInbound c sid InboundAdmin w)"

text \<open>A message of another type than Logon leaves the client as the engine built it.\<close>

lemma Client_ToAdmin_other:
  "msg_header msg tagMsgType \<noteq> Some ''A'' \<Longrightarrow> Client_ToAdmin L getenv msg sid c = msg"
  by (auto simp: Client_ToAdmin_def split: option.split)

lemma inbound_loop_append:
  "inbound_loop (fs @ gs) sid class w = inbound_loop gs sid class (inbound_loop fs sid class w)"
  by (induction fs arbitrary: w) simp_all

lemma NoteInbound_OnInbound:
  "NoteInbound (OnInbound fn c) sid class w = fn sid class (NoteInbound c sid class w)"
  by (simp add: NoteInbound_def OnInbound_def inbound_loop_append)

end
