(* ===== verification/OrderEntry.thy ===== *)
theory OrderEntry
  imports Client IdSource
begin

text \<open>
  The order-entry client (\<open>internal/client/oe.go\<close>): the ClOrdIDs it draws, the orders it sends
  and the view of its orders it builds from the execution reports it receives. The engine's
  \<open>SendToTarget\<close> is a parameter of \<open>Send\<close>, a function on an engine state \<open>'e\<close> that may answer
  an error. What the client prints is in \<open>ClientLog\<close>.
\<close>

definition msgTypeExecutionReport :: string where "msgTypeExecutionReport = ''8''"
definition msgTypeBusinessReject :: string where "msgTypeBusinessReject = ''j''"

record OrderView =
  ov_ClOrdID :: string
  ov_OrdStatus :: string
  ov_CumQty :: rat
  ov_LeavesQty :: rat
  ov_AvgPx :: rat
  ov_LastExecID :: string

record 'w OrderEntry =
  oe_Client :: "'w Client"
  oe_prefix :: string
  oe_seq :: nat
  oe_orders :: "string \<rightharpoonup> OrderView"
  oe_replays :: nat

definition NewOrderEntry :: "LogonCredentials \<Rightarrow> 'w OrderEntry" where
  "NewOrderEntry creds =
     \<lparr>oe_Client = NewClient creds, oe_prefix = [], oe_seq = 0, oe_orders = Map.empty, oe_replays = 0\<rparr>"

definition SetClOrdIDPrefix :: "string \<Rightarrow> 'w OrderEntry \<Rightarrow> 'w OrderEntry" where
  "SetClOrdIDPrefix p c = c\<lparr>oe_prefix := p\<rparr>"

definition ResetClOrdIDSeq :: "'w OrderEntry \<Rightarrow> 'w OrderEntry" where
  "ResetClOrdIDSeq c = c\<lparr>oe_seq := 0\<rparr>"

subsection \<open>Execution reports\<close>

text \<open>
  The fields are read in the source's order, the first one that fails is the answer; ExecType
  is required but not kept. \<open>PossDupFlag\<close> is optional: an error counts as \<open>N\<close>.
\<close>

definition read_view :: "lib \<Rightarrow> field_map \<Rightarrow> reject + OrderView" where
  "read_view L f =
     (case GetString f tagClOrdID of Inl e \<Rightarrow> Inl e | Inr clOrdID \<Rightarrow>
      case GetString f tagExecType of Inl e \<Rightarrow> Inl e | Inr execType \<Rightarrow>
      case GetString f tagOrdStatus of Inl e \<Rightarrow> Inl e | Inr ordStatus \<Rightarrow>
      case GetDec L f tagCumQty of Inl e \<Rightarrow> Inl e | Inr cumQty \<Rightarrow>
      case GetDec L f tagLeavesQty of Inl e \<Rightarrow> Inl e | Inr leavesQty \<Rightarrow>
      case GetDec L f tagAvgPx of Inl e \<Rightarrow> Inl e | Inr avgPx \<Rightarrow>
      case GetString f tagExecID of Inl e \<Rightarrow> Inl e | Inr execID \<Rightarrow>
        Inr \<lparr>ov_ClOrdID = clOrdID, ov_OrdStatus = ordStatus, ov_CumQty = cumQty,
             ov_LeavesQty = leavesQty, ov_AvgPx = avgPx, ov_LastExecID = execID\<rparr>)"

definition poss_dup :: "lib \<Rightarrow> message \<Rightarrow> bool" where
  "poss_dup L msg =
     (case GetBool L (msg_header msg) tagPossDupFlag of
        Inl _ \<Rightarrow> False
      | Inr v \<Rightarrow> if v then True else False)"

definition OE_onExecutionReport :: "lib \<Rightarrow> message \<Rightarrow> 'w OrderEntry \<Rightarrow> reject option \<times> 'w OrderEntry" where
  "OE_onExecutionReport L er c =
     (case read_view L (msg_body er) of
        Inl e \<Rightarrow> (Some e, c)
      | Inr v \<Rightarrow>
          let c1 = c\<lparr>oe_orders := (oe_orders c)(ov_ClOrdID v \<mapsto> v)\<rparr>
          in (None, if poss_dup L er then c1\<lparr>oe_replays := oe_replays c1 + 1\<rparr> else c1))"

definition OE_FromApp ::
  "lib \<Rightarrow> message \<Rightarrow> SessionID \<Rightarrow> 'w OrderEntry \<Rightarrow> 'w \<Rightarrow> reject option \<times> 'w OrderEntry \<times> 'w" where
  "OE_FromApp L msg sid c w =
     (let w1 = NoteInbound (oe_Client c) sid InboundApp w
      in case GetString (msg_header msg) tagMsgType of
           Inl err \<Rightarrow> (Some err, c, w1)
         | Inr msgType \<Rightarrow>
             if msgType = msgTypeExecutionReport
             then (case OE_onExecutionReport L msg c of (r, c1) \<Rightarrow> (r, c1, w1))
             else if msgType = msgTypeBusinessReject then (None, c, w1)
             else (Some (BusinessReject (UnsupportedMsgType msgType) 3), c, w1))"

definition ReplayCount :: "'w OrderEntry \<Rightarrow> nat" where
  "ReplayCount c = oe_replays c"

definition OE_Order :: "string \<Rightarrow> 'w OrderEntry \<Rightarrow> OrderView option" where
  "OE_Order clOrdID c = oe_orders c clOrdID"

subsection \<open>Sending orders\<close>

record NewOrder =
  no_Symbol :: string
  no_Side :: string
  no_OrderQty :: rat
  no_Price :: rat
  no_Account :: string

definition next_ClOrdID :: "'w OrderEntry \<Rightarrow> string \<times> 'w OrderEntry" where
  "next_ClOrdID c =
     (let n = oe_seq c + 1 in (''CL'' @ oe_prefix c @ fmt06 n, c\<lparr>oe_seq := n\<rparr>))"

definition new_order_message :: "lib \<Rightarrow> int \<Rightarrow> string \<Rightarrow> NewOrder \<Rightarrow> message" where
  "new_order_message L now clOrdID ord =
     (let m0 = \<lparr>msg_header = [tagMsgType \<mapsto> ''D''],
                msg_body = [tagClOrdID \<mapsto> clOrdID, tagSide \<mapsto> no_Side ord,
                            tagTransactTime \<mapsto> lib_showTime L now, tagOrdType \<mapsto> ''2'']\<rparr>;
          m1 = SetField tagSymbol (no_Symbol ord) m0;
          m2 = SetField tagOrderQty (lib_showDec L 0 (no_OrderQty ord)) m1;
          m3 = SetField tagPrice (lib_showDec L 2 (no_Price ord)) m2;
          m4 = SetField tagTimeInForce ''0'' m3
      in if no_Account ord \<noteq> [] then SetField tagAccount (no_Account ord) m4 else m4)"

text \<open>The number is drawn before the message is sent, and is not given back when that fails.\<close>

definition Send ::
  "lib \<Rightarrow> (message \<Rightarrow> SessionID \<Rightarrow> 'e \<Rightarrow> string option \<times> 'e) \<Rightarrow> int \<Rightarrow> SessionID \<Rightarrow> NewOrder
     \<Rightarrow> 'w OrderEntry \<Rightarrow> 'e \<Rightarrow> (string + string) \<times> 'w OrderEntry \<times> 'e" where
  "Send L SendToTarget now sid ord c e =
     (let (clOrdID, c1) = next_ClOrdID c
      in case SendToTarget (new_order_message L now clOrdID ord) sid e of
           (Some err, e1) \<Rightarrow> (Inl err, c1, e1)
         | (None, e1) \<Rightarrow> (Inr clOrdID, c1, e1))"

subsection \<open>Facts\<close>

interpretation clordids: id_source "\<lambda>c. next_ClOrdID (SetClOrdIDPrefix p c)" oe_seq
    "\<lambda>n. ''CL'' @ p @ fmt06 n" for p
  by unfold_locales (auto simp: next_ClOrdID_def SetClOrdIDPrefix_def Let_def inj_def fmt06_inj)

lemma read_view_Inr:
  "read_view L f = Inr v \<longleftrightarrow>
     f tagClOrdID = Some (ov_ClOrdID v) \<and> f tagExecType \<noteq> None \<and>
     f tagOrdStatus = Some (ov_OrdStatus v) \<and> GetDec L f tagCumQty = Inr (ov_CumQty v) \<and>
     GetDec L f tagLeavesQty = Inr (ov_LeavesQty v) \<and> GetDec L f tagAvgPx = Inr (ov_AvgPx v) \<and>
     f tagExecID = Some (ov_LastExecID v)"
  by (cases v) (auto simp: read_view_def split: sum.split option.split)

text \<open>A report the client can read: it has the type and all the fields.\<close>

definition readable :: "lib \<Rightarrow> message \<Rightarrow> bool" where
  "readable L m \<longleftrightarrow> msg_header m tagMsgType = Some ''8'' \<and> (\<exists>v. read_view L (msg_body m) = Inr v)"

lemma OE_FromApp_readable:
  assumes "msg_header m tagMsgType = Some ''8''" "read_view L (msg_body m) = Inr v"
  shows "OE_FromApp L m sid c w =
    (None, c\<lparr>oe_orders := (oe_orders c)(ov_ClOrdID v \<mapsto> v),
             oe_replays := oe_replays c + (if poss_dup L m then 1 else 0)\<rparr>,
     NoteInbound (oe_Client c) sid InboundApp w)"
  using assms
  by (simp add: OE_FromApp_def OE_onExecutionReport_def msgTypeExecutionReport_def Let_def)

end
