(* ===== verification/DropCopy.thy ===== *)
theory DropCopy
  imports OrderEntry
begin

text \<open>
  The drop-copy consumer (\<open>internal/client/dc.go\<close>): it records each execution report once, by
  ExecID, in the order of arrival, counts the others, and answers no message by its type.
  \<open>seen\<close> is a set of ExecIDs.
\<close>

record Report =
  rr_ExecID :: string
  rr_ClOrdID :: string
  rr_OrderID :: string
  rr_ExecType :: string
  rr_OrdStatus :: string
  rr_Replayed :: bool

record 'w DropCopy =
  dc_Client :: "'w Client"
  dc_seen :: "string set"
  dc_reports :: "Report list"
  dc_dupes :: nat

definition NewDropCopy :: "LogonCredentials \<Rightarrow> 'w DropCopy" where
  "NewDropCopy creds = \<lparr>dc_Client = NewClient creds, dc_seen = {}, dc_reports = [], dc_dupes = 0\<rparr>"

text \<open>The required fields in the source's order; ClOrdID and PossDupFlag are optional.\<close>

definition read_report :: "lib \<Rightarrow> message \<Rightarrow> reject + Report" where
  "read_report L er =
     (let f = msg_body er in
      case GetString f tagExecID of Inl e \<Rightarrow> Inl e | Inr execID \<Rightarrow>
      case GetString f tagExecType of Inl e \<Rightarrow> Inl e | Inr execType \<Rightarrow>
      case GetString f tagOrdStatus of Inl e \<Rightarrow> Inl e | Inr ordStatus \<Rightarrow>
      case GetString f tagOrderID of Inl e \<Rightarrow> Inl e | Inr orderID \<Rightarrow>
        Inr \<lparr>rr_ExecID = execID, rr_ClOrdID = get_or (GetString f tagClOrdID) [], rr_OrderID = orderID,
             rr_ExecType = execType, rr_OrdStatus = ordStatus, rr_Replayed = poss_dup L er\<rparr>)"

definition DC_onExecutionReport :: "lib \<Rightarrow> message \<Rightarrow> 'w DropCopy \<Rightarrow> reject option \<times> 'w DropCopy" where
  "DC_onExecutionReport L er c =
     (case read_report L er of
        Inl e \<Rightarrow> (Some e, c)
      | Inr r \<Rightarrow>
          if rr_ExecID r \<in> dc_seen c then (None, c\<lparr>dc_dupes := dc_dupes c + 1\<rparr>)
          else (None, c\<lparr>dc_seen := insert (rr_ExecID r) (dc_seen c),
                        dc_reports := dc_reports c @ [r]\<rparr>))"

definition DC_FromApp ::
  "lib \<Rightarrow> message \<Rightarrow> SessionID \<Rightarrow> 'w DropCopy \<Rightarrow> 'w \<Rightarrow> reject option \<times> 'w DropCopy \<times> 'w" where
  "DC_FromApp L msg sid c w =
     (let w1 = NoteInbound (dc_Client c) sid InboundApp w
      in case GetString (msg_header msg) tagMsgType of
           Inl err \<Rightarrow> (Some err, c, w1)
         | Inr msgType \<Rightarrow>
             if msgType \<noteq> ''8'' then (None, c, w1)
             else (case DC_onExecutionReport L msg c of (r, c1) \<Rightarrow> (r, c1, w1)))"

definition Reports :: "'w DropCopy \<Rightarrow> Report list" where
  "Reports c = dc_reports c"

definition Duplicates :: "'w DropCopy \<Rightarrow> nat" where
  "Duplicates c = dc_dupes c"

end
