(* ===== verification/Handlers.thy ===== *)
theory Handlers
  imports VenueProps
begin

text \<open>
  What the venue's handlers have in common. Whatever comes in, a handler changes the state in
  few ways: it leaves the orders and the sent messages alone, or it moves one order (or inserts
  one) and publishes the report of the move. The locale \<open>venue_closed\<close> is the interface of a
  property that these few ways keep; its lemmas carry it through every handler and every run.
  The feed, the outbox and the phases of the orders interpret it.
\<close>

text \<open>What a report says of the order it was made from: the move it reports.\<close>

definition moves :: "string \<Rightarrow> OrderState option \<Rightarrow> OrderState \<Rightarrow> bool" where
  "moves t found ord' \<longleftrightarrow>
     (case found of
        None \<Rightarrow> t = ExecTypeNew \<and> os_Status ord' = StatusNew
      | Some ord \<Rightarrow> IsOpen ord \<and>
          (t = ExecTypeTrade \<and> (os_Status ord' = StatusPartiallyFilled \<or> os_Status ord' = StatusFilled) \<or>
           t = ExecTypeCanceled \<and> os_Status ord' = StatusCanceled \<or>
           t = ExecTypeRejected \<and> os_Status ord' = StatusRejected))"

definition refusal_writes_nothing :: "order_update \<Rightarrow> bool" where
  "refusal_writes_nothing fn \<longleftrightarrow> (\<forall>ord. fst (fn ord) \<noteq> None \<longrightarrow> snd (fn ord) = ord)"

definition reports_move :: "order_update \<Rightarrow> string \<Rightarrow> OrderState \<Rightarrow> bool" where
  "reports_move fn t ord \<longleftrightarrow> (fst (fn ord) = None \<longrightarrow> moves t (Some ord) (snd (fn ord)))"

lemma refusals [simp]:
  "refusal_writes_nothing (apply_fill L i q p)" "refusal_writes_nothing (apply_cancel i)"
  "refusal_writes_nothing (apply_reject i)" "refusal_writes_nothing set_canceled"
  by (simp_all add: refusal_writes_nothing_def callback_defs Let_def)

lemma callbacks_move [simp]:
  "reports_move (apply_fill L i q p) ExecTypeTrade ord" "reports_move (apply_cancel i) ExecTypeCanceled ord"
  "reports_move (apply_reject i) ExecTypeRejected ord"
  "IsOpen ord \<Longrightarrow> reports_move set_canceled ExecTypeCanceled ord"
  by (simp_all add: reports_move_def moves_def callback_defs Let_def)

lemma Update_refused_Get:
  assumes "book_inv b" "keeps_identity fn" "refusal_writes_nothing fn" "fst (Update i fn b) = Inl err"
  shows "Get j (snd (Update i fn b)) = Get j b"
proof (cases "Get i b")
  case None
  then show ?thesis by (simp add: Update_None)
next
  case (Some ord)
  then have "fst (fn ord) \<noteq> None" using assms(4) by (auto simp: Update_fst split: option.splits)
  then have "snd (fn ord) = ord" using assms(3) by (simp add: refusal_writes_nothing_def)
  then show ?thesis
    using Some book.get_update_same [OF assms(1,2) Some] book.get_update_other [OF assms(1,2), of j i]
    by (cases "j = i") simp_all
qed

text \<open>\<open>Q\<close> is the property; \<open>may_silence\<close> says which settings of the silence it stands.\<close>

locale venue_closed =
  fixes L :: lib and Q :: "App \<Rightarrow> bool" and may_silence :: "bool \<Rightarrow> bool"
  assumes closed_book: "Q a \<Longrightarrow> book_inv (app_book a)"
    and closed_same: "Q a \<Longrightarrow> book_inv (app_book a') \<Longrightarrow>
      (\<And>i. Get i (app_book a') = Get i (app_book a)) \<Longrightarrow> app_kinds a' = app_kinds a \<Longrightarrow>
      app_outbox a' = app_outbox a \<Longrightarrow> app_silenced a' = app_silenced a \<Longrightarrow> Q a'"
    and closed_silence: "Q a \<Longrightarrow> may_silence v \<Longrightarrow> Q (SetSilenced v a)"
    and closed_publish: "Q a \<Longrightarrow> book_inv b \<Longrightarrow>
      moves (rp_execType r) (Get (os_ClOrdID (rp_order r)) (app_book a)) (rp_order r) \<Longrightarrow>
      Get (os_ClOrdID (rp_order r)) b = Some (rp_order r) \<Longrightarrow>
      (\<And>j. j \<noteq> os_ClOrdID (rp_order r) \<Longrightarrow> Get j b = Get j (app_book a)) \<Longrightarrow>
      Q (publish L r (a\<lparr>app_book := b\<rparr>))"
begin

lemma closed_refused:
  assumes "Q a" "keeps_identity fn" "refusal_writes_nothing fn" "fst (Update i fn (app_book a)) = Inl err"
  shows "Q (a\<lparr>app_book := snd (Update i fn (app_book a))\<rparr>)"
  using closed_same [OF assms(1), of "a\<lparr>app_book := snd (Update i fn (app_book a))\<rparr>"]
    Update_refused_Get [OF closed_book [OF assms(1)] assms(2-4)]
    book.inv_update [OF closed_book [OF assms(1)] assms(2), of i]
  by simp

lemma closed_updated:
  assumes "Q a" "keeps_identity fn" "\<And>ord. Get i (app_book a) = Some ord \<Longrightarrow> reports_move fn (rp_execType r) ord"
    and "fst (Update i fn (app_book a)) = Inr (rp_order r)"
  shows "Q (publish L r (a\<lparr>app_book := snd (Update i fn (app_book a))\<rparr>))"
proof -
  have inv: "book_inv (app_book a)" by (rule closed_book [OF assms(1)])
  obtain ord where ord: "Get i (app_book a) = Some ord" "fst (fn ord) = None" "snd (fn ord) = rp_order r"
    using assms(4) by (auto simp: Update_fst split: option.splits)
  then have "os_ClOrdID ord = i" by (auto simp: book_Get [OF inv] dest: log_get_Some)
  then have id: "os_ClOrdID (rp_order r) = i" using assms(2) unfolding keeps_identity_def ord(3) [symmetric] by simp
  have "moves (rp_execType r) (Get i (app_book a)) (rp_order r)"
    using assms(3) [OF ord(1)] ord by (simp add: reports_move_def)
  then show ?thesis
    using closed_publish [OF assms(1) book.inv_update [OF inv assms(2), of i], of r]
      book.get_update_same [OF inv assms(2) ord(1)] book.get_update_other [OF inv assms(2)] ord(3) id
    by simp
qed

lemma closed_Partial: "Q a \<Longrightarrow> Q (snd (Partial L i q p a))"
  using closed_refused [of a "apply_fill L i q p" i]
    closed_updated [of a "apply_fill L i q p" i "(mk_report ord ExecTypeTrade)\<lparr>rp_lastQty := q, rp_lastPx := p\<rparr>" for ord]
  by (auto simp: Partial_unfold Let_def mk_report_def split: sum.split)

lemma closed_Fill: "Q a \<Longrightarrow> Q (snd (Fill L i p a))"
  using closed_Partial by (simp add: Fill_def split: option.split)

lemma closed_Cancel: "Q a \<Longrightarrow> Q (snd (Cancel L i t a))"
  using closed_refused [of a "apply_cancel i" i]
    closed_updated [of a "apply_cancel i" i "(mk_report ord ExecTypeCanceled)\<lparr>rp_text := t\<rparr>" for ord]
  by (auto simp: Cancel_def mk_report_def case_prod_beta split: sum.split)

lemma closed_Reject: "Q a \<Longrightarrow> Q (snd (Reject L i t a))"
  using closed_refused [of a "apply_reject i" i]
    closed_updated [of a "apply_reject i" i "(mk_report ord ExecTypeRejected)\<lparr>rp_text := t\<rparr>" for ord]
  by (auto simp: Reject_def mk_report_def case_prod_beta split: sum.split)

lemma closed_cancel_loop:
  "Q a \<Longrightarrow> present xs a \<Longrightarrow> \<forall>ord \<in> set xs. IsOpen ord \<Longrightarrow> Q (cancel_loop L t xs a)"
proof (induction xs arbitrary: a)
  case (Cons ord xs)
  note step = cancel_loop_step [OF closed_book [OF Cons.prems(1)] Cons.prems(2), of L t]
  have get: "Get (os_ClOrdID ord) (app_book a) = Some ord" "IsOpen ord"
    using Cons.prems by (auto simp: present_def)
  have "Q (cancel_one L t ord a)"
    unfolding cancel_one_def
    using get by (intro closed_updated [OF Cons.prems(1)])
      (auto simp: mk_report_def Update_fst set_canceled_def [of ord])
  then show ?case using Cons.IH step(1,2) Cons.prems(3) by simp
qed simp

lemma closed_CancelAll: "Q a \<Longrightarrow> Q (snd (CancelAllOpenDay L t a))"
  using closed_cancel_loop [OF _ present_OpenDayOrders [OF closed_book]]
  by (simp add: CancelAllOpenDay_def Let_def OpenDayOrders_log)

lemma closed_NewOrder:
  assumes "Q a"
  shows "Q (snd (onNewOrderSingle L msg sid a))"
proof (cases "build_order L (msg_body msg)")
  case (Inl e)
  then show ?thesis using assms by (simp add: onNewOrderSingle_eq)
next
  case (Inr ord)
  have inv: "book_inv (app_book a)" by (rule closed_book [OF assms])
  let ?b = "snd (insert_new ord (app_book a))"
  have inv': "book_inv ?b" by (rule book.inv_insert [OF inv])
  show ?thesis
  proof (cases "Get (os_ClOrdID ord) (app_book a)")
    case (Some y)
    have "Get j ?b = Get j (app_book a)" for j
      using insert_new_dup [of ord "app_book a"] Some All_orders_alloc [OF inv, of "[ord]"]
        book_Get [OF inv, of j] book_Get [OF inv', of j]
      by simp
    then have "Q (a\<lparr>app_book := ?b\<rparr>)"
      using closed_same [OF assms, of "a\<lparr>app_book := ?b\<rparr>"] inv' by simp
    then show ?thesis
      using Inr Some insert_new_dup [of ord "app_book a"] by (simp add: onNewOrderSingle_eq)
  next
    case None
    let ?new = "accepted_as ord (app_book a)"
    have "All_orders ?b = All_orders (app_book a) @ [?new]"
      using insert_new_inv(2) [OF inv None] by (simp add: accepted_as_def)
    moreover have "log_get j [?new] = (if j = os_ClOrdID ord then Some ?new else None)" for j
      by (simp add: log_get_def accepted_as_def)
    ultimately have "Get j ?b = (if j = os_ClOrdID ord then Some ?new else Get j (app_book a))" for j
      using None by (auto simp: book_Get [OF inv] book_Get [OF inv'] log_get_append split: option.split)
    then have "Q (publish L (mk_report ?new ExecTypeNew) (a\<lparr>app_book := ?b\<rparr>))"
      using closed_publish [OF assms inv', of "mk_report ?new ExecTypeNew"] None
      by (simp add: mk_report_def accepted_as_def moves_def)
    then show ?thesis
      using Inr insert_new_ok [OF None] by (simp add: onNewOrderSingle_eq)
  qed
qed

text \<open>Every handler, and every run.\<close>

lemma closed_handle:
  assumes "Q a" "\<And>v. e = EvSilence v \<Longrightarrow> may_silence v"
  shows "Q (handle L e a)"
proof -
  have inv: "book_inv (app_book a)" by (rule closed_book [OF assms(1)])
  note same = closed_same [OF assms(1)]
  show ?thesis
  proof (cases e)
    case (EvFromApp msg sid)
    have "Q (noteReceived L msg sid a)" using inv by (intro same) (simp_all add: note_frame)
    then show ?thesis
      using EvFromApp FromApp_cases [of L msg sid a] closed_NewOrder by auto
  next
    case (EvExpire k)
    let ?a = "a\<lparr>app_timers := take k (app_timers a) @ drop (Suc k) (app_timers a)\<rparr>"
    have "Q ?a" using inv by (intro same) simp_all
    then show ?thesis
      using EvExpire closed_CancelAll [of ?a] by (simp add: run_timer_def cod_expire_def Let_def)
  next
    case (EvSilence v)
    then show ?thesis using assms closed_silence by simp
  next
    case (EvFromAdmin msg sid)
    then show ?thesis
      using inv by (intro same) (simp_all add: frame FromAdmin_def Let_def split: sum.split option.split)
  qed (use assms(1) closed_Partial closed_Fill closed_Cancel closed_Reject closed_CancelAll inv in
       \<open>auto intro!: same simp: frame SetRejectLogons_def ToAdmin_def ToApp_def noteSent_def
          split: sum.split\<close>)
qed

lemma closed_run:
  "venue_run L a es a' \<Longrightarrow> Q a \<Longrightarrow> \<forall>v. EvSilence v \<in> set es \<longrightarrow> may_silence v \<Longrightarrow> Q a'"
  by (induction rule: venue_run.induct) (auto intro: closed_handle)

end

end
