(* ===== verification/Feed.thy ===== *)
theory Feed
  imports DisconnectProps DropCopy Handlers
begin

text \<open>
  The venue's feed and the client at its end: the last report of every order the venue has
  sent on its order-entry session shows the order as the book has it, and the order-entry
  client keeps, for every ClOrdID, the last report it was handed.
\<close>

subsection \<open>The last report of an order\<close>

fun last_for :: "string \<Rightarrow> message list \<Rightarrow> message option" where
  "last_for i [] = None"
| "last_for i (m # ms) =
     (case last_for i ms of
        Some x \<Rightarrow> Some x
      | None \<Rightarrow> if msg_body m tagClOrdID = Some i then Some m else None)"

lemma last_for_append:
  "last_for i (xs @ ys) = (case last_for i ys of Some m \<Rightarrow> Some m | None \<Rightarrow> last_for i xs)"
  by (induction xs) (auto split: option.splits)

lemma last_for_mem: "last_for i ms = Some m \<Longrightarrow> m \<in> set ms \<and> msg_body m tagClOrdID = Some i"
  by (induction ms) (auto split: option.splits if_splits)

lemma last_for_None: "last_for i ms = None \<longleftrightarrow> (\<forall>m \<in> set ms. msg_body m tagClOrdID \<noteq> Some i)"
  by (induction ms) (auto split: option.splits if_splits)

text \<open>A replay of the end of a feed does not change what the last reports say.\<close>

lemma last_for_drop: "last_for i (drop k ms) = Some m \<Longrightarrow> last_for i ms = Some m"
  using last_for_append [of i "take k ms" "drop k ms"] by simp

subsection \<open>What the engine delivers\<close>

text \<open>
  The engine delivers a message with its body and type unchanged; the other header fields
  (sequence number, PossDupFlag, times) are its own.
\<close>

definition carries :: "message \<Rightarrow> message \<Rightarrow> bool" where
  "carries m' m \<longleftrightarrow> msg_body m' = msg_body m \<and> msg_header m' tagMsgType = msg_header m tagMsgType"

lemma carries_refl [simp]: "carries m m"
  by (simp add: carries_def)

lemma last_for_carries:
  "list_all2 carries ms' ms \<Longrightarrow> rel_option carries (last_for i ms') (last_for i ms)"
  by (induction rule: list_all2_induct) (auto simp: carries_def split: option.splits)

subsection \<open>The order-entry client at the end of a feed\<close>

fun oe_feed ::
  "lib \<Rightarrow> SessionID \<Rightarrow> message list \<Rightarrow> 'w OrderEntry \<Rightarrow> 'w \<Rightarrow> 'w OrderEntry \<times> 'w" where
  "oe_feed L sid [] c w = (c, w)"
| "oe_feed L sid (m # ms) c w = (case OE_FromApp L m sid c w of (r, c1, w1) \<Rightarrow> oe_feed L sid ms c1 w1)"

definition view_in :: "lib \<Rightarrow> message \<Rightarrow> OrderView" where
  "view_in L m = projr (read_view L (msg_body m))"

lemma readable_view:
  assumes "readable L m"
  shows "msg_header m tagMsgType = Some ''8''" "read_view L (msg_body m) = Inr (view_in L m)"
    "msg_body m tagClOrdID = Some (ov_ClOrdID (view_in L m))"
proof -
  obtain v where v: "msg_header m tagMsgType = Some ''8''" "read_view L (msg_body m) = Inr v"
    using assms by (auto simp: readable_def)
  then show "msg_header m tagMsgType = Some ''8''" "read_view L (msg_body m) = Inr (view_in L m)"
    "msg_body m tagClOrdID = Some (ov_ClOrdID (view_in L m))"
    using iffD1 [OF read_view_Inr v(2)] by (simp_all add: view_in_def)
qed

lemma oe_feed_view:
  assumes "\<forall>m \<in> set ms. readable L m"
  shows "oe_orders (fst (oe_feed L sid ms c w)) i =
           (case last_for i ms of None \<Rightarrow> oe_orders c i | Some m \<Rightarrow> Some (view_in L m)) \<and>
         oe_replays (fst (oe_feed L sid ms c w)) = oe_replays c + length (filter (poss_dup L) ms)"
  using assms
proof (induction ms arbitrary: c w)
  case (Cons m ms)
  from Cons.prems have m: "readable L m" and ms: "\<forall>m \<in> set ms. readable L m" by simp_all
  note view = readable_view [OF m]
  note step = OE_FromApp_readable [OF view(1,2), of sid c w]
  show ?case
    using Cons.IH [OF ms] view(3) by (simp add: step split: option.split)
qed simp

lemma oe_feed_append:
  "oe_feed L sid (xs @ ys) c w = (case oe_feed L sid xs c w of (c1, w1) \<Rightarrow> oe_feed L sid ys c1 w1)"
  by (induction xs arbitrary: c w) (auto split: prod.split)

lemma readable_carries: "carries m' m \<Longrightarrow> readable L m \<Longrightarrow> readable L m'"
  by (simp add: carries_def readable_def)

lemma view_carries: "carries m' m \<Longrightarrow> view_in L m' = view_in L m"
  by (simp add: carries_def view_in_def)

subsection \<open>The venue's side\<close>

text \<open>What the clients can read of a report, when the library reads every decimal it writes.\<close>

lemma build_view:
  assumes "dec_reads L"
  obtains v where "read_view L (msg_body (buildExecutionReport L now r)) = Inr v"
    "ov_ClOrdID v = os_ClOrdID (rp_order r)" "ov_OrdStatus v = os_Status (rp_order r)"
    "Some (ov_CumQty v) = lib_readDec L (lib_showDec L 0 (os_CumQty (rp_order r)))"
    "Some (ov_LeavesQty v) = lib_readDec L (lib_showDec L 0 (LeavesQty (rp_order r)))"
    "Some (ov_AvgPx v) = lib_readDec L (lib_showDec L 2 (os_AvgPx (rp_order r)))"
    "ov_LastExecID v = rp_execID r"
proof -
  define d where "d s v = the (lib_readDec L (lib_showDec L s v))" for s v
  have d: "lib_readDec L (lib_showDec L s v) = Some (d s v)" for s v
    using assms by (simp add: d_def dec_reads_def)
  let ?v = "\<lparr>ov_ClOrdID = os_ClOrdID (rp_order r), ov_OrdStatus = os_Status (rp_order r),
      ov_CumQty = d 0 (os_CumQty (rp_order r)), ov_LeavesQty = d 0 (LeavesQty (rp_order r)),
      ov_AvgPx = d 2 (os_AvgPx (rp_order r)), ov_LastExecID = rp_execID r\<rparr>"
  have "read_view L (msg_body (buildExecutionReport L now r)) = Inr ?v"
    by (simp add: read_view_Inr build_body getter_defs d)
  then show ?thesis by (rule that) (simp_all add: d)
qed

lemma build_readable:
  assumes "dec_reads L"
  shows "readable L (buildExecutionReport L now r)"
  unfolding readable_def using build_view [OF assms, of now r] by (auto simp: build_body)

text \<open>
  \<open>shown L oe a\<close>: everything the order-entry session was sent is a report, and the last one of
  each order carries the order as it is in the book.
\<close>

definition shows_order :: "lib \<Rightarrow> message list \<Rightarrow> string \<Rightarrow> OrderState option \<Rightarrow> bool" where
  "shows_order L ms i found \<longleftrightarrow>
     (case found of
        None \<Rightarrow> last_for i ms = None
      | Some ord \<Rightarrow> \<exists>now r. last_for i ms = Some (buildExecutionReport L now r) \<and> rp_order r = ord)"

lemma shows_order_new:
  "m = buildExecutionReport L now r \<Longrightarrow> os_ClOrdID (rp_order r) = i \<Longrightarrow>
     shows_order L (ms @ [m]) i (Some (rp_order r))"
  by (auto simp: shows_order_def last_for_append build_body)

lemma shows_order_other:
  "msg_body m tagClOrdID \<noteq> Some i \<Longrightarrow> shows_order L (ms @ [m]) i x = shows_order L ms i x"
proof -
  assume "msg_body m tagClOrdID \<noteq> Some i"
  then have "last_for i (ms @ [m]) = last_for i ms" by (simp add: last_for_append)
  then show ?thesis by (simp add: shows_order_def split: option.split)
qed

definition shown :: "lib \<Rightarrow> SessionID \<Rightarrow> App \<Rightarrow> bool" where
  "shown L oe a \<longleftrightarrow>
     sole KindOrderEntry a oe \<and> \<not> app_silenced a \<and> distinct (map fst (app_kinds a)) \<and>
     book_inv (app_book a) \<and>
     (\<forall>m \<in> set (messages_to oe a). \<exists>now r. m = buildExecutionReport L now r) \<and>
     (\<forall>i. shows_order L (messages_to oe a) i (Get i (app_book a)))"

lemma shown_book: "shown L oe a \<Longrightarrow> book_inv (app_book a)"
  by (simp add: shown_def)

lemma shown_publish:
  assumes "shown L oe a" "book_inv b"
    and "Get (os_ClOrdID (rp_order r)) b = Some (rp_order r)"
    and "\<And>j. j \<noteq> os_ClOrdID (rp_order r) \<Longrightarrow> Get j b = Get j (app_book a)"
  shows "shown L oe (publish L r (a\<lparr>app_book := b\<rparr>))"
proof -
  let ?a = "publish L r (a\<lparr>app_book := b\<rparr>)" and ?i = "os_ClOrdID (rp_order r)"
  let ?m = "next_message L r (a\<lparr>app_book := b\<rparr>)"
  have oe: "sole KindOrderEntry a oe" "distinct (map fst (app_kinds a))"
    and up: "\<not> app_silenced a"
    using assms(1) by (simp_all add: shown_def)
  then have sent: "messages_to oe ?a = messages_to oe a @ [?m]"
    using messages_to_publish_sole [of "a\<lparr>app_book := b\<rparr>" oe L r] by simp
  let ?r = "r\<lparr>rp_execID := fst (NextExecID b)\<rparr>"
  have m: "?m = buildExecutionReport L (app_now a) ?r" by (simp add: next_message_def)
  then have id: "msg_body ?m tagClOrdID = Some ?i" by (simp add: build_body)
  have "shows_order L (messages_to oe ?a) i (Get i b)" for i
  proof (cases "i = ?i")
    case True
    then show ?thesis
      using shows_order_new [OF m, of ?i "messages_to oe a"] assms(3) by (simp add: sent)
  next
    case False
    then show ?thesis
      using shows_order_other [of ?m i L "messages_to oe a"] id assms(1) assms(4) [of i]
      by (simp add: sent shown_def)
  qed
  moreover have "\<exists>now r'. ?m = buildExecutionReport L now r'" using m by blast
  ultimately show ?thesis
    using assms(1,2) oe up by (auto simp: shown_def sent)
qed

text \<open>A change of state that leaves the book's orders and the sent messages alone.\<close>

lemma shown_same:
  assumes "shown L oe a" "book_inv (app_book a')" "\<And>i. Get i (app_book a') = Get i (app_book a)"
    and "app_kinds a' = app_kinds a" "app_outbox a' = app_outbox a" "app_silenced a' = app_silenced a"
  shows "shown L oe a'"
  using assms by (simp add: shown_def messages_to_def sole_def)

text \<open>So every handler keeps it, unless it silences the venue.\<close>

interpretation shown: venue_closed L "shown L oe" "\<lambda>v. \<not> v" for L oe
proof
  fix a a' :: App
  assume "shown L oe a" "book_inv (app_book a')" "\<And>i. Get i (app_book a') = Get i (app_book a)"
    "app_kinds a' = app_kinds a" "app_outbox a' = app_outbox a" "app_silenced a' = app_silenced a"
  then show "shown L oe a'" by (rule shown_same)
next
  fix a v
  assume "shown L oe a" "\<not> v"
  then show "shown L oe (SetSilenced v a)"
    by (simp add: shown_def SetSilenced_def sole_def messages_to_def)
qed (blast intro: shown_book shown_publish)+

lemma shown_handle: "shown L oe a \<Longrightarrow> e \<noteq> EvSilence True \<Longrightarrow> shown L oe (handle L e a)"
  by (rule shown.closed_handle) auto

lemma shown_run: "venue_run L a es a' \<Longrightarrow> shown L oe a \<Longrightarrow> EvSilence True \<notin> set es \<Longrightarrow> shown L oe a'"
  by (rule shown.closed_run) auto

lemma LoadKinds_silenced:
  "LoadKinds getenv settings a = (r, a') \<Longrightarrow> app_silenced a' = app_silenced a"
proof (induction getenv settings a rule: LoadKinds.induct)
  case (2 getenv sid s rest a)
  have "app_silenced (capture_password getenv sid (RegisterKind sid k a)) = app_silenced a" for k
    by (simp add: capture_password_def RegisterKind_def split: sum.split)
  then show ?case using 2 by (auto simp: Let_def split: option.splits if_splits)
qed simp

lemma shown_started:
  assumes "started a" "sole KindOrderEntry a oe"
  shows "shown L oe a"
proof -
  obtain getenv settings where "LoadKinds getenv settings (New NewBook) = (None, a)"
    using assms(1) by (auto simp: started_def)
  from LoadKinds_frame [OF this] LoadKinds_silenced [OF this]
  have "app_book a = NewBook" "app_outbox a = []" "distinct (map fst (app_kinds a))" "\<not> app_silenced a"
    by (simp_all add: New_def)
  moreover have "Get i NewBook = None" for i by (simp add: Get_def NewBook_def)
  ultimately show ?thesis
    using assms(2) by (simp add: shown_def messages_to_def book_inv_NewBook shows_order_def)
qed

end
