(* ===== verification/Races.thy ===== *)
theory Races
  imports Feed
begin

text \<open>
  The handlers of \<open>internal/exchange\<close> as the goroutines run them. The engine calls the
  application from one goroutine per session, \<open>net/http\<close> runs each admin request in its own,
  and a timer of cancel on disconnect runs in a third kind. A handler holds the book's lock,
  or the application's, for one region at a time: an \<open>action\<close> is one region (or one unlocked
  read or send between two of them), \<open>act\<close> runs it and gives the actions its goroutine runs
  next, and a schedule says which goroutine moves. What a handler answers is left out: only the
  state is followed.
\<close>

datatype action =
    APartial string rat rat
  | AFill string rat
  | ACancel string string
  | AReject string string
  | AMassCancel string
  | ACancelOne string string
  | AExpire SessionID
  | ANewOrder message
  | AReadNew addr
  | APublish report
  | ADraw report bool
  | ASendOE report
  | ASendDC report
  | ASilence bool
  | ARejectLogons string
  | ALogon SessionID
  | ALogout SessionID
  | AArmTimer SessionID LogonRequest
  | ANoteSent message SessionID
  | ANoteReceived message SessionID
  | AAdmin message SessionID
  | ACheckPassword SessionID LogonRequest
  | AArmCod SessionID LogonRequest
  | AApp message SessionID

text \<open>An update of the book and, when the callback accepts, the publication of its report.\<close>

definition update_then ::
  "string \<Rightarrow> order_update \<Rightarrow> (OrderState \<Rightarrow> report) \<Rightarrow> App \<Rightarrow> action list \<times> App" where
  "update_then i fn rp a =
     (case Update i fn (app_book a) of
        (Inl err, b) \<Rightarrow> ([], a\<lparr>app_book := b\<rparr>)
      | (Inr updated, b) \<Rightarrow> ([APublish (rp updated)], a\<lparr>app_book := b\<rparr>))"

definition trade_report :: "rat \<Rightarrow> rat \<Rightarrow> OrderState \<Rightarrow> report" where
  "trade_report q p ord = (mk_report ord ExecTypeTrade)\<lparr>rp_lastQty := q, rp_lastPx := p\<rparr>"

definition cancel_report :: "string \<Rightarrow> OrderState \<Rightarrow> report" where
  "cancel_report t ord = (mk_report ord ExecTypeCanceled)\<lparr>rp_text := t\<rparr>"

definition reject_report :: "string \<Rightarrow> OrderState \<Rightarrow> report" where
  "reject_report t ord = (mk_report ord ExecTypeRejected)\<lparr>rp_text := t\<rparr>"

definition mass_report :: "string \<Rightarrow> OrderState \<Rightarrow> report" where
  "mass_report t ord = (mk_report ord ExecTypeCanceled)
     \<lparr>rp_text := t, rp_restatement := RestatementCancelOnDisconnect\<rparr>"

lemmas report_kinds = trade_report_def cancel_report_def reject_report_def mass_report_def

fun act :: "lib \<Rightarrow> action \<Rightarrow> App \<Rightarrow> action list \<times> App" where
  "act L (APartial i q p) a =
     (if q \<le> 0 then ([], a) else update_then i (apply_fill L i q p) (trade_report q p) a)"
| "act L (AFill i p) a =
     (case Get i (app_book a) of
        None \<Rightarrow> ([], a)
      | Some ord \<Rightarrow> ([APartial i (LeavesQty ord) p], a))"
| "act L (ACancel i t) a = update_then i (apply_cancel i) (cancel_report t) a"
| "act L (AReject i t) a = update_then i (apply_reject i) (reject_report t) a"
| "act L (AMassCancel t) a = (map (\<lambda>ord. ACancelOne t (os_ClOrdID ord)) (OpenDayOrders (app_book a)), a)"
| "act L (ACancelOne t i) a = update_then i set_canceled (mass_report t) a"
| "act L (AExpire sid) a = ((if app_loggedOn a sid then [] else [AMassCancel (cod_reason L sid)]), a)"
| "act L (ANewOrder msg) a =
     (case build_order L (msg_body msg) of
        Inl e \<Rightarrow> ([], a)
      | Inr ord \<Rightarrow>
          let (p, b1) = alloc ord (app_book a)
          in (case Insert p b1 of
                (Some err, b2) \<Rightarrow> ([], a\<lparr>app_book := b2\<rparr>)
              | (None, b2) \<Rightarrow> ([AReadNew p], a\<lparr>app_book := b2\<rparr>)))"
| "act L (AReadNew p) a = ([APublish (mk_report (deref (app_book a) p) ExecTypeNew)], a)"
| "act L (APublish r) a = ([ADraw r (app_silenced a)], a)"
| "act L (ADraw r silenced) a =
     (let (eid, b) = NextExecID (app_book a); r1 = r\<lparr>rp_execID := eid\<rparr>
      in ((if silenced then [] else [ASendOE r1, ASendDC r1]), a\<lparr>app_book := b\<rparr>))"
| "act L (ASendOE r) a =
     ([], case sessionOf (lib_range L (rp_execID r) KindOrderEntry) KindOrderEntry a of Some oe \<Rightarrow> send L r oe a | None \<Rightarrow> a)"
| "act L (ASendDC r) a =
     ([], case sessionOf (lib_range L (rp_execID r) KindDropCopy) KindDropCopy a of Some dc \<Rightarrow> send L r dc a | None \<Rightarrow> a)"
| "act L (ASilence v) a = ([], SetSilenced v a)"
| "act L (ARejectLogons reason) a = ([], SetRejectLogons reason a)"
| "act L (ALogon sid) a = ([], OnLogon sid a)"
| "act L (ALogout sid) a =
     (case app_cod a sid of
        None \<Rightarrow> []
      | Some req \<Rightarrow> if lr_CODType req \<noteq> CODDisabled then [AArmTimer sid req] else [],
      a\<lparr>app_loggedOn := (app_loggedOn a)(sid := False)\<rparr>)"
| "act L (AArmTimer sid req) a = ([], onSessionLost sid req a)"
| "act L (ANoteSent msg sid) a = ([], noteSent L msg sid a)"
| "act L (ANoteReceived msg sid) a = ([], noteReceived L msg sid a)"
| "act L (AAdmin msg sid) a =
     (case GetString (msg_header msg) tagMsgType of
        Inl err \<Rightarrow> []
      | Inr msgType \<Rightarrow>
          if msgType \<noteq> ''A'' \<or> app_rejectLogons a \<noteq> [] then []
          else [ACheckPassword sid (ParseLogon L msg sid)], a)"
| "act L (ACheckPassword sid req) a =
     (if checkPassword sid (lr_Password req) a = None then [AArmCod sid req] else [], a)"
| "act L (AArmCod sid req) a = ([], a\<lparr>app_cod := (app_cod a)(sid \<mapsto> req)\<rparr>)"
| "act L (AApp msg sid) a =
     (if kindOf sid a = KindDropCopy then []
      else case GetString (msg_header msg) tagMsgType of
             Inl err \<Rightarrow> []
           | Inr msgType \<Rightarrow> if msgType = ''D'' then [ANewOrder msg] else [], a)"

text \<open>The callbacks that begin with \<open>noteReceived\<close>: the actions of the goroutine that runs one.\<close>

definition from_admin :: "message \<Rightarrow> SessionID \<Rightarrow> action list" where
  "from_admin msg sid = [ANoteReceived msg sid, AAdmin msg sid]"

definition from_app :: "message \<Rightarrow> SessionID \<Rightarrow> action list" where
  "from_app msg sid = [ANoteReceived msg sid, AApp msg sid]"

text \<open>The goroutine of an event. The clock and the timers have rules of their own.\<close>

fun entry :: "event \<Rightarrow> action list" where
  "entry (EvLogon sid) = [ALogon sid]"
| "entry (EvLogout sid) = [ALogout sid]"
| "entry (EvToAdmin msg sid) = [ANoteSent msg sid]"
| "entry (EvToApp msg sid) = [ANoteSent msg sid]"
| "entry (EvFromAdmin msg sid) = from_admin msg sid"
| "entry (EvFromApp msg sid) = from_app msg sid"
| "entry (EvFill i p) = [AFill i p]"
| "entry (EvPartial i q p) = [APartial i q p]"
| "entry (EvCancel i t) = [ACancel i t]"
| "entry (EvReject i t) = [AReject i t]"
| "entry (EvCancelAll t) = [AMassCancel t]"
| "entry (EvSilence v) = [ASilence v]"
| "entry (EvRejectLogons t) = [ARejectLogons t]"
| "entry (Tick d) = []"
| "entry (EvExpire k) = []"

text \<open>
  A configuration is the state and the goroutines, each the list of the actions it has left.
  A step runs the first action of one of them, lets time pass, starts the goroutine of a timer
  that is due, or starts one for a callback or a command that comes in.
\<close>

type_synonym config = "App \<times> action list list"

inductive race_step :: "lib \<Rightarrow> config \<Rightarrow> config \<Rightarrow> bool" for L where
  race_act: "k < length ts \<Longrightarrow> ts ! k = x # rest \<Longrightarrow> act L x a = (follow, a') \<Longrightarrow>
     race_step L (a, ts) (a', ts[k := follow @ rest])"
| race_clock: "app_now a \<le> now \<Longrightarrow> race_step L (a, ts) (a\<lparr>app_now := now\<rparr>, ts)"
| race_timer: "app_timers a = before @ tm # after \<Longrightarrow> tm_deadline tm \<le> app_now a \<Longrightarrow>
     race_step L (a, ts) (a\<lparr>app_timers := before @ after\<rparr>, ts @ [[AExpire (tm_session tm)]])"
| race_arrive: "race_step L (a, ts) (a, ts @ [entry e])"

inductive_cases race_stepE: "race_step L c c'"

inductive races :: "lib \<Rightarrow> config \<Rightarrow> config \<Rightarrow> bool" for L where
  races_refl: "races L c c"
| races_step: "races L c d \<Longrightarrow> race_step L d e \<Longrightarrow> races L c e"

text \<open>What a venue that has started with no goroutine can come to.\<close>

definition race_reachable :: "lib \<Rightarrow> config \<Rightarrow> bool" where
  "race_reachable L c \<longleftrightarrow> (\<exists>a. started a \<and> races L (a, []) c)"

text \<open>A schedule: the goroutines that move, in order. One that is out of actions does nothing.\<close>

definition move :: "lib \<Rightarrow> nat \<Rightarrow> config \<Rightarrow> config" where
  "move L k c =
     (case c of (a, ts) \<Rightarrow>
        if k < length ts
        then (case ts ! k of [] \<Rightarrow> (a, ts)
              | x # rest \<Rightarrow> (case act L x a of (follow, a') \<Rightarrow> (a', ts[k := follow @ rest])))
        else (a, ts))"

fun run_schedule :: "lib \<Rightarrow> nat list \<Rightarrow> config \<Rightarrow> config" where
  "run_schedule L [] c = c"
| "run_schedule L (k # ks) c = run_schedule L ks (move L k c)"

lemma move_cases: "move L k c = c \<or> race_step L c (move L k c)"
proof (cases c)
  case (Pair a ts)
  show ?thesis
  proof (cases "k < length ts \<and> ts ! k \<noteq> []")
    case True
    then obtain x rest where x: "ts ! k = x # rest" by (cases "ts ! k") auto
    obtain follow a' where act: "act L x a = (follow, a')" by force
    with True x have "race_step L (a, ts) (a', ts[k := follow @ rest])" by (auto intro: race_act)
    then show ?thesis using Pair True x act by (simp add: move_def)
  qed (auto simp: move_def Pair split: list.split)
qed

lemma move_races: "races L c d \<Longrightarrow> races L c (move L k d)"
  using move_cases [of L k d] by (auto intro: races_step)

lemma run_schedule_races: "races L c d \<Longrightarrow> races L c (run_schedule L ks d)"
proof (induction ks arbitrary: d)
  case (Cons k ks)
  then show ?case using move_races by simp
qed simp

subsection \<open>A goroutine that is not interrupted\<close>

text \<open>Enough moves of one goroutine run its handler; \<open>alone\<close> runs it to the end.\<close>

inductive alone :: "lib \<Rightarrow> action list \<Rightarrow> App \<Rightarrow> App \<Rightarrow> bool" for L where
  alone_Nil: "alone L [] a a"
| alone_Cons: "act L x a = (follow, a') \<Longrightarrow> alone L (follow @ rest) a' b \<Longrightarrow> alone L (x # rest) a b"

inductive_simps alone_Nil_iff [simp]: "alone L [] a b"
inductive_simps alone_Cons_iff: "alone L (x # rest) a b"

lemma alone_publish: "alone L (APublish r # rest) a b \<longleftrightarrow> alone L rest (publish L r a) b"
  by (auto simp: alone_Cons_iff publish_def Let_def NextExecID_def)

lemma alone_update:
  "alone L (fst (update_then i fn rp a) @ rest) (snd (update_then i fn rp a)) b \<longleftrightarrow>
     alone L rest
       (case Update i fn (app_book a) of
          (Inl err, bk) \<Rightarrow> a\<lparr>app_book := bk\<rparr>
        | (Inr updated, bk) \<Rightarrow> publish L (rp updated) (a\<lparr>app_book := bk\<rparr>)) b"
  by (auto simp: update_then_def alone_publish split: prod.split sum.split)

lemma alone_act:
  "alone L (x # rest) a b \<longleftrightarrow> alone L (fst (act L x a) @ rest) (snd (act L x a)) b"
  by (cases "act L x a") (simp add: alone_Cons_iff)

lemma alone_Partial: "alone L (APartial i q p # rest) a b \<longleftrightarrow> alone L rest (snd (Partial L i q p a)) b"
  by (auto simp: alone_act alone_update Partial_def trade_report_def split: prod.split sum.split)

lemma alone_cancel_loop:
  "alone L (map (\<lambda>ord. ACancelOne t (os_ClOrdID ord)) xs @ rest) a b \<longleftrightarrow> alone L rest (cancel_loop L t xs a) b"
proof (induction xs arbitrary: a)
  case (Cons ord xs)
  then show ?case
    by (auto simp: alone_act alone_update mass_report_def split: prod.split sum.split)
qed simp

lemma alone_mass: "alone L (AMassCancel t # rest) a b \<longleftrightarrow> alone L rest (snd (CancelAllOpenDay L t a)) b"
  by (simp add: alone_act alone_cancel_loop CancelAllOpenDay_def Let_def)

lemma alone_Fill: "alone L (AFill i p # rest) a b \<longleftrightarrow> alone L rest (snd (Fill L i p a)) b"
  by (simp add: alone_act [of L "AFill i p"] alone_Partial Fill_def split: option.split)

lemma alone_Cancel: "alone L (ACancel i t # rest) a b \<longleftrightarrow> alone L rest (snd (Cancel L i t a)) b"
  by (auto simp: alone_act alone_update Cancel_def cancel_report_def split: prod.split sum.split)

lemma alone_Reject: "alone L (AReject i t # rest) a b \<longleftrightarrow> alone L rest (snd (Reject L i t a)) b"
  by (auto simp: alone_act alone_update Reject_def reject_report_def split: prod.split sum.split)

lemma alone_Expire: "alone L (AExpire sid # rest) a b \<longleftrightarrow> alone L rest (cod_expire L sid a) b"
  by (simp add: alone_act [of L "AExpire sid"] alone_mass cod_expire_def Let_def)

lemma alone_ReadNew:
  "alone L (AReadNew p # rest) a b \<longleftrightarrow>
     alone L rest (publish L (mk_report (deref (app_book a) p) ExecTypeNew) a) b"
  by (simp add: alone_act [of L "AReadNew p"] alone_publish)

lemma alone_NewOrder:
  "alone L (ANewOrder msg # rest) a b \<longleftrightarrow> alone L rest (snd (onNewOrderSingle L msg sid a)) b"
proof (cases "build_order L (msg_body msg)")
  case (Inr ord)
  obtain p b1 where al: "alloc ord (app_book a) = (p, b1)" by force
  obtain r b2 where ins: "Insert p b1 = (r, b2)" by force
  then show ?thesis
    using Inr al
    by (cases r) (simp_all add: alone_act [of L "ANewOrder msg"] alone_ReadNew onNewOrderSingle_def Let_def)
qed (simp add: alone_act [of L "ANewOrder msg"] onNewOrderSingle_def)

lemma alone_single: "act L x a = ([], a') \<Longrightarrow> alone L (x # rest) a b \<longleftrightarrow> alone L rest a' b"
  by (simp add: alone_act)

lemma alone_Logout: "alone L (ALogout sid # rest) a b \<longleftrightarrow> alone L rest (OnLogout sid a) b"
  by (auto simp: alone_act [of L "ALogout sid"] alone_single OnLogout_def onSessionLost_def Let_def
      split: option.split)

lemma alone_AArmCod:
  "alone L (AArmCod sid req # rest) a b \<longleftrightarrow> alone L rest (a\<lparr>app_cod := (app_cod a)(sid \<mapsto> req)\<rparr>) b"
  by (simp add: alone_single)

lemma alone_FromAdmin: "alone L (from_admin msg sid @ rest) a b \<longleftrightarrow> alone L rest (snd (FromAdmin L msg sid a)) b"
  by (auto simp: from_admin_def FromAdmin_def Let_def alone_act [of L "ANoteReceived msg sid"]
      alone_act [of L "AAdmin msg sid"] alone_act [of L "ACheckPassword sid req" for req] alone_AArmCod
      split: sum.split option.split)

lemma alone_FromApp: "alone L (from_app msg sid @ rest) a b \<longleftrightarrow> alone L rest (snd (FromApp L msg sid a)) b"
  by (auto simp: from_app_def FromApp_def Let_def alone_act [of L "ANoteReceived msg sid"]
      alone_act [of L "AApp msg sid"] alone_NewOrder [of L _ _ _ _ sid] split: sum.split)

definition has_goroutine :: "event \<Rightarrow> bool" where
  "has_goroutine e = (case e of Tick _ \<Rightarrow> False | EvExpire _ \<Rightarrow> False | _ \<Rightarrow> True)"

lemma alone_entry: "has_goroutine e \<Longrightarrow> alone L (entry e @ rest) a b \<longleftrightarrow> alone L rest (handle L e a) b"
  by (cases e) (simp_all add: has_goroutine_def alone_Partial alone_Fill alone_Cancel alone_Reject
      alone_mass alone_Logout alone_FromAdmin alone_FromApp alone_single ToAdmin_def ToApp_def)

text \<open>
  The actions are the handlers: a goroutine that is not interrupted and runs the actions of
  a callback or of a command to their end leaves exactly the state its handler leaves, and the
  goroutine of a timer the one the timer's function leaves.
\<close>

theorem actions_refine_handlers:
  "(if has_goroutine e then alone L (entry e) a b \<longleftrightarrow> b = handle L e a else entry e = []) \<and>
   (alone L [AExpire sid] a b \<longleftrightarrow> b = cod_expire L sid a)"
  using alone_entry [of e L "[]"] alone_Expire [of L sid "[]"]
  by (cases e) (simp_all add: has_goroutine_def eq_commute)

subsection \<open>Runs of one goroutine inside a race\<close>

lemma races_trans: "races L d e \<Longrightarrow> races L c d \<Longrightarrow> races L c e"
  by (induction rule: races.induct) (auto intro: races_step)

lemma races_one: "race_step L c d \<Longrightarrow> races L c d"
  by (blast intro: races_refl races_step)

lemma alone_races:
  "alone L xs a b \<Longrightarrow> k < length ts \<Longrightarrow> ts ! k = xs @ rest \<Longrightarrow> races L (a, ts) (b, ts[k := rest])"
proof (induction arbitrary: ts rule: alone.induct)
  case (alone_Nil a)
  then have "ts[k := rest] = ts" by (simp add: list_update_same_conv)
  then show ?case by (simp add: races_refl)
next
  case (alone_Cons x a follow a' xs b)
  let ?ts = "ts[k := follow @ (xs @ rest)]"
  have "race_step L (a, ts) (a', ?ts)"
    using alone_Cons.hyps(1) alone_Cons.prems by (intro race_act [of k ts x]) auto
  note one = races_one [OF this]
  have "races L (a', ?ts) (b, ?ts[k := rest])"
    using alone_Cons.prems(1) by (intro alone_Cons.IH) simp_all
  from races_trans [OF this one] show ?case by simp
qed

lemma alone_races_from:
  "races L c (a, ts) \<Longrightarrow> alone L xs a b \<Longrightarrow> k < length ts \<Longrightarrow> ts ! k = xs @ rest \<Longrightarrow>
     races L c (b, ts[k := rest])"
  using alone_races races_trans by blast

lemma alone_races_last:
  "races L c (a, ts @ [xs]) \<Longrightarrow> alone L xs a b \<Longrightarrow> races L c (b, ts @ [[]])"
  using alone_races_from [of L c a "ts @ [xs]" xs b "length ts" "[]"] by simp

text \<open>An event that is handled at once is some steps of a race.\<close>

lemma handle_races:
  assumes "enabled e a" "races L c (a, ts)" "\<forall>t \<in> set ts. t = []"
  shows "\<exists>us. races L c (handle L e a, us) \<and> (\<forall>t \<in> set us. t = [])"
proof (cases "has_goroutine e")
  case True
  have "races L c (a, ts @ [entry e])" using assms(2) race_arrive by (rule races_step)
  then have "races L c (handle L e a, ts @ [[]])"
    using alone_entry [OF True, of L "[]"] by (auto intro: alone_races_last)
  then show ?thesis using assms(3) by (intro exI [of _ "ts @ [[]]"]) simp
next
  case False
  then consider (tick) d where "e = Tick d" | (expire) k where "e = EvExpire k"
    by (cases e) (auto simp: has_goroutine_def)
  then show ?thesis
  proof cases
    case tick
    have "race_step L (a, ts) (a\<lparr>app_now := app_now a + d\<rparr>, ts)"
      using assms(1) tick by (intro race_clock) simp
    with assms(2) have "races L c (handle L e a, ts)" unfolding tick by (auto intro: races_step)
    then show ?thesis using assms(3) by blast
  next
    case expire
    let ?tm = "app_timers a ! k"
    let ?a = "a\<lparr>app_timers := take k (app_timers a) @ drop (Suc k) (app_timers a)\<rparr>"
    have "app_timers a = take k (app_timers a) @ ?tm # drop (Suc k) (app_timers a)"
      using assms(1) expire by (simp add: id_take_nth_drop)
    then have "race_step L (a, ts) (?a, ts @ [[AExpire (tm_session ?tm)]])"
      using assms(1) expire by (intro race_timer) simp_all
    then have "races L c (?a, ts @ [[AExpire (tm_session ?tm)]])" by (rule races_step [OF assms(2)])
    then have "races L c (handle L e a, ts @ [[]])"
      by (rule alone_races_last) (simp add: expire alone_Expire run_timer_def Let_def)
    then show ?thesis using assms(3) by (intro exI [of _ "ts @ [[]]"]) simp
  qed
qed

lemma run_races:
  "venue_run L a es b \<Longrightarrow> races L c (a, ts) \<Longrightarrow> \<forall>t \<in> set ts. t = [] \<Longrightarrow>
     \<exists>us. races L c (b, us) \<and> (\<forall>t \<in> set us. t = [])"
proof (induction arbitrary: ts rule: venue_run.induct)
  case (run_Cons e a es b)
  obtain us where "races L c (handle L e a, us)" "\<forall>t \<in> set us. t = []"
    using handle_races [OF run_Cons.hyps(1) run_Cons.prems] by blast
  then show ?case by (rule run_Cons.IH)
qed blast

text \<open>
  The sequential model is part of the interleaved one: every state the venue reaches by
  handling its events one after the other is reached by its goroutines too, with all of them
  finished.
\<close>

theorem runs_are_schedules:
  assumes "reachable L a"
  shows "\<exists>ts. race_reachable L (a, ts) \<and> concat ts = []"
proof -
  obtain a0 es where "started a0" "venue_run L a0 es a" using assms by (auto simp: reachable_def)
  then show ?thesis
    using run_races [OF _ races_refl, of L a0 es a "[]"] unfolding race_reachable_def by fastforce
qed

subsection \<open>What interference cannot do\<close>

text \<open>
  How an order may change when handlers interleave: its terms stay, its executed quantity
  grows up to the order quantity at most, and a closed order stays as it is but for one thing:
  the mass cancel may write \<open>canceled\<close> over its status.
\<close>

definition cum_ok :: "OrderState \<Rightarrow> bool" where
  "cum_ok ord \<longleftrightarrow> os_CumQty ord = 0 \<or> (0 < os_CumQty ord \<and> os_CumQty ord \<le> os_OrderQty ord)"

definition raced :: "OrderState \<Rightarrow> OrderState \<Rightarrow> bool" where
  "raced ord ord' \<longleftrightarrow> same_terms ord ord' \<and> os_CumQty ord \<le> os_CumQty ord' \<and>
     (\<not> IsOpen ord \<longrightarrow> ord' = ord \<or> ord' = ord\<lparr>os_Status := StatusCanceled\<rparr>)"

lemma raced_refl [simp]: "raced ord ord"
  by (simp add: raced_def same_terms_def)

lemma raced_trans: "raced x y \<Longrightarrow> raced y z \<Longrightarrow> raced x z"
proof -
  assume xy: "raced x y" and yz: "raced y z"
  have "\<not> IsOpen (x\<lparr>os_Status := StatusCanceled\<rparr>)" by (simp add: IsOpen_def venue_consts)
  then have "z = x \<or> z = x\<lparr>os_Status := StatusCanceled\<rparr>" if shut: "\<not> IsOpen x"
  proof -
    consider "y = x" | "y = x\<lparr>os_Status := StatusCanceled\<rparr>" using xy shut unfolding raced_def by blast
    then show ?thesis
    proof cases
      case 1
      with yz shut show ?thesis unfolding raced_def by blast
    next
      case 2
      with yz \<open>\<not> IsOpen (x\<lparr>os_Status := StatusCanceled\<rparr>)\<close>
      have "z = y \<or> z = y\<lparr>os_Status := StatusCanceled\<rparr>" unfolding raced_def by blast
      moreover have "y\<lparr>os_Status := StatusCanceled\<rparr> = y" unfolding 2 by simp
      ultimately show ?thesis using 2 by metis
    qed
  qed
  moreover have "same_terms x z" "os_CumQty x \<le> os_CumQty z"
    using xy yz unfolding raced_def same_terms_def by (metis, metis order_trans)
  ultimately show "raced x z" unfolding raced_def by blast
qed

lemma raced_callbacks:
  "0 < q \<Longrightarrow> raced ord (snd (apply_fill L i q p ord))" "raced ord (snd (apply_cancel i ord))"
  "raced ord (snd (apply_reject i ord))" "raced ord (snd (set_canceled ord))"
  by (simp_all add: raced_def same_terms_def callback_defs Let_def)

lemma cum_ok_callbacks:
  "0 < q \<Longrightarrow> cum_ok ord \<Longrightarrow> cum_ok (snd (apply_fill L i q p ord))"
  "cum_ok ord \<Longrightarrow> cum_ok (snd (apply_cancel i ord))"
  "cum_ok ord \<Longrightarrow> cum_ok (snd (apply_reject i ord))" "cum_ok ord \<Longrightarrow> cum_ok (snd (set_canceled ord))"
  by (auto simp: cum_ok_def callback_defs Let_def LeavesQty_def split: if_splits)

definition race_book :: "App \<Rightarrow> bool" where
  "race_book a \<longleftrightarrow> book_inv (app_book a) \<and> (\<forall>ord \<in> set (Orders a). cum_ok ord)"

text \<open>The orders of one state, each moved on by \<open>raced\<close>, with new ones after them.\<close>

definition race_extends :: "OrderState list \<Rightarrow> OrderState list \<Rightarrow> bool" where
  "race_extends xs ys \<longleftrightarrow> (\<exists>mid new. ys = mid @ new \<and> list_all2 raced xs mid)"

lemma race_extends_refl [simp]: "race_extends xs xs"
  unfolding race_extends_def by (metis append_Nil2 list.rel_refl raced_refl)

lemma race_extends_trans:
  assumes "race_extends xs ys" "race_extends ys zs"
  shows "race_extends xs zs"
proof -
  obtain m n where ys: "ys = m @ n" "list_all2 raced xs m" using assms(1) by (auto simp: race_extends_def)
  obtain m' n' where zs: "zs = m' @ n'" "list_all2 raced ys m'" using assms(2) by (auto simp: race_extends_def)
  obtain u v where m': "m' = u @ v" "list_all2 raced m u"
    using ys(1) zs(2) by (auto simp: list_all2_append1)
  have "list_all2 raced xs u" using list_all2_trans [OF raced_trans ys(2) m'(2)] .
  then show ?thesis using zs(1) m'(1) by (auto simp: race_extends_def)
qed

lemma race_update:
  assumes "race_book a" "keeps_identity fn"
    and "\<And>ord. raced ord (snd (fn ord))" "\<And>ord. cum_ok ord \<Longrightarrow> cum_ok (snd (fn ord))"
  shows "race_book (snd (update_then i fn rp a)) \<and>
    race_extends (Orders a) (Orders (snd (update_then i fn rp a)))"
proof -
  let ?b = "snd (Update i fn (app_book a))"
  have inv: "book_inv (app_book a)" and ok: "\<forall>ord \<in> set (All_orders (app_book a)). cum_ok ord"
    using assms(1) by (auto simp: race_book_def Orders_def)
  have state: "app_book (snd (update_then i fn rp a)) = ?b"
    by (auto simp: update_then_def split: prod.split sum.split)
  have "list_all2 raced (All_orders (app_book a)) (All_orders ?b)"
    by (rule book.update_rel [OF inv]) (simp_all add: assms(3))
  then have "race_extends (Orders a) (All_orders ?b)"
    unfolding race_extends_def Orders_def by (metis append_Nil2)
  then show ?thesis
    using book.inv_update [OF inv assms(2), of i] book.update_all [OF inv ok, of i fn] assms(4)
    by (simp add: race_book_def Orders_def state)
qed

lemma act_book:
  assumes "race_book a" "act L x a = (follow, a')"
  shows "race_book a' \<and> race_extends (Orders a) (Orders a')"
proof -
  note upd = race_update [OF assms(1)]
  have same: "race_book b \<and> race_extends (Orders a) (Orders b)" if "app_book b = app_book a" for b
    using assms(1) that by (simp add: race_book_def Orders_def)
  show ?thesis
  proof (cases x)
    case (APartial i q p)
    then show ?thesis
      using assms upd [of "apply_fill L i q p" i "trade_report q p"] raced_callbacks(1) cum_ok_callbacks(1)
      by (auto split: if_splits)
  next
    case (ACancel i t)
    then show ?thesis
      using assms upd [of "apply_cancel i" i "cancel_report t"] raced_callbacks(2) cum_ok_callbacks(2) by auto
  next
    case (AReject i t)
    then show ?thesis
      using assms upd [of "apply_reject i" i "reject_report t"] raced_callbacks(3) cum_ok_callbacks(3) by auto
  next
    case (ACancelOne t i)
    then show ?thesis
      using assms upd [of set_canceled i "mass_report t"] raced_callbacks(4) cum_ok_callbacks(4) by auto
  next
    case (ANewOrder msg)
    show ?thesis
    proof (cases "build_order L (msg_body msg)")
      case (Inr ord)
      have inv: "book_inv (app_book a)" and ok: "\<forall>x \<in> set (All_orders (app_book a)). cum_ok x"
        using assms(1) by (auto simp: race_book_def Orders_def)
      have "app_book a' = snd (insert_new ord (app_book a))"
        using assms(2) ANewOrder Inr
        by (auto simp: insert_new_def Let_def split: prod.splits option.splits)
      moreover have "os_CumQty ord = 0" using Inr by (simp add: build_order_fresh)
      moreover obtain new where "All_orders (snd (insert_new ord (app_book a))) = All_orders (app_book a) @ new"
        using book.insert_prefix [OF inv] by blast
      moreover have "list_all2 raced (Orders a) (Orders a)" by (simp add: list.rel_refl)
      ultimately show ?thesis
        using book.inv_insert [OF inv] book.insert_all [OF inv ok, of ord]
        by (auto simp: race_book_def race_extends_def Orders_def cum_ok_def)
    qed (use ANewOrder assms in simp)
  next
    case (ADraw r silenced)
    then have "app_book a' = snd (NextExecID (app_book a))"
      using assms(2) by (auto simp: Let_def split: prod.splits)
    then show ?thesis using assms(1) by (simp add: race_book_def Orders_def)
  qed (use assms same in \<open>auto simp: SetSilenced_def SetRejectLogons_def OnLogon_def frame noteSent_def
      noteReceived_def onSessionLost_def split: option.splits sum.splits\<close>)
qed

lemma races_book:
  "races L c d \<Longrightarrow> race_book (fst c) \<Longrightarrow> race_book (fst d) \<and> race_extends (Orders (fst c)) (Orders (fst d))"
proof (induction rule: races.induct)
  case (races_step c d e)
  from races_step.hyps(2) races_step.IH [OF races_step.prems] show ?case
  proof cases
    case (race_act k ts x rest a follow a')
    then show ?thesis
      using races_step.IH [OF races_step.prems] act_book [of a L x follow a'] race_extends_trans by auto
  qed (auto simp: race_book_def Orders_def)
qed simp

end
