(* ===== verification/RaceProps.thy ===== *)
theory RaceProps
  imports Races
begin

text \<open>
  The life of an order however the venue's goroutines interleave, and the closed runs the
  theorems on races are tried on.
\<close>

subsection \<open>The life of an order under interference\<close>

lemma venue_inv_race_book: "venue_inv a \<Longrightarrow> race_book a"
  by (auto simp: venue_inv_def book_ok_def race_book_def order_ok_def cum_ok_def)

lemma race_Get:
  assumes "race_book a" "race_book b" "race_extends (Orders a) (Orders b)" "Get i (app_book a) = Some ord"
  shows "\<exists>ord'. Get i (app_book b) = Some ord' \<and> raced ord ord' \<and> cum_ok ord'"
proof -
  have inv: "book_inv (app_book a)" "book_inv (app_book b)" using assms(1,2) by (simp_all add: race_book_def)
  have ord: "ord \<in> set (Orders a)" "os_ClOrdID ord = i"
    using assms(4) by (auto simp: Orders_def book_Get [OF inv(1)] dest: log_get_Some)
  obtain mid new where mid: "Orders b = mid @ new" "list_all2 raced (Orders a) mid"
    using assms(3) by (auto simp: race_extends_def)
  obtain n where "n < length (Orders a)" "Orders a ! n = ord" using ord(1) by (auto simp: in_set_conv_nth)
  with mid have raced: "raced ord (mid ! n)" and mem: "mid ! n \<in> set (Orders b)"
    by (auto simp: list_all2_conv_all_nth)
  then have "os_ClOrdID (mid ! n) = i" using ord(2) by (simp add: raced_def same_terms_def)
  then have "Get i (app_book b) = Some (mid ! n)"
    using mem log_get_iff [OF book_distinct_ids [OF inv(2)]] by (simp add: book_Get [OF inv(2)] Orders_def)
  then show ?thesis using raced mem assms(2) by (auto simp: race_book_def)
qed

lemma race_reachable_book: "race_reachable L c \<Longrightarrow> race_book (fst c)"
  unfolding race_reachable_def
  using races_book venue_inv_race_book [OF reachable_inv [OF started_reachable]] by fastforce

lemma race_reachable_races: "race_reachable L c \<Longrightarrow> races L c d \<Longrightarrow> race_reachable L d"
  unfolding race_reachable_def using races_trans by blast

text \<open>
  C10. Under any interleaving of any handlers, an order of the book stays in the book with its
  terms, its executed quantity never shrinks and never exceeds the order quantity, and once it
  is closed the only thing that can still happen to it is that its status becomes canceled.
\<close>

theorem race_orders:
  assumes "race_reachable L (a, ts)" "races L (a, ts) (b, us)" "Get i (app_book a) = Some ord"
  shows "\<exists>ord'. Get i (app_book b) = Some ord' \<and> raced ord ord' \<and> cum_ok ord'"
  using race_Get [OF _ _ _ assms(3), of b] races_book [OF assms(2)] race_reachable_book [OF assms(1)]
  by simp

definition demo_traded :: App where
  "demo_traded = run_events demo_lib [EvFromApp (demo_order ''C1'' ''0'') demo_oe] demo_start"

lemma demo_traded_reachable: "reachable demo_lib demo_traded"
  unfolding demo_traded_def by (rule demo_reachable) simp

text \<open>A closed run: the order has been accepted, then a partial fill and a fill interleave.\<close>

definition demo_race :: "nat list \<Rightarrow> config" where
  "demo_race ks = run_schedule demo_lib ks
     (demo_start, [entry (EvFromApp (demo_order ''C1'' ''0'') demo_oe),
        entry (EvPartial ''C1'' 30 25), entry (EvFill ''C1'' 26)])"

lemma races_arrive: "races L c (a, ts) \<Longrightarrow> races L c (a, ts @ map entry es)"
proof (induction es arbitrary: ts)
  case (Cons e es)
  from Cons.IH [OF races_step [OF Cons.prems race_arrive, of e]] show ?case by simp
qed simp

lemma demo_race_reachable: "race_reachable demo_lib (demo_race ks)"
proof -
  have "races demo_lib (demo_start, []) (demo_start, [] @ map entry
      [EvFromApp (demo_order ''C1'' ''0'') demo_oe, EvPartial ''C1'' 30 25, EvFill ''C1'' 26])"
    by (rule races_arrive) (rule races_refl)
  then show ?thesis
    unfolding race_reachable_def demo_race_def
    by (intro exI [of _ demo_start] conjI demo_started run_schedule_races) simp
qed

lemma run_schedule_append: "run_schedule L (ks @ ms) c = run_schedule L ms (run_schedule L ks c)"
  by (induction ks arbitrary: c) simp_all

lemma demo_race_races: "races demo_lib (demo_race ks) (demo_race (ks @ ms))"
  unfolding demo_race_def run_schedule_append by (rule run_schedule_races) (rule races_refl)

lemmas race_eval = demo_eval demo_race_def move_def from_app_def update_then_def report_kinds

theorem race_orders_witness:
  "\<exists>ord'. Get ''C1'' (app_book (fst (demo_race [0, 0, 0, 1, 2, 1, 2, 2, 0, 2, 0]))) = Some ord' \<and> cum_ok ord'"
proof -
  obtain ord where "Get ''C1'' (app_book (fst (demo_race [0, 0, 0]))) = Some ord"
    by (simp add: race_eval)
  moreover have "races demo_lib (demo_race [0, 0, 0]) (demo_race ([0, 0, 0] @ [1, 2, 1, 2, 2, 0, 2, 0]))"
    by (rule demo_race_races)
  ultimately show ?thesis
    using race_orders [of demo_lib "fst (demo_race [0, 0, 0])" "snd (demo_race [0, 0, 0])"]
      demo_race_reachable [of "[0, 0, 0]"] by (metis append.simps prod.collapse)
qed

end
