(* ===== verification/RaceRuns.thy ===== *)
theory RaceRuns
  imports RaceProps
begin

text \<open>
  Interleavings in which the promises of single handlers fail: a fill overwritten by the mass
  cancel, reports that overtake each other, a \<open>new\<close> report that shows a fill, and a client
  that is back in time and loses its orders all the same.
\<close>

subsection \<open>Two goroutines\<close>

text \<open>One goroutine takes a step, the other runs to its end, then the first does.\<close>

lemma sandwich:
  assumes "act L x a = (follow, a1)" "alone L other a1 a2" "alone L follow a2 b"
  shows "races L (a, [[x], other]) (b, [[], []])"
proof -
  have "race_step L (a, [[x], other]) (a1, [[x], other][0 := follow @ []])"
    using assms(1) by (intro race_act [of 0]) simp_all
  then have "races L (a, [[x], other]) (a1, [follow, other])" by (auto intro: races_refl races_step)
  then have "races L (a, [[x], other]) (a2, [follow, other][1 := []])"
    by (rule alone_races_from [OF _ assms(2)]) simp_all
  then have "races L (a, [[x], other]) (b, [follow, []][0 := []])"
    by (intro alone_races_from [OF _ assms(3)]) simp_all
  then show ?thesis by simp
qed

text \<open>The mass cancel over a snapshot that is not the present book any more.\<close>

lemma Update_canceled_Get:
  assumes "book_inv (app_book a)" "Update j set_canceled (app_book a) = (r, b)"
  shows "book_inv b" "Get i b = (if i = j then map_option (\<lambda>ord. ord\<lparr>os_Status := StatusCanceled\<rparr>)
                                     (Get i (app_book a)) else Get i (app_book a))"
proof -
  have b: "b = snd (Update j set_canceled (app_book a))" using assms(2) by simp
  show "book_inv b" unfolding b by (rule book.inv_update [OF assms(1)]) simp
  show "Get i b = (if i = j then map_option (\<lambda>ord. ord\<lparr>os_Status := StatusCanceled\<rparr>) (Get i (app_book a))
                   else Get i (app_book a))"
    using book.get_update_same [OF assms(1), of set_canceled j] book.get_update_other [OF assms(1), of set_canceled i j]
    by (cases "Get j (app_book a)") (auto simp: b set_canceled_def Update_None)
qed

lemma cancel_loop_Get:
  assumes "book_inv (app_book a)"
  shows "Get i (app_book (cancel_loop L t xs a)) =
    (if i \<in> os_ClOrdID ` set xs then map_option (\<lambda>ord. ord\<lparr>os_Status := StatusCanceled\<rparr>) (Get i (app_book a))
     else Get i (app_book a))"
  using assms
proof (induction xs arbitrary: a)
  case (Cons x xs)
  obtain r b where u: "Update (os_ClOrdID x) set_canceled (app_book a) = (r, b)" by force
  note upd = Update_canceled_Get [OF Cons.prems u]
  show ?case
    using upd by (cases r) (simp_all add: u Cons.IH option.map_comp comp_def)
qed simp

subsection \<open>What interference does\<close>

lemma fill_all:
  assumes "IsOpen ord" "0 < os_OrderQty ord - os_CumQty ord"
  shows "fst (apply_fill L i (LeavesQty ord) p ord) = None"
    "os_CumQty (snd (apply_fill L i (LeavesQty ord) p ord)) = os_OrderQty ord"
    "os_Status (snd (apply_fill L i (LeavesQty ord) p ord)) = StatusFilled"
    "os_OrderQty (snd (apply_fill L i (LeavesQty ord) p ord)) = os_OrderQty ord"
  using assms by (simp_all add: apply_fill_def LeavesQty_def Let_def)

lemma Partial_Get:
  assumes "book_inv (app_book a)" "Get i (app_book a) = Some ord" "0 < q" "fst (apply_fill L i q p ord) = None"
  shows "Get i (app_book (snd (Partial L i q p a))) = Some (snd (apply_fill L i q p ord))"
    "book_inv (app_book (snd (Partial L i q p a)))"
  using assms book.get_update_same [OF assms(1) _ assms(2), of "apply_fill L i q p"]
    book.inv_update [OF assms(1), of "apply_fill L i q p" i]
  by (simp_all add: Partial_unfold Update_fst Let_def)

lemma race_open_leaves:
  assumes "reachable L a" "Get i (app_book a) = Some ord" "IsOpen ord" "0 < os_OrderQty ord"
  shows "0 < os_OrderQty ord - os_CumQty ord" "os_ClOrdID ord = i" "ord \<in> set (Orders a)"
proof -
  have inv: "venue_inv a" by (rule reachable_inv [OF assms(1)])
  show ord: "ord \<in> set (Orders a)" "os_ClOrdID ord = i"
    using assms(2) by (auto simp: Orders_def book_Get [OF venue_inv_book [OF inv]] dest: log_get_Some)
  then have "order_ok ord" using inv by (simp add: venue_inv_def book_ok_def)
  then show "0 < os_OrderQty ord - os_CumQty ord"
    using assms(3,4) by (auto simp: order_ok_def IsOpen_def venue_consts)
qed

text \<open>
  A fill can be lost to the mass cancel: the snapshot of \<open>CancelAllOpenDay\<close> is taken under
  one lock and each order is canceled under another, without a look at its status. For every
  working day order, a fill that comes in between is executed, and then the filled order
  becomes canceled with its whole quantity executed.
\<close>

theorem mass_cancel_overwrites_fill:
  assumes "reachable L a" "Get i (app_book a) = Some ord" "IsOpen ord" "IsDay ord" "0 < os_OrderQty ord"
  shows "\<exists>b ord'. races L (a, [[AMassCancel t], [AFill i p]]) (b, [[], []]) \<and>
    Get i (app_book b) = Some ord' \<and> os_Status ord' = StatusCanceled \<and> os_CumQty ord' = os_OrderQty ord"
proof -
  let ?c = "(a, [[AMassCancel t], [AFill i p]])"
  let ?xs = "OpenDayOrders (app_book a)" and ?q = "LeavesQty ord"
  let ?cancels = "map (\<lambda>ord. ACancelOne t (os_ClOrdID ord)) ?xs"
  note leaves = race_open_leaves [OF assms(1,2,3,5)]
  have inv: "book_inv (app_book a)" by (rule venue_inv_book [OF reachable_inv [OF assms(1)]])
  have q: "0 < ?q" using leaves(1) assms(3) by (simp add: LeavesQty_def)
  let ?f = "snd (Fill L i p a)" and ?ord1 = "snd (apply_fill L i ?q p ord)"
  have f: "Get i (app_book ?f) = Some ?ord1" "book_inv (app_book ?f)"
    using Partial_Get [OF inv assms(2) q fill_all(1) [OF assms(3) leaves(1)]] assms(2)
    by (simp_all add: Fill_def)
  have "races L ?c (cancel_loop L t ?xs ?f, [[], []])"
    by (rule sandwich [where follow = ?cancels])
      (simp_all add: alone_Fill alone_cancel_loop [of L t _ "[]", simplified])
  moreover have "i \<in> os_ClOrdID ` set ?xs"
    using leaves(2,3) assms(3,4) by (force simp: OpenDayOrders_log Orders_def)
  then have "Get i (app_book (cancel_loop L t ?xs ?f)) = Some (?ord1\<lparr>os_Status := StatusCanceled\<rparr>)"
    using cancel_loop_Get [OF f(2), of i L t ?xs] f(1) by simp
  ultimately show ?thesis using fill_all(2) [OF assms(3) leaves(1), of L i p] by (intro exI) auto
qed

lemma demo_traded_order:
  "\<exists>ord. Get ''C1'' (app_book demo_traded) = Some ord \<and> IsOpen ord \<and> IsDay ord \<and> os_OrderQty ord = 100 \<and>
     LeavesQty ord = 100"
  by (simp add: demo_traded_def demo_eval IsDay_def)

theorem mass_cancel_overwrites_fill_witness:
  "\<exists>b ord'. races demo_lib (demo_traded, [[AMassCancel ''x''], [AFill ''C1'' 25]]) (b, [[], []]) \<and>
    Get ''C1'' (app_book b) = Some ord' \<and> os_Status ord' = StatusCanceled \<and> os_CumQty ord' = 100"
proof -
  obtain ord where ord: "Get ''C1'' (app_book demo_traded) = Some ord" "IsOpen ord" "IsDay ord" "os_OrderQty ord = 100"
    using demo_traded_order by blast
  have "0 < os_OrderQty ord" using ord(4) by simp
  from mass_cancel_overwrites_fill [OF demo_traded_reachable ord(1,2,3) this, of "''x''" 25] ord(4)
  show ?thesis by simp
qed

lemma publish_last:
  assumes "sent_ok a" "sole KindOrderEntry a oe" "\<not> app_silenced a"
  shows "messages_to oe (publish L r a) = messages_to oe a @ [next_message L r a]"
  using assms messages_to_publish_sole [of a oe L r] by (simp add: sent_ok_def)

lemma next_message_body:
  "msg_body (next_message L r a) tagOrdStatus = Some (os_Status (rp_order r))"
  "msg_body (next_message L r a) tagExecType = Some (rp_execType r)"
  "msg_body (next_message L r a) tagClOrdID = Some (os_ClOrdID (rp_order r))"
  "msg_body (next_message L r a) tagCumQty = Some (lib_showDec L 0 (os_CumQty (rp_order r)))"
  by (simp_all add: next_message_def build_body)

text \<open>
  What both runs below do in the middle: a partial fill by the other goroutine, after which the
  first one publishes a report it had made before.
\<close>

lemma published_after_fill:
  assumes "sent_ok a" "book_inv (app_book a)" "sole KindOrderEntry a oe" "\<not> app_silenced a"
    and "Get i (app_book a) = Some ord" "0 < q" "fst (apply_fill L i q p ord) = None"
  shows "Get i (app_book (snd (Partial L i q p a))) = Some (snd (apply_fill L i q p ord))"
    "last (messages_to oe (publish L r (snd (Partial L i q p a)))) = next_message L r (snd (Partial L i q p a))"
proof -
  let ?b = "snd (Partial L i q p a)"
  show "Get i (app_book ?b) = Some (snd (apply_fill L i q p ord))"
    by (rule Partial_Get(1) [OF assms(2,5-7)])
  have "sent_ok ?b" "sole KindOrderEntry ?b oe" "\<not> app_silenced ?b"
    using sent_ok_commands(1) [OF assms(1)] assms(3,4)
    by (simp_all add: Partial_unfold Let_def sole_def split: sum.split)
  from publish_last [OF this] show "last (messages_to oe (publish L r ?b)) = next_message L r ?b" by simp
qed

text \<open>
  Reports can overtake each other: an update and the publication of its report are not one
  step, so of two partial fills the first to change the book can be the second to be sent.
  For every working order and every two quantities that together fill it there is a run of
  the two commands after which the order is filled, and the last report the order-entry
  session was sent says that it is partially filled with the first quantity alone.
\<close>

theorem reports_overtake:
  assumes "reachable L a" "Get i (app_book a) = Some ord" "IsOpen ord"
    and "sole KindOrderEntry a oe" "\<not> app_silenced a"
    and "0 < q1" "0 < q2" "q1 + q2 = LeavesQty ord"
  shows "\<exists>b ord'. races L (a, [[APartial i q1 p1], [APartial i q2 p2]]) (b, [[], []]) \<and>
    Get i (app_book b) = Some ord' \<and> os_Status ord' = StatusFilled \<and>
    msg_body (last (messages_to oe b)) tagClOrdID = Some i \<and>
    msg_body (last (messages_to oe b)) tagOrdStatus = Some StatusPartiallyFilled \<and>
    msg_body (last (messages_to oe b)) tagCumQty = Some (lib_showDec L 0 (os_CumQty ord + q1))"
proof -
  let ?ts = "[[APartial i q1 p1], [APartial i q2 p2]]"
  let ?f1 = "apply_fill L i q1 p1" and ?f2 = "apply_fill L i q2 p2"
  have inv: "book_inv (app_book a)" by (rule venue_inv_book [OF reachable_inv [OF assms(1)]])
  have leaves: "LeavesQty ord = os_OrderQty ord - os_CumQty ord" using assms(3) by (simp add: LeavesQty_def)
  have id: "os_ClOrdID ord = i" using assms(2) by (auto simp: book_Get [OF inv] dest: log_get_Some)
  define o1 where "o1 = snd (?f1 ord)"
  have o1: "fst (?f1 ord) = None" "os_Status o1 = StatusPartiallyFilled" "os_CumQty o1 = os_CumQty ord + q1"
    "os_OrderQty o1 = os_OrderQty ord" "os_ClOrdID o1 = i"
    using assms(3,6,7,8) leaves id by (auto simp: o1_def apply_fill_def Let_def)
  define b1 where "b1 = snd (Update i ?f1 (app_book a))"
  define a1 where "a1 = a\<lparr>app_book := b1\<rparr>"
  have get1: "Get i b1 = Some o1" and inv1: "book_inv b1"
    using book.get_update_same [OF inv _ assms(2), of ?f1] book.inv_update [OF inv, of ?f1 i]
    by (simp_all add: b1_def o1_def)
  have act1: "act L (APartial i q1 p1) a = ([APublish (trade_report q1 p1 o1)], a1)"
    using assms(2,6) o1(1)
    by (simp add: update_then_def case_prod_beta Update_fst a1_def b1_def o1_def)
  have open1: "IsOpen o1" "LeavesQty o1 = q2"
    using o1 assms(8) leaves by (simp_all add: IsOpen_def LeavesQty_def)
  let ?o2 = "snd (?f2 o1)"
  let ?a2 = "snd (Partial L i q2 p2 a1)"
  have o2: "fst (?f2 o1) = None" "os_Status ?o2 = StatusFilled"
    using open1 o1(3,4) assms(8) leaves by (simp_all add: apply_fill_def Let_def)
  have "sent_ok a1"
    using reachable_inv [OF assms(1)] by (simp add: a1_def b1_def venue_inv_def sent_ok_book)
  note after = published_after_fill [OF this, of oe i o1 q2 L p2]
  let ?b = "publish L (trade_report q1 p1 o1) ?a2"
  have "races L (a, ?ts) (?b, [[], []])"
    by (rule sandwich [OF act1]) (simp_all add: alone_Partial alone_publish)
  moreover have "Get i (app_book ?b) = Some ?o2" "last (messages_to oe ?b) = next_message L (trade_report q1 p1 o1) ?a2"
    using after inv1 get1 assms(4,5,7) o2(1) by (simp_all add: a1_def sole_def)
  ultimately show ?thesis
    using o1 o2(2) by (intro exI [of _ ?b] exI [of _ ?o2])
      (simp add: next_message_body trade_report_def mk_report_def)
qed

theorem reports_overtake_witness:
  "\<exists>b. races demo_lib (demo_traded, [[APartial ''C1'' 30 25], [APartial ''C1'' 70 26]]) (b, [[], []]) \<and>
    msg_body (last (messages_to demo_oe b)) tagOrdStatus = Some StatusPartiallyFilled"
proof -
  obtain ord where ord: "Get ''C1'' (app_book demo_traded) = Some ord" "IsOpen ord" "LeavesQty ord = 100"
    using demo_traded_order by blast
  have "app_kinds demo_traded = app_kinds demo_start" "\<not> app_silenced demo_traded"
    by (simp_all add: demo_traded_def demo_eval)
  then have "sole KindOrderEntry demo_traded demo_oe" "\<not> app_silenced demo_traded"
    by (simp_all add: demo_roles(1))
  from reports_overtake [OF demo_traded_reachable ord(1,2) this, of 30 70 25 26] ord(3)
  show ?thesis by auto
qed

text \<open>
  An acknowledgement can show a fill: \<open>onNewOrderSingle\<close> reads the order again, without the
  lock, after it has inserted it. For every acceptable order there is a run in which a fill
  command comes in between, and then the report of execution type \<open>new\<close> is sent after the
  trade and says that the order is filled.
\<close>

theorem acknowledgement_shows_fill:
  assumes "reachable L a" "build_order L (msg_body msg) = Inr ord" "Get (os_ClOrdID ord) (app_book a) = None"
    and "sole KindOrderEntry a oe" "\<not> app_silenced a" "0 < os_OrderQty ord"
  shows "\<exists>b. races L (a, [[ANewOrder msg], [AFill (os_ClOrdID ord) p]]) (b, [[], []]) \<and>
    msg_body (last (messages_to oe b)) tagExecType = Some ExecTypeNew \<and>
    msg_body (last (messages_to oe b)) tagOrdStatus = Some StatusFilled"
proof -
  let ?i = "os_ClOrdID ord"
  let ?ts = "[[ANewOrder msg], [AFill ?i p]]"
  have vinv: "venue_inv a" by (rule reachable_inv [OF assms(1)])
  have inv: "book_inv (app_book a)" by (rule venue_inv_book [OF vinv])
  let ?new = "accepted_as ord (app_book a)"
  obtain b1 where b1: "insert_new ord (app_book a) = (None, b1)" using insert_new_ok [OF assms(3)] by blast
  define a1 where "a1 = a\<lparr>app_book := b1\<rparr>"
  let ?p = "length (bk_heap (app_book a))"
  have inv1: "book_inv b1" using book.inv_insert [OF inv, of ord] b1 by simp
  have ptr: "bk_orders b1 ?i = Some ?p" using b1 insert_new_ok [OF assms(3)] by auto
  have new: "Get ?i b1 = Some ?new"
    using b1 insert_new_ok [OF assms(3)] by (auto simp: Get_def deref_def accepted_as_def)
  have act1: "act L (ANewOrder msg) a = ([AReadNew ?p], a1)"
    using assms(2) b1 by (simp add: insert_new_def alloc_def a1_def)
  have open1: "IsOpen ?new" "0 < os_OrderQty ?new - os_CumQty ?new"
    using build_order_fresh [OF assms(2)] assms(6) by (simp_all add: accepted_as_def IsOpen_def)
  let ?q = "LeavesQty ?new"
  let ?a2 = "snd (Fill L ?i p a1)" and ?o2 = "snd (apply_fill L ?i ?q p ?new)"
  have q: "0 < ?q" using open1 by (simp add: LeavesQty_def)
  have fill: "?a2 = snd (Partial L ?i ?q p a1)" using new by (simp add: Fill_def a1_def)
  have "sent_ok a1"
    using vinv sent_ok_insert_new [OF b1] by (simp add: a1_def venue_inv_def)
  note after = published_after_fill [OF this, of oe ?i ?new ?q L p]
  have get2: "Get ?i (app_book ?a2) = Some ?o2"
    and last: "last (messages_to oe (publish L r ?a2)) = next_message L r ?a2" for r
    unfolding fill using after inv1 new q fill_all(1) [OF open1] assms(4,5)
    by (simp_all add: a1_def sole_def)
  have "bk_orders (app_book ?a2) ?i = Some ?p"
    unfolding fill using ptr
    by (auto simp: a1_def Partial_unfold Let_def NextExecID_def Update_def
        split: sum.split option.split prod.split)
  then have deref: "deref (app_book ?a2) ?p = ?o2" using get2 by (simp add: Get_def)
  let ?b = "publish L (mk_report ?o2 ExecTypeNew) ?a2"
  have "races L (a, ?ts) (?b, [[], []])"
  proof (rule sandwich [OF act1])
    show "alone L [AFill ?i p] a1 ?a2" by (simp add: alone_Fill)
    show "alone L [AReadNew ?p] ?a2 ?b" unfolding alone_ReadNew deref by simp
  qed
  then show ?thesis
    using last fill_all(3) [OF open1, of L ?i p]
    by (intro exI [of _ ?b]) (simp add: next_message_body mk_report_def)
qed

theorem acknowledgement_shows_fill_witness:
  "\<exists>b. races demo_lib (demo_start, [[ANewOrder (demo_order ''C1'' ''0'')], [AFill ''C1'' 25]]) (b, [[], []]) \<and>
    msg_body (last (messages_to demo_oe b)) tagOrdStatus = Some StatusFilled"
proof -
  obtain ord where ord: "build_order demo_lib (msg_body (demo_order ''C1'' ''0'')) = Inr ord"
    "os_ClOrdID ord = ''C1''" "os_OrderQty ord = 100"
    by (simp add: demo_eval)
  have "Get (os_ClOrdID ord) (app_book demo_start) = None" "\<not> app_silenced demo_start" "0 < os_OrderQty ord"
    by (simp_all add: demo_eval ord(3))
  note this(1) demo_roles(1) [OF refl] this(2,3)
  from acknowledgement_shows_fill [OF demo_start_reachable ord(1) this, of 25] ord(2) show ?thesis by auto
qed

text \<open>
  A client that is back in time can lose its orders all the same: the timer's function reads
  whether the session is up under one lock and cancels afterwards. For every session that is
  down and every working day order there is a run in which the session is up again before the
  first order is canceled, and the order is canceled.
\<close>

theorem cancel_after_reconnect:
  assumes "reachable L a" "\<not> app_loggedOn a sid" "Get i (app_book a) = Some ord" "IsOpen ord" "IsDay ord"
  shows "\<exists>b. races L (a, [[AExpire sid], [ALogon sid]]) (b, [[], []]) \<and> app_loggedOn b sid \<and>
    Get i (app_book b) = Some (ord\<lparr>os_Status := StatusCanceled\<rparr>)"
proof -
  let ?a = "OnLogon sid a"
  let ?b = "snd (CancelAllOpenDay L (cod_reason L sid) ?a)"
  have inv: "book_inv (app_book a)" by (rule venue_inv_book [OF reachable_inv [OF assms(1)]])
  have "races L (a, [[AExpire sid], [ALogon sid]]) (?b, [[], []])"
    by (rule sandwich [where follow = "[AMassCancel (cod_reason L sid)]"])
      (use assms(2) in \<open>simp_all add: alone_single alone_mass\<close>)
  moreover have "ord \<in> set (OpenDayOrders (app_book a))" "os_ClOrdID ord = i"
    using assms(3-5) by (auto simp: OpenDayOrders_log Orders_def book_Get [OF inv] dest: log_get_Some)
  then have "Get i (app_book ?b) = Some (ord\<lparr>os_Status := StatusCanceled\<rparr>)"
    using assms(3) inv by (auto simp: CancelAllOpenDay_def Let_def cancel_loop_Get frame)
  moreover have "app_loggedOn ?b sid"
    by (simp add: CancelAllOpenDay_def Let_def cancel_loop_loggedOn OnLogon_def)
  ultimately show ?thesis by blast
qed

theorem cancel_after_reconnect_witness:
  "\<exists>b ord. races demo_lib (demo_traded, [[AExpire demo_oe], [ALogon demo_oe]]) (b, [[], []]) \<and>
    app_loggedOn b demo_oe \<and> Get ''C1'' (app_book b) = Some ord \<and> os_Status ord = StatusCanceled"
proof -
  obtain ord where ord: "Get ''C1'' (app_book demo_traded) = Some ord" "IsOpen ord" "IsDay ord"
    using demo_traded_order by blast
  have "\<not> app_loggedOn demo_traded demo_oe" by (simp add: demo_traded_def demo_eval)
  from cancel_after_reconnect [OF demo_traded_reachable this ord] show ?thesis by auto
qed

end
