(* ===== verification/RaceLog.thy ===== *)
theory RaceLog
  imports RaceProps "HOL-Library.Multiset"
begin

text \<open>
  What the venue has reported however its goroutines interleave. The invariant \<open>race_log\<close>
  follows two multisets of reports: \<open>D\<close>, those that were given an ExecID and go out to a session
  of each role, and \<open>X\<close>, those that were given one and held back by the silence. A session is
  sent reports of \<open>D\<close> only, and all of them if it is alone in its role. From it: no ExecID twice,
  both roles are sent the same reports, and the trades reported add up to the executed quantities.
\<close>

subsection \<open>Reports on their way\<close>

text \<open>The reports an action is about to send to the session of a role.\<close>

fun to_send :: "Kind \<Rightarrow> action \<Rightarrow> report list" where
  "to_send k (ASendOE r) = (if k = KindOrderEntry then [r] else [])"
| "to_send k (ASendDC r) = (if k = KindDropCopy then [r] else [])"
| "to_send k _ = []"

definition pending :: "(action \<Rightarrow> 'b list) \<Rightarrow> action list list \<Rightarrow> 'b multiset" where
  "pending f ts = mset (concat (map f (concat ts)))"

lemma pending_update:
  "k < length ts \<Longrightarrow> pending f (ts[k := xs]) + mset (concat (map f (ts ! k))) =
     pending f ts + mset (concat (map f xs))"
proof (induction ts arbitrary: k)
  case (Cons t ts)
  then show ?case by (cases k) (auto simp: pending_def ac_simps)
qed simp

lemma pending_new: "pending f (ts @ [xs]) = pending f ts + mset (concat (map f xs))"
  by (simp add: pending_def)

lemma to_send_entry [simp]: "concat (map (to_send k) (entry e)) = []"
  by (cases e) (simp_all add: from_admin_def from_app_def)

text \<open>
  A message without the time it was built at. What a session was sent is the rendering of a
  multiset of reports.
\<close>

definition untimed :: "message \<Rightarrow> message" where
  "untimed m = m\<lparr>msg_body := (msg_body m)(tagTransactTime := None)\<rparr>"

definition rendering :: "lib \<Rightarrow> report \<Rightarrow> message" where
  "rendering L r = untimed (buildExecutionReport L 0 r)"

definition sent_as :: "lib \<Rightarrow> SessionID \<Rightarrow> App \<Rightarrow> report multiset \<Rightarrow> bool" where
  "sent_as L sid a R \<longleftrightarrow> mset (map untimed (messages_to sid a)) = image_mset (rendering L) R"

lemma untimed_SetField:
  "untimed (SetField tagTransactTime v m) = untimed m"
  "t \<noteq> tagTransactTime \<Longrightarrow> untimed (SetField t v m) = SetField t v (untimed m)"
  by (simp_all add: untimed_def SetField_def fun_upd_twist)

lemma untimed_build: "untimed (buildExecutionReport L now r) = rendering L r"
proof -
  have "tagPrice \<noteq> tagTransactTime" "tagAccount \<noteq> tagTransactTime" "tagLastPx \<noteq> tagTransactTime"
    "tagLastQty \<noteq> tagTransactTime" "tagText \<noteq> tagTransactTime" "tagExecRestatementReason \<noteq> tagTransactTime"
    by (simp_all add: tag_defs)
  then show ?thesis
    by (simp add: rendering_def buildExecutionReport_def Let_def if_distrib [of untimed] untimed_SetField)
qed

lemma build_exec_id [simp]: "exec_id (buildExecutionReport L now r) = rp_execID r"
  by (simp add: exec_id_def build_body)

lemma exec_id_untimed [simp]: "exec_id (untimed m) = exec_id m"
  by (simp add: exec_id_def untimed_def tag_defs)

lemma exec_id_rendering [simp]: "exec_id (rendering L r) = rp_execID r"
  by (simp add: rendering_def)

lemma sent_as_ids: "sent_as L sid a R \<Longrightarrow> mset (map exec_id (messages_to sid a)) = image_mset rp_execID R"
proof -
  assume "sent_as L sid a R"
  then have "image_mset exec_id (mset (map untimed (messages_to sid a))) = image_mset exec_id (image_mset (rendering L) R)"
    by (simp add: sent_as_def)
  then show ?thesis by (simp add: image_mset.compositionality comp_def)
qed

lemma messages_to_send:
  "messages_to sid (send L r i a) =
     messages_to sid a @ (if i = sid then [buildExecutionReport L (app_now a) r] else [])"
  by (simp add: messages_to_def send_def)

lemma Update_execSeq: "Update i fn b = (r, b') \<Longrightarrow> bk_execSeq b' = bk_execSeq b"
  by (metis execSeq_frame(2) snd_conv)

text \<open>What a step draws an ExecID for: to be sent, or to be held back.\<close>

definition numbered :: "App \<Rightarrow> report \<Rightarrow> report" where
  "numbered a r = r\<lparr>rp_execID := fst (NextExecID (app_book a))\<rparr>"

definition drawn :: "bool \<Rightarrow> action \<Rightarrow> App \<Rightarrow> report multiset" where
  "drawn held x a = (case x of ADraw r s \<Rightarrow> if s = held then {#numbered a r#} else {#} | _ \<Rightarrow> {#})"

subsection \<open>One action\<close>

lemma update_then_other:
  "update_then i fn rp a = (follow, a') \<Longrightarrow>
     app_kinds a' = app_kinds a \<and> app_outbox a' = app_outbox a \<and>
     bk_execSeq (app_book a') = bk_execSeq (app_book a) \<and> concat (map (to_send k) follow) = []"
  by (auto simp: update_then_def dest: Update_execSeq split: prod.splits sum.splits)

lemma action_cases:
  obtains (draw) r s where "x = ADraw r s" | (oe) r where "x = ASendOE r" | (dc) r where "x = ASendDC r"
  | (other) "\<forall>r s. x \<noteq> ADraw r s" "\<forall>r. x \<noteq> ASendOE r" "\<forall>r. x \<noteq> ASendDC r"
  by (cases x) auto

lemma act_other:
  assumes "act L x a = (follow, a')" "\<forall>r s. x \<noteq> ADraw r s" "\<forall>r. x \<noteq> ASendOE r" "\<forall>r. x \<noteq> ASendDC r"
  shows "app_kinds a' = app_kinds a \<and> app_outbox a' = app_outbox a \<and>
     bk_execSeq (app_book a') = bk_execSeq (app_book a) \<and> concat (map (to_send k) follow) = [] \<and>
     to_send k x = [] \<and> drawn h x a = {#}"
proof (cases x)
  case (ANewOrder msg)
  show ?thesis
  proof (cases "build_order L (msg_body msg)")
    case (Inr ord)
    have "app_book a' = snd (insert_new ord (app_book a)) \<and> app_kinds a' = app_kinds a \<and>
        app_outbox a' = app_outbox a \<and> (follow = [] \<or> (\<exists>p. follow = [AReadNew p]))"
      using assms(1) ANewOrder Inr by (auto simp: insert_new_def Let_def split: prod.splits option.splits)
    then show ?thesis using ANewOrder execSeq_frame(1) [of ord "app_book a"] by (auto simp: drawn_def)
  qed (use ANewOrder assms in \<open>simp add: drawn_def\<close>)
qed (use assms update_then_other in \<open>auto simp: drawn_def SetSilenced_def SetRejectLogons_def OnLogon_def
     frame o_def noteSent_def noteReceived_def onSessionLost_def split: if_splits option.splits sum.splits\<close>)

lemma act_seq:
  assumes "act L x a = (follow, a')"
  shows "app_kinds a' = app_kinds a"
    and "bk_execSeq (app_book a') = bk_execSeq (app_book a) + size (drawn False x a + drawn True x a)"
proof -
  have "app_kinds a' = app_kinds a \<and>
      bk_execSeq (app_book a') = bk_execSeq (app_book a) + size (drawn False x a + drawn True x a)"
  proof (cases x rule: action_cases)
    case other
    then show ?thesis using act_other [OF assms other] by simp
  qed (use assms in \<open>auto simp: NextExecID_def drawn_def Let_def split: option.splits\<close>)
  then show "app_kinds a' = app_kinds a"
    "bk_execSeq (app_book a') = bk_execSeq (app_book a) + size (drawn False x a + drawn True x a)"
    by simp_all
qed

lemma roles_apart:
  assumes "distinct (map fst (app_kinds a))" "(sid, k) \<in> set (app_kinds a)" "(sid, k') \<in> set (app_kinds a)"
    and "k \<in> {KindOrderEntry, KindDropCopy}" "k' \<in> {KindOrderEntry, KindDropCopy}"
  shows "k = k'"
  using assms(1-3) by (metis eq_key_imp_eq_value)

text \<open>
  What a step adds to what is sent or on its way to a session of a role: nothing but what was
  drawn to be sent, and all of that if the session is alone in the role.
\<close>

lemma act_sent:
  assumes "act L x a = (follow, a')" "distinct (map fst (app_kinds a))" "(sid, k) \<in> set (app_kinds a)"
    and "k \<in> {KindOrderEntry, KindDropCopy}" "sent_as L sid a R"
  shows "\<exists>R'. sent_as L sid a' R' \<and>
      R' + mset (concat (map (to_send k) follow)) \<subseteq># R + mset (to_send k x) + drawn False x a \<and>
      (sole k a sid \<longrightarrow> R' + mset (concat (map (to_send k) follow)) = R + mset (to_send k x) + drawn False x a)"
proof -
  have sent: "\<exists>R'. sent_as L sid a' R' \<and> R' \<subseteq># R + mset (if k = k' then [r] else []) \<and>
      (sole k a sid \<longrightarrow> R' = R + mset (if k = k' then [r] else []))"
    if a': "a' = (case sessionOf n k' a of Some i \<Rightarrow> send L r i a | None \<Rightarrow> a)"
      and k': "k' \<in> {KindOrderEntry, KindDropCopy}" for n k' r
  proof (cases "sessionOf n k' a = Some sid")
    case True
    then have "k = k'" using roles_apart [OF assms(2,3) sessionOf_in [OF True] assms(4) k'] by simp
    then show ?thesis
      using True a' assms(5)
      by (intro exI [of _ "R + {#r#}"]) (simp add: sent_as_def messages_to_send untimed_build)
  next
    case False
    then have "sent_as L sid a' R"
      using a' assms(5) by (auto simp: sent_as_def messages_to_send split: option.splits)
    moreover have "k = k' \<longrightarrow> \<not> sole k a sid" using False by auto
    ultimately show ?thesis by (intro exI [of _ R]) auto
  qed
  show ?thesis
  proof (cases x rule: action_cases)
    case (draw r s)
    then show ?thesis
      using assms(1,4,5)
      by (auto simp: NextExecID_def Let_def sent_as_def messages_to_def drawn_def numbered_def venue_consts)
  next
    case (oe r)
    then show ?thesis using assms(1) sent [where k' = KindOrderEntry and r = r] by (auto simp: drawn_def)
  next
    case (dc r)
    then show ?thesis using assms(1) sent [where k' = KindDropCopy and r = r] by (auto simp: drawn_def)
  next
    case other
    then show ?thesis
      using act_other [OF assms(1) other] assms(5) by (auto simp: sent_as_def messages_to_def)
  qed
qed

lemma distinct_part:
  assumes "distinct ys" "mset xs + M = mset ys"
  shows "distinct xs"
proof -
  have le: "count (mset xs) x \<le> 1" for x
  proof -
    have "count (mset xs) x \<le> count (mset ys) x" by (simp flip: assms(2))
    also have "\<dots> \<le> 1" using assms(1) by (simp add: distinct_count_atmost_1)
    finally show ?thesis .
  qed
  have "count (mset xs) x = (if x \<in> set xs then 1 else 0)" for x
    using le [of x] by (cases "x \<in> set xs") (auto simp: count_mset_0_iff le_Suc_eq)
  then show ?thesis by (simp add: distinct_count_atmost_1)
qed

subsection \<open>The invariant\<close>

text \<open>
  The ExecIDs given so far, each to one report; what is sent or on its way on each session was
  not held back, and it is all that was not if the session is alone in its role; and for each order the trades reported, with those of reports that
  have not been given an ExecID yet, add up to its executed quantity.
\<close>

definition trade_of :: "string \<Rightarrow> report \<Rightarrow> rat" where
  "trade_of i r = (if rp_execType r = ExecTypeTrade \<and> os_ClOrdID (rp_order r) = i then rp_lastQty r else 0)"

definition trades :: "string \<Rightarrow> report multiset \<Rightarrow> rat" where
  "trades i M = sum_mset (image_mset (trade_of i) M)"

fun unpublished :: "action \<Rightarrow> report list" where
  "unpublished (APublish r) = [r]"
| "unpublished (ADraw r s) = [r]"
| "unpublished _ = []"

definition executed :: "string \<Rightarrow> App \<Rightarrow> rat" where
  "executed i a = (case Get i (app_book a) of None \<Rightarrow> 0 | Some ord \<Rightarrow> os_CumQty ord)"

definition race_sent :: "lib \<Rightarrow> config \<Rightarrow> report multiset \<Rightarrow> bool" where
  "race_sent L c D \<longleftrightarrow> (\<forall>k \<in> {KindOrderEntry, KindDropCopy}. \<forall>sid. (sid, k) \<in> set (app_kinds (fst c)) \<longrightarrow>
     (\<exists>R. sent_as L sid (fst c) R \<and> R + pending (to_send k) (snd c) \<subseteq># D \<and>
        (sole k (fst c) sid \<longrightarrow> R + pending (to_send k) (snd c) = D)))"

definition race_log :: "lib \<Rightarrow> config \<Rightarrow> report multiset \<Rightarrow> report multiset \<Rightarrow> bool" where
  "race_log L c D X \<longleftrightarrow>
     race_book (fst c) \<and> distinct (map fst (app_kinds (fst c))) \<and> race_sent L c D \<and>
     image_mset rp_execID (D + X) = mset (map exec_name [1..<Suc (bk_execSeq (app_book (fst c)))]) \<and>
     (\<forall>i. trades i (D + X) + trades i (pending unpublished (snd c)) = executed i (fst c))"

lemma trades_simps [simp]:
  "trades i {#} = 0" "trades i (M + N) = trades i M + trades i N" "trades i {#r#} = trade_of i r"
  by (simp_all add: trades_def)

lemma concat_nils [simp]: "concat (map (\<lambda>_. []) xs) = []"
  by (induction xs) simp_all

lemma trade_of_numbered [simp]: "trade_of i (numbered a r) = trade_of i r"
  by (simp add: trade_of_def numbered_def)

lemma unpublished_entry [simp]: "concat (map unpublished (entry e)) = []"
  by (cases e) (simp_all add: from_admin_def from_app_def)

lemma executed_cong: "app_book a' = app_book a \<Longrightarrow> executed i a' = executed i a"
  by (simp add: executed_def)

text \<open>Every callback but that of the fill keeps the executed quantity.\<close>

lemma act_trades_update:
  assumes "race_book a" "keeps_identity fn" "update_then j fn rp a = (follow, a')"
    and "\<And>ord. fst (fn ord) = None \<Longrightarrow> os_CumQty (snd (fn ord)) = os_CumQty ord + d"
    and "\<And>ord i. trade_of i (rp ord) = (if os_ClOrdID ord = i then d else 0)"
    and "\<And>ord. fst (fn ord) \<noteq> None \<Longrightarrow> snd (fn ord) = ord"
  shows "executed i a' = executed i a + trades i (mset (concat (map unpublished follow)))"
proof -
  have inv: "book_inv (app_book a)" using assms(1) by (simp add: race_book_def)
  show ?thesis
  proof (cases "Get j (app_book a)")
    case None
    then show ?thesis using assms(3) by (auto simp: update_then_def Update_None)
  next
    case (Some ord)
    have id: "os_ClOrdID ord = j" using Some by (auto simp: book_Get [OF inv] dest: log_get_Some)
    let ?b = "snd (Update j fn (app_book a))"
    have same: "Get j ?b = Some (snd (fn ord))" by (rule book.get_update_same [OF inv assms(2) Some])
    have other: "i \<noteq> j \<Longrightarrow> Get i ?b = Get i (app_book a)" by (rule book.get_update_other [OF inv assms(2)])
    have fst: "fst (Update j fn (app_book a)) =
        (case fst (fn ord) of Some err \<Rightarrow> Inl err | None \<Rightarrow> Inr (snd (fn ord)))"
      using Some by (simp add: Update_fst)
    have keep: "os_ClOrdID (snd (fn ord)) = j" using assms(2) id by (simp add: keeps_identity_def)
    have book: "app_book a' = ?b" using assms(3) by (auto simp: update_then_def split: prod.splits sum.splits)
    show ?thesis
    proof (cases "fst (fn ord)")
      case None
      then have "follow = [APublish (rp (snd (fn ord)))]"
        using assms(3) fst by (auto simp: update_then_def case_prod_beta)
      then show ?thesis
        using None Some same other keep assms(4,5) by (cases "i = j") (simp_all add: executed_def book)
    next
      case (Some err)
      then have "follow = []" using assms(3) fst by (auto simp: update_then_def case_prod_beta)
      then show ?thesis
        using Some \<open>Get j (app_book a) = _\<close> same other assms(6)
        by (cases "i = j") (simp_all add: executed_def book)
    qed
  qed
qed

lemma callbacks_cum:
  "fst (apply_fill L j q p ord) = None \<Longrightarrow> os_CumQty (snd (apply_fill L j q p ord)) = os_CumQty ord + q"
  "os_CumQty (snd (apply_cancel j ord)) = os_CumQty ord" "os_CumQty (snd (apply_reject j ord)) = os_CumQty ord"
  "os_CumQty (snd (set_canceled ord)) = os_CumQty ord"
  by (auto simp: callback_defs Let_def split: if_splits)

lemma callbacks_refuse:
  "fst (apply_fill L j q p ord) \<noteq> None \<Longrightarrow> snd (apply_fill L j q p ord) = ord"
  "fst (apply_cancel j ord) \<noteq> None \<Longrightarrow> snd (apply_cancel j ord) = ord"
  "fst (apply_reject j ord) \<noteq> None \<Longrightarrow> snd (apply_reject j ord) = ord"
  "fst (set_canceled ord) \<noteq> None \<Longrightarrow> snd (set_canceled ord) = ord"
  by (auto simp: callback_defs Let_def split: if_splits)

lemma trade_of_reports:
  "trade_of i (trade_report q p ord) = (if os_ClOrdID ord = i then q else 0)"
  "trade_of i (cancel_report t ord) = 0" "trade_of i (reject_report t ord) = 0"
  "trade_of i (mass_report t ord) = 0" "trade_of i (mk_report ord ExecTypeNew) = 0"
  by (simp_all add: trade_of_def report_kinds mk_report_def venue_consts)

lemma act_trades:
  assumes "race_book a" "act L x a = (follow, a')"
  shows "executed i a' + trades i (mset (unpublished x)) = executed i a +
    trades i (mset (concat (map unpublished follow))) + trades i (drawn False x a + drawn True x a)"
proof -
  note upd = act_trades_update [OF assms(1)]
  show ?thesis
  proof (cases x)
    case (APartial j q p)
    then show ?thesis
      using assms(2) upd [of "apply_fill L j q p" j "trade_report q p" follow a' q i]
      by (auto simp: drawn_def callbacks_cum callbacks_refuse trade_of_reports split: if_splits)
  next
    case (ACancel j t)
    then show ?thesis
      using assms(2) upd [of "apply_cancel j" j "cancel_report t" follow a' 0 i]
      by (simp add: drawn_def callbacks_cum callbacks_refuse trade_of_reports)
  next
    case (AReject j t)
    then show ?thesis
      using assms(2) upd [of "apply_reject j" j "reject_report t" follow a' 0 i]
      by (simp add: drawn_def callbacks_cum callbacks_refuse trade_of_reports)
  next
    case (ACancelOne t j)
    then show ?thesis
      using assms(2) upd [of set_canceled j "mass_report t" follow a' 0 i]
      by (simp add: drawn_def callbacks_cum callbacks_refuse trade_of_reports)
  next
    case (ADraw r s)
    have seq: "Get i (b\<lparr>bk_execSeq := n\<rparr>) = Get i b" for b n
      by (cases "bk_orders b i") (simp_all add: Get_def deref_def)
    from ADraw have "executed i a' = executed i a"
      using assms(2) by (auto simp: executed_def NextExecID_def Let_def seq)
    then show ?thesis using ADraw assms(2) by (cases s) (auto simp: drawn_def Let_def split: prod.splits)
  next
    case (ANewOrder msg)
    show ?thesis
    proof (cases "build_order L (msg_body msg)")
      case (Inr ord)
      have inv: "book_inv (app_book a)" using assms(1) by (simp add: race_book_def)
      have book: "app_book a' = snd (insert_new ord (app_book a)) \<and> concat (map unpublished follow) = []"
        using assms(2) ANewOrder Inr by (auto simp: insert_new_def Let_def split: prod.splits option.splits)
      have cum: "os_CumQty ord = 0" using Inr by (simp add: build_order_fresh)
      have "executed i a' = executed i a"
        using book cum book.get_insert [OF inv, of i ord] by (auto simp: executed_def)
      moreover have "trades i (mset (concat (map unpublished follow))) = 0"
        unfolding conjunct2 [OF book] by simp
      ultimately show ?thesis using ANewOrder by (simp add: drawn_def)
    qed (use ANewOrder assms in \<open>simp add: drawn_def\<close>)
  qed (use assms(2) in \<open>auto simp: drawn_def o_def SetSilenced_def SetRejectLogons_def OnLogon_def noteSent_def
        noteReceived_def onSessionLost_def send_def trade_of_reports executed_def
        split: if_splits option.splits sum.splits\<close>)
qed

lemma pending_step:
  assumes "k < length ts" "ts ! k = x # rest"
  shows "pending f (ts[k := follow @ rest]) + mset (f x) = pending f ts + mset (concat (map f follow))"
proof -
  let ?rest = "mset (concat (map f rest))"
  have "pending f (ts[k := follow @ rest]) + mset (f x) + ?rest =
      pending f ts + mset (concat (map f follow)) + ?rest"
    using pending_update [OF assms(1), of f "follow @ rest"] assms(2) by (simp add: ac_simps)
  then show ?thesis by simp
qed

lemma race_sent_act:
  assumes "k < length ts" "ts ! k = x # rest" "act L x a = (follow, a')"
    and "race_sent L (a, ts) D" "distinct (map fst (app_kinds a))"
  shows "race_sent L (a', ts[k := follow @ rest]) (D + drawn False x a)"
  unfolding race_sent_def fst_conv snd_conv
proof (intro ballI allI impI)
  fix r sid
  assume r: "r \<in> {KindOrderEntry, KindDropCopy}" and "(sid, r) \<in> set (app_kinds a')"
  moreover have kinds: "app_kinds a' = app_kinds a" by (rule act_seq(1) [OF assms(3)])
  ultimately have sid: "(sid, r) \<in> set (app_kinds a)" by simp
  have same: "sole r a' sid = sole r a sid" by (simp add: sole_def kinds)
  obtain R where R: "sent_as L sid a R" "R + pending (to_send r) ts \<subseteq># D"
    "sole r a sid \<longrightarrow> R + pending (to_send r) ts = D"
    using assms(4) r sid by (auto simp: race_sent_def)
  let ?x = "mset (to_send r x)" and ?new = "pending (to_send r) (ts[k := follow @ rest])"
  let ?follow = "mset (concat (map (to_send r) follow))" and ?drawn = "drawn False x a"
  obtain R' where R': "sent_as L sid a' R'" "R' + ?follow \<subseteq># R + ?x + ?drawn"
    "sole r a sid \<longrightarrow> R' + ?follow = R + ?x + ?drawn"
    using act_sent [OF assms(3,5) sid r R(1)] by auto
  have move: "(R' + ?new) + ?x = pending (to_send r) ts + (R' + ?follow)"
    using pending_step [OF assms(1,2), of "to_send r" follow] by (metis add.assoc add.left_commute)
  have "(R' + ?new) + ?x \<subseteq># pending (to_send r) ts + (R + ?x + ?drawn)"
    unfolding move using R'(2) by (rule subset_mset.add_left_mono)
  also have "\<dots> = (R + pending (to_send r) ts) + (?drawn + ?x)" by (simp only: ac_simps)
  also have "\<dots> \<subseteq># D + (?drawn + ?x)" using R(2) by (rule subset_mset.add_right_mono)
  finally have part: "R' + ?new \<subseteq># D + ?drawn" by (simp add: add.assoc [symmetric])
  have "R' + ?new = D + ?drawn" if alone: "sole r a sid"
  proof -
    have "(R' + ?new) + ?x = pending (to_send r) ts + (R + ?x + ?drawn)"
      unfolding move using R'(3) alone by simp
    also have "\<dots> = (R + pending (to_send r) ts) + (?drawn + ?x)" by (simp only: ac_simps)
    also have "\<dots> = (D + ?drawn) + ?x" using R(3) alone by (simp add: ac_simps)
    finally show ?thesis by simp
  qed
  with part R'(1) show "\<exists>R. sent_as L sid a' R \<and> R + ?new \<subseteq># D + ?drawn \<and> (sole r a' sid \<longrightarrow> R + ?new = D + ?drawn)"
    unfolding same by blast
qed

lemma drawn_ids:
  "image_mset rp_execID (drawn False x a + drawn True x a) =
     mset (map exec_name [Suc (bk_execSeq (app_book a))..<Suc (bk_execSeq (app_book a)) + size (drawn False x a + drawn True x a)])"
  by (cases x) (simp_all add: drawn_def numbered_def NextExecID_def Let_def)

lemma race_log_act:
  assumes "k < length ts" "ts ! k = x # rest" "act L x a = (follow, a')" "race_log L (a, ts) D X"
  shows "race_log L (a', ts[k := follow @ rest]) (D + drawn False x a) (X + drawn True x a)"
proof -
  let ?us = "ts[k := follow @ rest]" and ?new = "drawn False x a + drawn True x a"
  have log: "race_book a" "distinct (map fst (app_kinds a))" "race_sent L (a, ts) D"
    "image_mset rp_execID (D + X) = mset (map exec_name [1..<Suc (bk_execSeq (app_book a))])"
    "trades i (D + X) + trades i (pending unpublished ts) = executed i a" for i
    using assms(4) by (simp_all add: race_log_def)
  have seq: "bk_execSeq (app_book a') = bk_execSeq (app_book a) + size ?new" by (rule act_seq(2) [OF assms(3)])
  have "[1..<Suc (bk_execSeq (app_book a'))] =
      [1..<Suc (bk_execSeq (app_book a))] @ [Suc (bk_execSeq (app_book a))..<Suc (bk_execSeq (app_book a)) + size ?new]"
    unfolding seq using upt_add_eq_append [of 1 "Suc (bk_execSeq (app_book a))" "size ?new"] by simp
  then have ids: "image_mset rp_execID (D + X + ?new) = mset (map exec_name [1..<Suc (bk_execSeq (app_book a'))])"
    using log(4) drawn_ids [of x a] by simp
  have "trades i (D + X + ?new) + trades i (pending unpublished ?us) = executed i a'" for i
  proof -
    have "trades i (pending unpublished ?us) + trades i (mset (unpublished x)) =
        trades i (pending unpublished ts) + trades i (mset (concat (map unpublished follow)))"
      using arg_cong [OF pending_step [OF assms(1,2), of unpublished follow], of "trades i"] by simp
    then show ?thesis using act_trades [OF log(1) assms(3), of i] log(5) [of i] by simp
  qed
  moreover have "race_book a'" using act_book [OF log(1) assms(3)] by simp
  moreover note race_sent_act [OF assms(1-3) log(3,2)] act_seq(1) [OF assms(3)] log(2) ids
  ultimately show ?thesis by (simp add: race_log_def ac_simps)
qed

lemma race_log_other:
  assumes "race_log L (a, ts) D X" "app_book a' = app_book a" "app_kinds a' = app_kinds a"
    "app_outbox a' = app_outbox a"
    and "\<And>k. pending (to_send k) us = pending (to_send k) ts" "pending unpublished us = pending unpublished ts"
  shows "race_log L (a', us) D X"
  using assms executed_cong [OF assms(2)]
  by (auto simp: race_log_def race_sent_def sole_def sent_as_def messages_to_def race_book_def Orders_def)

lemma race_log_step:
  assumes "race_step L c d" "race_log L c D X"
  shows "\<exists>D' X'. race_log L d D' X' \<and> (X \<noteq> X' \<longrightarrow> (\<exists>t \<in> set (snd c). \<exists>r. ADraw r True \<in> set t))"
  using assms(1)
proof cases
  case (race_act k ts x rest a follow a')
  have "race_log L d (D + drawn False x a) (X + drawn True x a)"
    using race_log_act [OF race_act(3-5)] assms(2) race_act(1,2) by simp
  moreover have "x \<in> set (ts ! k)" "ts ! k \<in> set ts" using race_act(3,4) nth_mem [OF race_act(3)] by simp_all
  then have "X \<noteq> X + drawn True x a \<longrightarrow> (\<exists>t \<in> set (snd c). \<exists>r. ADraw r True \<in> set t)"
    using race_act(1) by (auto simp: drawn_def split: action.splits if_splits)
  ultimately show ?thesis by blast
next
  case (race_clock a now ts)
  have "race_log L d D X"
    unfolding race_clock(2) using assms(2) unfolding race_clock(1) by (rule race_log_other) simp_all
  then show ?thesis by blast
next
  case (race_timer a before tm "after" ts)
  have "race_log L d D X"
    unfolding race_timer(2) using assms(2) unfolding race_timer(1)
    by (rule race_log_other) (simp_all add: pending_new)
  then show ?thesis by blast
next
  case (race_arrive a ts e)
  have "race_log L d D X"
    unfolding race_arrive(2) using assms(2) unfolding race_arrive(1)
    by (rule race_log_other) (simp_all add: pending_new)
  then show ?thesis by blast
qed

subsection \<open>Properties\<close>

lemma started_log: "started a \<Longrightarrow> race_log L (a, []) {#} {#}"
proof -
  assume a: "started a"
  then have new: "app_book a = NewBook" "app_outbox a = []"
    using LoadKinds_frame by (fastforce simp: started_def New_def)+
  have "race_book a" "distinct (map fst (app_kinds a))"
    using reachable_inv [OF started_reachable [OF a]] venue_inv_race_book
    by (auto simp: venue_inv_def sent_ok_def)
  then show ?thesis
    by (simp add: race_log_def race_sent_def sent_as_def messages_to_def pending_def new NewBook_def
        executed_def Get_def)
qed

text \<open>A run in which the venue is never silenced.\<close>

inductive loud :: "lib \<Rightarrow> config \<Rightarrow> config \<Rightarrow> bool" for L where
  loud_refl: "\<not> app_silenced (fst c) \<Longrightarrow> loud L c c"
| loud_step: "loud L c d \<Longrightarrow> race_step L d e \<Longrightarrow> \<not> app_silenced (fst e) \<Longrightarrow> loud L c e"

definition none_held :: "action list list \<Rightarrow> bool" where
  "none_held ts \<longleftrightarrow> (\<forall>t \<in> set ts. \<forall>r. ADraw r True \<notin> set t)"

lemma act_held: "act L x a = (follow, a') \<Longrightarrow> ADraw r s \<in> set follow \<Longrightarrow> s = app_silenced a"
  by (cases x) (auto simp: update_then_def Let_def split: if_splits option.splits sum.splits prod.splits)

lemma none_held_step:
  assumes "race_step L c d" "none_held (snd c)" "\<not> app_silenced (fst c)"
  shows "none_held (snd d)"
  using assms(1)
proof cases
  case (race_act k ts x rest a follow a')
  have "ADraw r True \<notin> set (follow @ rest)" for r
  proof
    assume "ADraw r True \<in> set (follow @ rest)"
    then consider "ADraw r True \<in> set follow" | "ADraw r True \<in> set (ts ! k)" using race_act(4) by auto
    then show False
    proof cases
      case 1
      then show False using act_held [OF race_act(5)] assms(3) race_act(1) by auto
    next
      case 2
      then show False using assms(2) race_act(1) nth_mem [OF race_act(3)] unfolding none_held_def by auto
    qed
  qed
  then show ?thesis
    using assms(2) race_act(1,2) set_update_subset_insert [of ts k "follow @ rest"]
    unfolding none_held_def by fastforce
next
  case (race_arrive a ts e)
  have "ADraw r True \<notin> set (entry e)" for r by (cases e) (simp_all add: from_admin_def from_app_def)
  then show ?thesis using assms(2) race_arrive by (auto simp: none_held_def)
qed (use assms(2) in \<open>auto simp: none_held_def\<close>)

lemma loud_log:
  "loud L c d \<Longrightarrow> race_log L c D X \<Longrightarrow> none_held (snd c) \<Longrightarrow>
     \<not> app_silenced (fst d) \<and> none_held (snd d) \<and> (\<exists>D'. race_log L d D' X)"
proof (induction rule: loud.induct)
  case (loud_step c d e)
  then obtain D' where quiet: "\<not> app_silenced (fst d)" "none_held (snd d)" and "race_log L d D' X" by blast
  from race_log_step [OF loud_step.hyps(2) this(3)] quiet(2)
  have "\<exists>D''. race_log L e D'' X" unfolding none_held_def by metis
  then show ?case using none_held_step [OF loud_step.hyps(2) quiet(2,1)] loud_step.hyps(3) by blast
qed blast

lemma race_reachable_log: "race_reachable L c \<Longrightarrow> \<exists>D X. race_log L c D X"
proof -
  assume "race_reachable L c"
  then obtain a where "started a" "races L (a, []) c" by (auto simp: race_reachable_def)
  from this(2) started_log [OF this(1), of L] show ?thesis
  proof (induction rule: races.induct)
    case (races_step c d e)
    then show ?case using race_log_step by blast
  qed blast
qed

text \<open>
  C11. Under any interleaving, no session of either role is sent two reports with the same
  ExecID, and every ExecID it is sent is one the venue has drawn.
\<close>

theorem race_exec_ids:
  assumes "race_reachable L (a, ts)" "(sid, k) \<in> set (app_kinds a)" "k \<in> {KindOrderEntry, KindDropCopy}"
  shows "distinct (map exec_id (messages_to sid a)) \<and>
    set (map exec_id (messages_to sid a)) \<subseteq> exec_name ` {1..bk_execSeq (app_book a)}"
proof -
  let ?n = "bk_execSeq (app_book a)"
  obtain D X where log: "race_log L (a, ts) D X" using race_reachable_log [OF assms(1)] by blast
  with assms(2,3) obtain R where R: "sent_as L sid a R" "R + pending (to_send k) ts \<subseteq># D"
    by (auto simp: race_log_def race_sent_def)
  then obtain E where "D = R + (pending (to_send k) ts + E)"
    by (auto simp: subset_mset.le_iff_add ac_simps)
  then have part: "mset (map exec_id (messages_to sid a)) +
      image_mset rp_execID (pending (to_send k) ts + E + X) = mset (map exec_name [1..<Suc ?n])"
    using log sent_as_ids [OF R(1)] by (auto simp: race_log_def ac_simps)
  have "inj exec_name" using exec_ids.render_eq_iff by (auto simp: inj_def)
  then have "distinct (map exec_name [1..<Suc ?n])" by (simp add: distinct_map inj_on_subset)
  from distinct_part [OF this part] have "distinct (map exec_id (messages_to sid a))" .
  moreover have "set_mset (mset (map exec_id (messages_to sid a))) \<subseteq> set_mset (mset (map exec_name [1..<Suc ?n]))"
    unfolding part [symmetric] by simp
  then have "set (map exec_id (messages_to sid a)) \<subseteq> exec_name ` {1..?n}"
    by (simp only: set_mset_mset set_map set_upt atLeastLessThanSuc_atLeastAtMost)
  ultimately show ?thesis ..
qed

text \<open>A closed run in which three goroutines interleave and end.\<close>

definition demo_finish :: "nat list" where
  "demo_finish = [0, 0, 0, 1, 2, 1, 2, 2, 0, 2, 0, 1, 2, 2, 0, 1, 2, 0, 1, 0, 1, 2]"

lemma demo_finish_eval:
  "concat (snd (demo_race demo_finish)) = [] \<and>
   app_kinds (fst (demo_race demo_finish)) = app_kinds demo_start \<and>
   executed ''C1'' (fst (demo_race demo_finish)) = 100"
  by (simp add: race_eval demo_finish_def executed_def)

lemmas demo_finish_roles = demo_roles [OF conjunct1 [OF conjunct2 [OF demo_finish_eval]]]

lemma demo_finish_reachable: "race_reachable demo_lib (fst (demo_race demo_finish), snd (demo_race demo_finish))"
  using demo_race_reachable by (metis prod.collapse)

theorem race_exec_ids_witness:
  "distinct (map exec_id (messages_to demo_oe (fst (demo_race demo_finish))))"
  using race_exec_ids [OF demo_finish_reachable, of demo_oe KindOrderEntry] demo_finish_roles(1)
  by (simp add: sole_def)

lemma nothing_pending: "concat ts = [] \<Longrightarrow> pending f ts = {#}"
  by (simp only: pending_def list.map concat.simps mset.simps)

lemma sent_when_done:
  assumes "race_log L (a, ts) D X" "concat ts = []" "sole k a sid"
    and "k \<in> {KindOrderEntry, KindDropCopy}"
  shows "sent_as L sid a D"
  using assms nothing_pending [OF assms(2), of "to_send k"] by (fastforce simp: race_log_def race_sent_def sole_def)

text \<open>
  C13. However the handlers interleave, when they are finished an order-entry and a drop-copy
  session that are alone in their roles have been sent the same reports, up to their order and the times they were built at.
\<close>

theorem race_feeds_agree:
  assumes "race_reachable L (a, ts)" "concat ts = []"
    and "sole KindOrderEntry a oe" "sole KindDropCopy a dc"
  shows "mset (map untimed (messages_to oe a)) = mset (map untimed (messages_to dc a))"
proof -
  obtain D X where "race_log L (a, ts) D X" using race_reachable_log [OF assms(1)] by blast
  then have "sent_as L oe a D" "sent_as L dc a D"
    using sent_when_done [OF _ assms(2)] assms(3,4) by blast+
  then show ?thesis by (simp add: sent_as_def)
qed

theorem race_feeds_agree_witness:
  "mset (map untimed (messages_to demo_oe (fst (demo_race demo_finish)))) =
   mset (map untimed (messages_to demo_dc (fst (demo_race demo_finish))))"
  using race_feeds_agree [OF demo_finish_reachable _ demo_finish_roles] demo_finish_eval by blast

text \<open>
  C12. However the handlers interleave, a venue that was never silenced has reported every
  execution exactly once: when the handlers are finished, what a session that is alone in its role was sent are the
  renderings of some reports, and for each order the last quantities of its trade reports among
  them add up to its executed quantity.
\<close>

theorem race_trades_add_up:
  assumes "started a0" "loud L (a0, []) (a, ts)" "concat ts = []" "has_role sid a"
  shows "\<exists>D. mset (map untimed (messages_to sid a)) = image_mset (rendering L) D \<and>
    (\<forall>i. trades i D = (case Get i (app_book a) of None \<Rightarrow> 0 | Some ord \<Rightarrow> os_CumQty ord))"
proof -
  obtain D where D: "race_log L (a, ts) D {#}"
    using loud_log [OF assms(2) started_log [OF assms(1)]] by (auto simp: none_held_def)
  then have "sent_as L sid a D"
    using sent_when_done [OF _ assms(3)] assms(4) by (auto simp: has_role_def)
  moreover have "trades i D = executed i a" for i
    using D nothing_pending [OF assms(3), of unpublished] by (simp add: race_log_def)
  ultimately show ?thesis unfolding sent_as_def executed_def by blast
qed

fun loud_schedule :: "lib \<Rightarrow> nat list \<Rightarrow> config \<Rightarrow> bool" where
  "loud_schedule L [] c = (\<not> app_silenced (fst c))"
| "loud_schedule L (k # ks) c = (\<not> app_silenced (fst c) \<and> loud_schedule L ks (move L k c))"

lemma move_loud: "loud L c d \<Longrightarrow> \<not> app_silenced (fst (move L k d)) \<Longrightarrow> loud L c (move L k d)"
proof -
  assume c: "loud L c d" and quiet: "\<not> app_silenced (fst (move L k d))"
  consider "move L k d = d" | "race_step L d (move L k d)" using move_cases by blast
  then show "loud L c (move L k d)" by cases (use c quiet loud_step in \<open>auto\<close>)
qed

lemma loud_schedule_loud: "loud L c d \<Longrightarrow> loud_schedule L ks d \<Longrightarrow> loud L c (run_schedule L ks d)"
proof (induction ks arbitrary: d)
  case (Cons k ks)
  have "\<not> app_silenced (fst (move L k d))" using Cons.prems(2) by (cases ks) simp_all
  with Cons show ?case by (simp add: move_loud)
qed simp

lemma loud_arrive: "loud L c (a, ts) \<Longrightarrow> \<not> app_silenced a \<Longrightarrow> loud L c (a, ts @ map entry es)"
proof (induction es arbitrary: ts)
  case (Cons e es)
  from Cons.IH [OF loud_step [OF Cons.prems(1) race_arrive, of e]] Cons.prems(2) show ?case by simp
qed simp

theorem race_trades_add_up_witness:
  "\<exists>D. mset (map untimed (messages_to demo_oe (fst (demo_race demo_finish)))) = image_mset (rendering demo_lib) D \<and>
     trades ''C1'' D = 100"
proof -
  let ?es = "[EvFromApp (demo_order ''C1'' ''0'') demo_oe, EvPartial ''C1'' 30 25, EvFill ''C1'' 26]"
  have quiet: "\<not> app_silenced demo_start" by (simp add: demo_eval)
  have "loud demo_lib (demo_start, []) (demo_start, [])" by (rule loud_refl) (simp add: quiet)
  from loud_arrive [OF this quiet, of ?es]
  have "loud demo_lib (demo_start, []) (demo_start, map entry ?es)" by simp
  moreover have "loud_schedule demo_lib demo_finish (demo_start, map entry ?es)"
    by (simp add: race_eval demo_finish_def)
  ultimately have "loud demo_lib (demo_start, []) (fst (demo_race demo_finish), snd (demo_race demo_finish))"
    using loud_schedule_loud unfolding demo_race_def by fastforce
  from race_trades_add_up [OF demo_started this, of demo_oe] demo_finish_eval demo_finish_roles(1)
  show ?thesis unfolding has_role_def executed_def by metis
qed

end
