(* ===== verification/LogonProps.thy ===== *)
theory LogonProps
  imports VenueProps
begin

text \<open>
  Who may log on and in which role (\<open>FromAdmin\<close>, \<open>LoadKinds\<close>, \<open>checkPassword\<close>,
  \<open>sessionOf\<close>, \<open>FromApp\<close> and the sequence gap of \<open>internal/exchange\<close>, with
  \<open>internal/session/logon.go\<close>): the venue's decision on a Logon, the handshake with a client
  that used \<open>InjectLogon\<close>, the credentials captured at startup, and the read-only session.
\<close>

subsection \<open>Loading the settings\<close>

lemma capture_password_expect:
  "app_expect (capture_password getenv sid (RegisterKind sid k a)) t =
     (if t = TargetCompID sid \<and> getenv (PasswordEnvVar t) \<noteq> [] then Some (getenv (PasswordEnvVar t))
      else app_expect a t)"
  by (auto simp: capture_password_def Password_def RegisterKind_def Let_def)

lemma LoadKinds_Cons:
  assumes "LoadKinds getenv ((sid, s) # rest) a = (None, a')"
  obtains kind where "kind \<in> {KindOrderEntry, KindDropCopy}"
    "LoadKinds getenv rest (capture_password getenv sid (RegisterKind sid kind a)) = (None, a')"
  using assms by (auto simp: Let_def split: option.splits if_splits)

lemma LoadKinds_expect:
  "LoadKinds getenv settings a = (None, a') \<Longrightarrow>
     app_expect a' t =
       (if t \<in> TargetCompID ` fst ` set settings \<and> getenv (PasswordEnvVar t) \<noteq> []
        then Some (getenv (PasswordEnvVar t)) else app_expect a t)"
proof (induction settings arbitrary: a)
  case (Cons x rest)
  obtain sid s where x: "x = (sid, s)" by force
  obtain kind where
    "LoadKinds getenv rest (capture_password getenv sid (RegisterKind sid kind a)) = (None, a')"
    using Cons.prems unfolding x by (rule LoadKinds_Cons)
  from Cons.IH [OF this] show ?case by (auto simp: x capture_password_expect)
qed simp

lemma LoadKinds_kinds:
  "LoadKinds getenv settings a = (None, a') \<Longrightarrow>
     dom (map_of (app_kinds a')) = dom (map_of (app_kinds a)) \<union> fst ` set settings \<and>
     (ran (map_of (app_kinds a)) \<subseteq> {KindOrderEntry, KindDropCopy} \<longrightarrow>
      ran (map_of (app_kinds a')) \<subseteq> {KindOrderEntry, KindDropCopy})"
proof (induction settings arbitrary: a)
  case (Cons x rest)
  obtain sid s where x: "x = (sid, s)" by force
  obtain kind where kind: "kind \<in> {KindOrderEntry, KindDropCopy}" and
    load: "LoadKinds getenv rest (capture_password getenv sid (RegisterKind sid kind a)) = (None, a')"
    using Cons.prems unfolding x by (rule LoadKinds_Cons)
  have "ran ((map_of (app_kinds a))(sid \<mapsto> kind)) \<subseteq> ran (map_of (app_kinds a)) \<union> {kind}"
    by (auto simp: ran_def)
  moreover have "dom ((map_of (app_kinds a))(sid \<mapsto> kind)) = insert sid (dom (map_of (app_kinds a)))" by simp
  ultimately show ?case
    using kind Cons.IH [OF load] by (simp add: x frame update_conv' del: dom_fun_upd fun_upd_apply) blast
qed simp

lemma LoadKinds_reject:
  "LoadKinds getenv settings a = (r, a') \<Longrightarrow> app_rejectLogons a' = app_rejectLogons a"
proof (induction getenv settings a rule: LoadKinds.induct)
  case (2 getenv sid s rest a)
  have frame1: "app_rejectLogons (capture_password getenv sid (RegisterKind sid k a)) = app_rejectLogons a" for k
    by (simp add: capture_password_def RegisterKind_def split: sum.split)
  show ?case using 2 frame1 by (auto simp: Let_def split: option.splits if_splits)
qed simp

lemma started_cod: "started a \<Longrightarrow> app_cod a = Map.empty"
proof -
  have "LoadKinds getenv settings a = (r, a') \<Longrightarrow> app_cod a' = app_cod a" for getenv settings r a a'
  proof (induction getenv settings a rule: LoadKinds.induct)
    case (2 getenv sid s rest a)
    have "app_cod (capture_password getenv sid (RegisterKind sid k a)) = app_cod a" for k
      by (simp add: capture_password_def RegisterKind_def split: sum.split)
    then show ?case using 2 by (auto simp: Let_def split: option.splits if_splits)
  qed simp
  then show "started a \<Longrightarrow> app_cod a = Map.empty" by (auto simp: started_def New_def)
qed

subsection \<open>Properties\<close>

definition logon_accepted :: "lib \<Rightarrow> message \<Rightarrow> SessionID \<Rightarrow> App \<Rightarrow> bool" where
  "logon_accepted L msg sid a \<longleftrightarrow> app_rejectLogons a = [] \<and>
     (case app_expect a (TargetCompID sid) of
        None \<Rightarrow> True
      | Some pw \<Rightarrow> lr_Password (ParseLogon L msg sid) = pw)"

lemma FromAdmin_logon:
  assumes "msg_header msg tagMsgType = Some ''A''"
  shows "(fst (FromAdmin L msg sid a) = None \<longleftrightarrow> logon_accepted L msg sid a) \<and>
    (\<not> logon_accepted L msg sid a \<longrightarrow>
       fst (FromAdmin L msg sid a) = Some (RejectLogon
         (if app_rejectLogons a \<noteq> [] then app_rejectLogons a else ''invalid credentials''))) \<and>
    app_cod (snd (FromAdmin L msg sid a)) =
      (if logon_accepted L msg sid a then (app_cod a)(sid \<mapsto> ParseLogon L msg sid) else app_cod a)"
  using assms
  by (auto simp: FromAdmin_def logon_accepted_def checkPassword_def note_frame Let_def split: option.split)

text \<open>
  The venue's decision on a Logon: it is accepted exactly when no refusal is commanded and
  the password on it is the one captured for that counterparty, if one was. A refused Logon is
  answered by RejectLogon with the commanded reason or \<open>invalid credentials\<close>, and arms
  nothing; an accepted one replaces the session's cancel-on-disconnect request by the one it
  carries. No Logon marks the session as up or touches an order or a report.
\<close>

theorem logon_decision:
  assumes "msg_header msg tagMsgType = Some ''A''"
  shows "(fst (FromAdmin L msg sid a) = None \<longleftrightarrow> logon_accepted L msg sid a) \<and>
    (\<not> logon_accepted L msg sid a \<longrightarrow>
       fst (FromAdmin L msg sid a) = Some (RejectLogon
         (if app_rejectLogons a \<noteq> [] then app_rejectLogons a else ''invalid credentials''))) \<and>
    app_cod (snd (FromAdmin L msg sid a)) =
      (if logon_accepted L msg sid a then (app_cod a)(sid \<mapsto> ParseLogon L msg sid) else app_cod a) \<and>
    app_loggedOn (snd (FromAdmin L msg sid a)) = app_loggedOn a \<and>
    Orders (snd (FromAdmin L msg sid a)) = Orders a \<and>
    app_outbox (snd (FromAdmin L msg sid a)) = app_outbox a"
  using FromAdmin_logon [OF assms] by (simp add: frame Orders_def)

theorem logon_decision_witness:
  "fst (FromAdmin demo_lib demo_logon demo_oe demo_start) = None"
proof -
  have "msg_header demo_logon tagMsgType = Some ''A''" by (simp add: demo_eval)
  moreover have "logon_accepted demo_lib demo_logon demo_oe demo_start"
    by (simp add: logon_accepted_def demo_eval)
  ultimately show ?thesis using logon_decision by blast
qed

text \<open>
  C31. The handshake, from the client's credentials to the venue's state: a client that filled
  in a fresh Logon with \<open>InjectLogon\<close> is accepted by a venue that has just loaded its settings
  exactly when the venue's environment sets no password for that client or the client's
  environment sets the same one; then the venue has armed exactly the mode and the window of the client's
  credentials (a disabled mode and no window when the mode is 0).
\<close>

theorem logon_handshake:
  assumes "int_roundtrip L" "fresh_logon msg" "msg_header msg tagMsgType = Some ''A''"
    and "int64 (lc_CODType creds)" "int64 (lc_CODTimeoutWindow creds)"
    and "LoadKinds venue_env settings (New NewBook) = (None, a)" "sid \<in> fst ` set settings"
    and "SenderCompID client = TargetCompID sid"
  shows "let var = PasswordEnvVar (SenderCompID client);
             sent = snd (InjectLogon L client_env msg client creds);
             (answer, a') = FromAdmin L sent sid a
         in (answer = None \<longleftrightarrow> venue_env var = [] \<or> client_env var = venue_env var) \<and>
            (answer = None \<longrightarrow> (\<exists>req. app_cod a' sid = Some req \<and>
               lr_CODType req = lc_CODType creds \<and>
               lr_CODTimeoutWindow req =
                 (if lc_CODType creds = CODDisabled then 0 else lc_CODTimeoutWindow creds)))"
proof -
  let ?sent = "snd (InjectLogon L client_env msg client creds)"
  let ?var = "PasswordEnvVar (SenderCompID client)"
  note parse = ParseLogon_InjectLogon [OF assms(1,2,4,5), of client_env client sid]
  have "msg_header ?sent tagMsgType = Some ''A''"
    using assms(3) by (simp add: InjectLogon_def Let_def split: sum.split)
  note decision = FromAdmin_logon [OF this, of L sid a]
  have "app_rejectLogons a = []" using LoadKinds_reject [OF assms(6)] by (simp add: New_def)
  moreover have "app_expect a (TargetCompID sid) =
      (if venue_env ?var \<noteq> [] then Some (venue_env ?var) else None)"
    using LoadKinds_expect [OF assms(6), of "TargetCompID sid"] assms(7,8) by (auto simp: New_def)
  ultimately have "logon_accepted L ?sent sid a \<longleftrightarrow> venue_env ?var = [] \<or> client_env ?var = venue_env ?var"
    by (auto simp: logon_accepted_def parse)
  with decision show ?thesis by (auto simp: parse Let_def split: prod.split)
qed

theorem logon_handshake_witness:
  "fst (FromAdmin demo_lib (snd (InjectLogon demo_lib demo_env
       \<lparr>msg_header = [tagMsgType \<mapsto> ''A''], msg_body = Map.empty\<rparr> demo_client
       demo_creds)) demo_oe demo_start) = None"
proof -
  have load: "LoadKinds demo_env demo_settings (New NewBook) = (None, demo_start)" by (rule demo_loaded)
  have "fresh_logon \<lparr>msg_header = [tagMsgType \<mapsto> ''A''], msg_body = Map.empty\<rparr>"
    by (simp add: fresh_logon_def)
  from logon_handshake [OF demo_int_roundtrip this, where sid = demo_oe and client = demo_client
      and creds = demo_creds
      and client_env = demo_env and venue_env = demo_env and a = demo_start
      and settings = demo_settings] load
  show ?thesis
    by (simp add: demo_settings_def demo_client_def demo_oe_def demo_creds_def Let_def case_prod_beta)
qed

text \<open>
  A venue that started knows the role of exactly the configured sessions, each of them one
  of the two roles, and expects of each counterparty the password its environment held then.
\<close>

theorem load_kinds_result:
  assumes "LoadKinds getenv settings (New NewBook) = (None, a)"
  shows "dom (map_of (app_kinds a)) = fst ` set settings \<and>
    ran (map_of (app_kinds a)) \<subseteq> {KindOrderEntry, KindDropCopy} \<and>
    app_expect a = (\<lambda>t. if t \<in> TargetCompID ` fst ` set settings \<and> getenv (PasswordEnvVar t) \<noteq> []
                        then Some (getenv (PasswordEnvVar t)) else None)"
  using LoadKinds_kinds [OF assms] LoadKinds_expect [OF assms] by (auto simp: New_def)

theorem load_kinds_result_witness:
  "dom (map_of (app_kinds demo_start)) = {demo_oe, demo_dc}"
  using load_kinds_result [OF demo_loaded] by (simp add: demo_settings_def)

text \<open>
  Two sessions read the same environment variable exactly when their CompIDs agree up to
  the case of ASCII letters.
\<close>

theorem password_variable_collision:
  "PasswordEnvVar s = PasswordEnvVar t \<longleftrightarrow> ToUpper s = ToUpper t"
  by (rule PasswordEnvVar_eq)

text \<open>
  A drop-copy session is read-only: whatever application message arrives on it, the venue
  answers with the same business reject and changes nothing but the sequence number it noted.
  That includes a business reject (35=j) and a session reject (35=3): the guard against
  rejecting a reject comes after the check of the role.
\<close>

theorem drop_copy_read_only:
  assumes "kindOf sid a = KindDropCopy"
  shows "FromApp L msg sid a = (Some (BusinessReject DropCopyReadOnly 3), noteReceived L msg sid a) \<and>
    Orders (snd (FromApp L msg sid a)) = Orders a \<and>
    app_outbox (snd (FromApp L msg sid a)) = app_outbox a"
  using assms by (simp add: FromApp_def kindOf_def note_frame Orders_def Let_def)

theorem drop_copy_read_only_witness:
  "fst (FromApp demo_lib \<lparr>msg_header = [tagMsgType \<mapsto> ''j''], msg_body = Map.empty\<rparr> demo_dc demo_start)
   = Some (BusinessReject DropCopyReadOnly 3)"
proof -
  have "kindOf demo_dc demo_start = KindDropCopy" by (simp add: demo_eval)
  from drop_copy_read_only [OF this] show ?thesis by simp
qed

text \<open>
  Which session a role names. Every session registered with the role is found at some call of
  the loop over the map of roles, none but those ever is, and the answer is the same at every
  call exactly when at most one session has the role.
\<close>

theorem role_is_picked:
  "((sid, kind) \<in> set (app_kinds a) \<longleftrightarrow> (\<exists>n. sessionOf n kind a = Some sid)) \<and>
   ((\<forall>n m. sessionOf n kind a = sessionOf m kind a) \<longleftrightarrow>
      sessionOf 0 kind a = None \<or> (\<exists>i. sole kind a i))"
proof -
  have found: "\<exists>n. sessionOf n kind a = Some i" if member: "(i, kind) \<in> set (app_kinds a)" for i
  proof -
    obtain xs ys where "app_kinds a = xs @ (i, kind) # ys"
      using split_list [OF member] by blast
    then have "rotate (length xs) (app_kinds a) = ((i, kind) # ys) @ xs" by (simp add: rotate_append)
    then have "sessionOf (length xs) kind a = Some i" by (simp add: sessionOf_def)
    then show ?thesis by blast
  qed
  have fixed: "sessionOf 0 kind a = None \<or> (\<exists>i. sole kind a i)"
    if same: "\<forall>n m. sessionOf n kind a = sessionOf m kind a"
  proof (cases "sessionOf 0 kind a")
    case (Some i)
    have only: "j = i" if member: "(j, kind) \<in> set (app_kinds a)" for j
    proof -
      obtain n where "sessionOf n kind a = Some j" using found [OF member] by blast
      then show ?thesis using same [rule_format, of n 0] Some by simp
    qed
    have "sole kind a i" unfolding sole_def using only sessionOf_in [OF Some] by blast
    then show ?thesis by blast
  qed simp
  have none: "sessionOf n kind a = None" if "sessionOf 0 kind a = None" for n
  proof (rule ccontr)
    assume "sessionOf n kind a \<noteq> None"
    then obtain i where "sessionOf n kind a = Some i" by auto
    then have "(i, kind) \<in> set (app_kinds a)" by (rule sessionOf_in)
    moreover have "(i, kind) \<notin> set (rotate 0 (app_kinds a))"
      using sessionOf_loop_None that by (simp add: sessionOf_def)
    ultimately show False by simp
  qed
  have same: "sessionOf n kind a = sessionOf m kind a" if "sessionOf 0 kind a = None \<or> (\<exists>i. sole kind a i)" for n m
  using that
  proof
    assume "sessionOf 0 kind a = None"
    from none [OF this, of n] none [OF this, of m] show ?thesis by simp
  next
    assume "\<exists>i. sole kind a i"
    then obtain i where "sole kind a i" by blast
    from sole_sessionOf [OF this, of n] sole_sessionOf [OF this, of m] show ?thesis by simp
  qed
  show ?thesis
  proof (intro conjI iffI)
    show "\<exists>n. sessionOf n kind a = Some sid" if "(sid, kind) \<in> set (app_kinds a)" by (rule found [OF that])
    show "(sid, kind) \<in> set (app_kinds a)" if "\<exists>n. sessionOf n kind a = Some sid"
      using that by (elim exE) (rule sessionOf_in)
    show "sessionOf 0 kind a = None \<or> (\<exists>i. sole kind a i)"
      if "\<forall>n m. sessionOf n kind a = sessionOf m kind a" by (rule fixed [OF that])
    show "\<forall>n m. sessionOf n kind a = sessionOf m kind a"
      if "sessionOf 0 kind a = None \<or> (\<exists>i. sole kind a i)" using same [OF that] by blast
  qed
qed

text \<open>
  The sequence gap: the command succeeds only with a positive count, a configured session
  and an engine that answers; it then writes the present number plus the count, in 64-bit
  arithmetic, and otherwise leaves the engine as it was. Within the 64-bit range the number
  written is larger than the present one; past it the sum wraps and the number is negative.
\<close>

theorem advance_seq_num:
  assumes "sessionOf n0 kind a = Some sid" "sid \<noteq> zero_SessionID" "get_num e sid = Inr cur"
    and "0 < n" "n < 2 ^ 63" "0 \<le> cur" "cur < 2 ^ 63" "set_num e sid (wrap64 (cur + n)) = Inr e'"
  shows "AdvanceSeqNum n0 get_num set_num kind n a e = (Inr (wrap64 (cur + n)), e') \<and>
    (wrap64 (cur + n) = cur + n \<longleftrightarrow> cur + n < 2 ^ 63) \<and>
    (\<not> cur + n < 2 ^ 63 \<longrightarrow> wrap64 (cur + n) < 0)"
proof -
  have w: "wrap64 (cur + n) = (if cur + n < 2 ^ 63 then cur + n else cur + n - 2 ^ 64)"
  proof (cases "cur + n < 2 ^ 63")
    case True
    then show ?thesis using assms by (simp add: wrap64_id)
  next
    case False
    have "wrap64 (cur + n) = wrap64 (cur + n - 2 ^ 64)" by (rule wrap64_period)
    then show ?thesis using False assms by (simp add: wrap64_id)
  qed
  then show ?thesis using assms by (auto simp: AdvanceSeqNum_def Let_def)
qed

theorem advance_seq_num_witness:
  "AdvanceSeqNum 0 (\<lambda>e i. Inr e) (\<lambda>e i n. Inr n) KindOrderEntry 5 demo_start (7 :: int) = (Inr 12, 12)"
proof -
  have "sessionOf 0 KindOrderEntry demo_start = Some demo_oe" "demo_oe \<noteq> zero_SessionID"
    by (simp_all add: demo_eval zero_SessionID_def)
  from advance_seq_num [OF this, of "\<lambda>e i. Inr e" 7 7 5 "\<lambda>e i n. Inr n" 12] show ?thesis
    by (simp add: wrap64_id)
qed

end
