(* ===== verification/RaceLogon.thy ===== *)
theory RaceLogon
  imports RaceProps LogonProps
begin

text \<open>
  Logons and disconnects under interleaving: an armed cancel on disconnect always comes from a
  Logon with the right password, and a client that is back in time can lose its orders.
\<close>

subsection \<open>Credentials\<close>

text \<open>The requests an action is about to arm or to act on.\<close>

fun unchecked_free :: "App \<Rightarrow> action \<Rightarrow> bool" where
  "unchecked_free a (AArmCod sid req) = (checkPassword sid (lr_Password req) a = None)"
| "unchecked_free a (AArmTimer sid req) = (checkPassword sid (lr_Password req) a = None)"
| "unchecked_free a _ = True"

definition credentials_ok :: "config \<Rightarrow> bool" where
  "credentials_ok c \<longleftrightarrow>
     (\<forall>sid req. app_cod (fst c) sid = Some req \<longrightarrow> checkPassword sid (lr_Password req) (fst c) = None) \<and>
     (\<forall>t \<in> set (snd c). \<forall>x \<in> set t. unchecked_free (fst c) x)"

lemma checkPassword_cong:
  "app_expect a' = app_expect a \<Longrightarrow> checkPassword sid pw a' = checkPassword sid pw a"
  by (simp add: checkPassword_def)

lemma unchecked_free_cong: "app_expect a' = app_expect a \<Longrightarrow> unchecked_free a' x = unchecked_free a x"
  by (cases x) (simp_all add: checkPassword_def)

lemma act_expect:
  assumes "act L x a = (follow, a')"
  shows "app_expect a' = app_expect a"
  using assms
  by (cases x) (auto simp: update_then_def Let_def SetSilenced_def SetRejectLogons_def OnLogon_def
      noteSent_def noteReceived_def onSessionLost_def send_def
      split: if_splits option.splits sum.splits prod.splits)

lemma act_cod:
  assumes "act L x a = (follow, a')"
  shows "app_cod a' = (case x of AArmCod sid req \<Rightarrow> (app_cod a)(sid \<mapsto> req) | _ \<Rightarrow> app_cod a)"
  using assms
  by (cases x) (auto simp: update_then_def Let_def SetSilenced_def SetRejectLogons_def OnLogon_def
      noteSent_def noteReceived_def onSessionLost_def send_def
      split: if_splits option.splits sum.splits prod.splits)

lemma act_unchecked_free:
  assumes "act L x a = (follow, a')" "y \<in> set follow"
    and "\<And>sid req. app_cod a sid = Some req \<Longrightarrow> checkPassword sid (lr_Password req) a = None"
  shows "unchecked_free a y"
  using assms
  by (cases x) (auto simp: update_then_def Let_def split: if_splits option.splits sum.splits prod.splits)

lemma credentials_step:
  assumes "race_step L c d" "credentials_ok c"
  shows "credentials_ok d"
  using assms(1)
proof cases
  case (race_act k ts x rest a follow a')
  note act = race_act(5)
  note cong = checkPassword_cong [OF act_expect [OF act]] unchecked_free_cong [OF act_expect [OF act]]
  have cod: "app_cod a sid = Some req \<Longrightarrow> checkPassword sid (lr_Password req) a = None"
    and free: "t \<in> set ts \<Longrightarrow> y \<in> set t \<Longrightarrow> unchecked_free a y" for sid req t y
    using assms(2) race_act(1) by (auto simp: credentials_ok_def)
  have mine: "y \<in> set (x # rest) \<Longrightarrow> unchecked_free a y" for y
    using free [OF nth_mem [OF race_act(3)]] race_act(4) by simp
  have "unchecked_free a y" if "t \<in> set (ts[k := follow @ rest])" "y \<in> set t" for t y
    using that set_update_subset_insert [of ts k "follow @ rest"] free mine act_unchecked_free [OF act _ cod]
    by fastforce
  moreover have "checkPassword sid (lr_Password req) a = None" if "app_cod a' sid = Some req" for sid req
    using that cod mine [of x] by (auto simp: act_cod [OF act] split: action.splits if_splits)
  ultimately show ?thesis using race_act(2) by (auto simp: credentials_ok_def cong)
next
  case (race_arrive a ts e)
  have "\<forall>x \<in> set (entry e). unchecked_free a x" by (cases e) (simp_all add: from_admin_def from_app_def)
  then show ?thesis using assms(2) race_arrive by (auto simp: credentials_ok_def)
next
  case (race_clock a now ts)
  have "app_expect (a\<lparr>app_now := now\<rparr>) = app_expect a" by simp
  note cong = checkPassword_cong [OF this] unchecked_free_cong [OF this]
  show ?thesis using assms(2) race_clock by (simp add: credentials_ok_def cong)
next
  case (race_timer a before tm "after" ts)
  have "app_expect (a\<lparr>app_timers := before @ after\<rparr>) = app_expect a" by simp
  note cong = checkPassword_cong [OF this] unchecked_free_cong [OF this]
  show ?thesis using assms(2) race_timer by (auto simp: credentials_ok_def cong)
qed

text \<open>
  C14. However the callbacks and the commands interleave, a session whose cancel on disconnect is
  armed presented the password the venue captured for its counterparty at the start: the check
  and the write of the request are two lock regions, and nothing can come between them that
  makes the check void.
\<close>

theorem race_credentials:
  assumes "race_reachable L (a, ts)" "app_cod a sid = Some req" "app_expect a (TargetCompID sid) = Some pw"
  shows "lr_Password req = pw"
proof -
  obtain a0 where "started a0" and run: "races L (a0, []) (a, ts)"
    using assms(1) by (auto simp: race_reachable_def)
  then have "credentials_ok (a0, [])" by (simp add: credentials_ok_def started_cod)
  with run have "credentials_ok (a, ts)"
    by (induction rule: races.induct) (auto intro: credentials_step)
  then show ?thesis
    using assms(2,3) by (fastforce simp: credentials_ok_def checkPassword_def split: if_splits)
qed

theorem race_credentials_witness:
  "\<exists>req. app_cod (fst (run_schedule demo_lib [0, 1, 0, 1, 0, 0]
     (demo_start, [entry (EvFromAdmin demo_logon demo_oe), entry (EvLogon demo_oe)]))) demo_oe = Some req \<and>
   lr_Password req = ''oe-secret''"
proof -
  let ?c = "run_schedule demo_lib [0, 1, 0, 1, 0, 0]
     (demo_start, [entry (EvFromAdmin demo_logon demo_oe), entry (EvLogon demo_oe)])"
  have "races demo_lib (demo_start, []) (demo_start, [] @ map entry [EvFromAdmin demo_logon demo_oe, EvLogon demo_oe])"
    by (rule races_arrive) (rule races_refl)
  then have "races demo_lib (demo_start, []) ?c" by (intro run_schedule_races) simp
  then have "race_reachable demo_lib (fst ?c, snd ?c)" using demo_started by (auto simp: race_reachable_def)
  note armed = race_credentials [OF this]
  have "\<exists>req. app_cod (fst ?c) demo_oe = Some req"
    "app_expect (fst ?c) (TargetCompID demo_oe) = Some ''oe-secret''"
    by (simp_all add: race_eval from_admin_def)
  with armed show ?thesis by blast
qed

end
