(* ===== verification/FeedProps.thy ===== *)
theory FeedProps
  imports Feed
begin

text \<open>
  The order-entry client at the end of the venue's feed: what it knows of its orders, and what
  a replay does to it.
\<close>

subsection \<open>The order-entry client\<close>

lemma carried_readable:
  "list_all2 carries ms' ms \<Longrightarrow> \<forall>m \<in> set ms. readable L m \<Longrightarrow> \<forall>m \<in> set ms'. readable L m"
  by (induction rule: list_all2_induct) (auto intro: readable_carries)

lemma shown_readable:
  assumes "dec_reads L" "shown L oe a"
  shows "\<forall>m \<in> set (messages_to oe a). readable L m"
  using assms(2) build_readable [OF assms(1)] by (fastforce simp: shown_def)

text \<open>The view of the last report of an order is the order, as far as the wire carries it.\<close>

definition view_fits :: "string \<Rightarrow> OrderState option \<Rightarrow> OrderView option \<Rightarrow> bool" where
  "view_fits i found view \<longleftrightarrow>
     (case found of
        None \<Rightarrow> view = None
      | Some ord \<Rightarrow> \<exists>v. view = Some v \<and> ov_ClOrdID v = i \<and> ov_OrdStatus v = os_Status ord \<and>
          (has_scale 0 (os_CumQty ord) \<longrightarrow> ov_CumQty v = os_CumQty ord) \<and>
          (has_scale 0 (LeavesQty ord) \<longrightarrow> ov_LeavesQty v = LeavesQty ord) \<and>
          (has_scale 2 (os_AvgPx ord) \<longrightarrow> ov_AvgPx v = os_AvgPx ord))"

lemma last_report_fits:
  assumes "dec_roundtrip L" "dec_reads L" "shown L oe a"
  shows "view_fits i (Get i (app_book a)) (map_option (view_in L) (last_for i (messages_to oe a)))"
proof -
  have disp: "shows_order L (messages_to oe a) i (Get i (app_book a))"
    using assms(3) by (simp add: shown_def)
  show ?thesis
  proof (cases "Get i (app_book a)")
    case None
    then show ?thesis using disp by (simp add: shows_order_def view_fits_def)
  next
    case (Some ord)
    then obtain now r where last: "last_for i (messages_to oe a) = Some (buildExecutionReport L now r)"
        and r: "rp_order r = ord"
      using disp by (auto simp: shows_order_def)
    have id: "os_ClOrdID ord = i" using last_for_mem [OF last] r by (simp add: build_body)
    obtain v where v: "read_view L (msg_body (buildExecutionReport L now r)) = Inr v"
        "ov_ClOrdID v = os_ClOrdID ord" "ov_OrdStatus v = os_Status ord"
        "Some (ov_CumQty v) = lib_readDec L (lib_showDec L 0 (os_CumQty ord))"
        "Some (ov_LeavesQty v) = lib_readDec L (lib_showDec L 0 (LeavesQty ord))"
        "Some (ov_AvgPx v) = lib_readDec L (lib_showDec L 2 (os_AvgPx ord))"
      using build_view [OF assms(2), of now r] r by metis
    have "y = x" if "Some y = lib_readDec L (lib_showDec L s x)" "has_scale s x" for s x y
      using that assms(1) by (simp add: dec_roundtrip_def)
    then show ?thesis
      using Some last v id by (auto simp: view_fits_def view_in_def)
  qed
qed

lemma client_follows_venue:
  assumes "dec_roundtrip L" "dec_reads L" "shown L oe a" "list_all2 carries ms (messages_to oe a)"
    and "oe_orders c = Map.empty"
  shows "view_fits i (Get i (app_book a)) (OE_Order i (fst (oe_feed L sid ms c w)))"
proof -
  have "\<forall>m \<in> set ms. readable L m"
    by (rule carried_readable [OF assms(4) shown_readable [OF assms(2,3)]])
  then have "OE_Order i (fst (oe_feed L sid ms c w)) = map_option (view_in L) (last_for i ms)"
    using oe_feed_view [of ms L sid c w i] assms(5) by (simp add: OE_Order_def split: option.split)
  also have "\<dots> = map_option (view_in L) (last_for i (messages_to oe a))"
    using last_for_carries [OF assms(4), of i] view_carries by (auto elim: option.rel_cases)
  finally show ?thesis using last_report_fits [OF assms(1-3), of i] by simp
qed

lemma client_has_book:
  assumes "dec_roundtrip L" "dec_reads L" "started a0" "sole KindOrderEntry a0 oe"
    and "venue_run L a0 es a" "EvSilence True \<notin> set es"
    and "list_all2 carries ms (messages_to oe a)"
  shows "case Get i (app_book a) of
      None \<Rightarrow> OE_Order i (fst (oe_feed L sid ms (NewOrderEntry creds) w)) = None
    | Some ord \<Rightarrow> \<exists>v. OE_Order i (fst (oe_feed L sid ms (NewOrderEntry creds) w)) = Some v \<and>
        ov_ClOrdID v = i \<and> ov_OrdStatus v = os_Status ord \<and>
        (has_scale 0 (os_CumQty ord) \<longrightarrow> ov_CumQty v = os_CumQty ord) \<and>
        (has_scale 0 (LeavesQty ord) \<longrightarrow> ov_LeavesQty v = LeavesQty ord) \<and>
        (has_scale 2 (os_AvgPx ord) \<longrightarrow> ov_AvgPx v = os_AvgPx ord)"
  by (rule client_follows_venue [OF assms(1,2) shown_run [OF assms(5) shown_started [OF assms(3,4)]
        assms(6)] assms(7), unfolded view_fits_def]) (simp add: NewOrderEntry_def)

text \<open>
  C3. The client sees what the venue has: start a venue with one order-entry session, let anything
  happen but silence, and deliver what it sent on that session to a new order-entry client. Then, for every ClOrdID, the client has a
  view exactly when the book has the order, with the order's present status, and with its
  executed and open quantity and average price wherever they fit the decimal places of the
  wire (none for quantities, two for prices).
\<close>

theorem client_view_is_book:
  assumes "dec_roundtrip L" "dec_reads L" "started a0" "sole KindOrderEntry a0 oe"
    and "venue_run L a0 es a" "EvSilence True \<notin> set es"
    and "list_all2 carries ms (messages_to oe a)"
  shows "case Get i (app_book a) of
      None \<Rightarrow> OE_Order i (fst (oe_feed L sid ms (NewOrderEntry creds) w)) = None
    | Some ord \<Rightarrow> \<exists>v. OE_Order i (fst (oe_feed L sid ms (NewOrderEntry creds) w)) = Some v \<and>
        ov_ClOrdID v = i \<and> ov_OrdStatus v = os_Status ord \<and>
        (has_scale 0 (os_CumQty ord) \<longrightarrow> ov_CumQty v = os_CumQty ord) \<and>
        (has_scale 0 (LeavesQty ord) \<longrightarrow> ov_LeavesQty v = LeavesQty ord) \<and>
        (has_scale 2 (os_AvgPx ord) \<longrightarrow> ov_AvgPx v = os_AvgPx ord)"
  by (rule client_has_book [OF assms])

theorem client_view_is_book_witness:
  "\<exists>v. OE_Order ''C1'' (fst (oe_feed demo_lib demo_client
       (messages_to demo_oe (run_events demo_lib
          [EvFromApp (demo_order ''C1'' ''0'') demo_oe, EvPartial ''C1'' 30 25] demo_start))
       (NewOrderEntry demo_creds) ())) = Some v \<and>
     ov_OrdStatus v = StatusPartiallyFilled \<and> ov_CumQty v = 30 \<and> ov_LeavesQty v = 70 \<and> ov_AvgPx v = 25"
proof -
  let ?es = "[EvFromApp (demo_order ''C1'' ''0'') demo_oe, EvPartial ''C1'' 30 25]"
  have run: "venue_run demo_lib demo_start ?es (run_events demo_lib ?es demo_start)"
    by (rule venue_run_events) simp
  have oe: "sole KindOrderEntry demo_start demo_oe" by (rule demo_roles(1)) (rule refl)
  have ord: "\<exists>ord. Get ''C1'' (app_book (run_events demo_lib ?es demo_start)) = Some ord \<and>
      os_Status ord = StatusPartiallyFilled \<and> os_CumQty ord = 30 \<and> LeavesQty ord = 70 \<and> os_AvgPx ord = 25"
    by (simp add: demo_eval)
  have "has_scale 0 30" "has_scale 0 70" "has_scale 2 25" by (simp_all add: has_scale_def)
  then show ?thesis
    using client_view_is_book [OF demo_dec_roundtrip demo_dec_reads demo_started oe run _
        list.rel_refl [of carries], where i = "''C1''" and sid = demo_client and w = "()"
        and creds = demo_creds] ord
    by auto
qed

text \<open>
  A replay is harmless: when the end of a feed, from any point on, is delivered again with
  PossDupFlag set, the client's view of every order is what it was, whatever the client knew
  before, and the replay count grows by exactly the number of replayed reports.
\<close>

theorem replay_is_idempotent:
  assumes "\<forall>m \<in> set ms. readable L m" "list_all2 carries rs (drop k ms)" "\<forall>m \<in> set rs. poss_dup L m"
    and "oe_feed L sid ms c w = (c1, w1)"
  shows "oe_orders (fst (oe_feed L sid rs c1 w1)) = oe_orders c1 \<and>
    ReplayCount (fst (oe_feed L sid rs c1 w1)) = ReplayCount c1 + (length ms - k)"
proof
  have "\<forall>m \<in> set (drop k ms). readable L m" using assms(1) by (meson in_set_dropD)
  then have rs: "\<forall>m \<in> set rs. readable L m" by (rule carried_readable [OF assms(2)])
  note view = oe_feed_view [OF rs, of sid c1 w1]
  show "oe_orders (fst (oe_feed L sid rs c1 w1)) = oe_orders c1"
  proof
    fix i
    have rel: "rel_option carries (last_for i rs) (last_for i (drop k ms))"
      by (rule last_for_carries [OF assms(2)])
    show "oe_orders (fst (oe_feed L sid rs c1 w1)) i = oe_orders c1 i"
    proof (cases "last_for i rs")
      case (Some m')
      then obtain m where "last_for i (drop k ms) = Some m" "carries m' m"
        using rel by (auto simp: option_rel_Some1)
      then have "oe_orders c1 i = Some (view_in L m')"
        using oe_feed_view [OF assms(1), of sid c w i] assms(4) last_for_drop [of i k ms m]
        by (simp add: view_carries)
      then show ?thesis using view [of i] Some by simp
    qed (use view [of i] in simp)
  qed
  have "filter (poss_dup L) rs = rs" using assms(3) by simp
  then show "ReplayCount (fst (oe_feed L sid rs c1 w1)) = ReplayCount c1 + (length ms - k)"
    using view list_all2_lengthD [OF assms(2)] by (simp add: ReplayCount_def)
qed

definition demo_report :: "string \<Rightarrow> string \<Rightarrow> string \<Rightarrow> message" where
  "demo_report eid st dup =
     \<lparr>msg_header = [tagMsgType \<mapsto> ''8'', tagPossDupFlag \<mapsto> dup],
      msg_body = [tagClOrdID \<mapsto> ''C1'', tagExecType \<mapsto> ''F'', tagOrdStatus \<mapsto> st, tagCumQty \<mapsto> ''1E0'',
                  tagLeavesQty \<mapsto> ''2E0'', tagAvgPx \<mapsto> ''3E0'', tagExecID \<mapsto> eid, tagOrderID \<mapsto> ''O1'']\<rparr>"

lemma demo_report_readable: "readable demo_lib (demo_report eid st dup)"
proof -
  have "read_view demo_lib (msg_body (demo_report eid st dup)) =
      Inr \<lparr>ov_ClOrdID = ''C1'', ov_OrdStatus = st, ov_CumQty = 1, ov_LeavesQty = 2, ov_AvgPx = 3,
           ov_LastExecID = eid\<rparr>"
    by (simp add: read_view_Inr demo_report_def tag_defs getter_defs demo_lib_def demo_readDec_def
        read_signed_def dval_def Let_def)
  then show ?thesis by (auto simp: readable_def demo_report_def tag_defs)
qed

theorem replay_is_idempotent_witness:
  "oe_orders (fst (oe_feed demo_lib demo_client [demo_report ''E2'' ''2'' ''Y'']
      (fst (oe_feed demo_lib demo_client [demo_report ''E1'' ''1'' ''N'', demo_report ''E2'' ''2'' ''N'']
         (NewOrderEntry demo_creds) ())) ()))
   = oe_orders (fst (oe_feed demo_lib demo_client [demo_report ''E1'' ''1'' ''N'', demo_report ''E2'' ''2'' ''N'']
         (NewOrderEntry demo_creds) ()))"
proof -
  let ?ms = "[demo_report ''E1'' ''1'' ''N'', demo_report ''E2'' ''2'' ''N'']"
  have "\<forall>m \<in> set ?ms. readable demo_lib m" by (simp add: demo_report_readable)
  moreover have "list_all2 carries [demo_report ''E2'' ''2'' ''Y''] (drop 1 ?ms)"
    by (simp add: carries_def demo_report_def tag_defs)
  moreover have "\<forall>m \<in> set [demo_report ''E2'' ''2'' ''Y'']. poss_dup demo_lib m"
    by (simp add: poss_dup_def demo_report_def tag_defs getter_defs demo_lib_def)
  moreover obtain c1 where feed: "oe_feed demo_lib demo_client ?ms (NewOrderEntry demo_creds) () = (c1, ())"
    by (metis old.unit.exhaust surj_pair)
  ultimately show ?thesis
    using replay_is_idempotent [of ?ms demo_lib "[demo_report ''E2'' ''2'' ''Y'']" 1 demo_client
        "NewOrderEntry demo_creds" "()" c1 "()"]
    by (simp only: feed fst_conv)
qed

end
