(* ===== verification/DropFeed.thy ===== *)
theory DropFeed
  imports FeedProps
begin

text \<open>
  The drop-copy consumer at the end of the venue's feed: each report is recorded once, in the
  order of first arrival, whatever is replayed; and what a restart of the venue does to it.
\<close>

subsection \<open>Feeding the consumer\<close>

fun dc_feed ::
  "lib \<Rightarrow> SessionID \<Rightarrow> message list \<Rightarrow> 'w DropCopy \<Rightarrow> 'w \<Rightarrow> reject option list \<times> 'w DropCopy \<times> 'w" where
  "dc_feed L sid [] c w = ([], c, w)"
| "dc_feed L sid (m # ms) c w =
     (case DC_FromApp L m sid c w of (r, c1, w1) \<Rightarrow>
        (case dc_feed L sid ms c1 w1 of (rs, c2, w2) \<Rightarrow> (r # rs, c2, w2)))"

abbreviation fed :: "reject option list \<times> 'w DropCopy \<times> 'w \<Rightarrow> 'w DropCopy" where
  "fed r \<equiv> fst (snd r)"

text \<open>The reference: the reports whose ExecID has not come before, in order.\<close>

fun first_reports :: "string set \<Rightarrow> Report list \<Rightarrow> Report list" where
  "first_reports seen [] = []"
| "first_reports seen (r # rs) =
     (if rr_ExecID r \<in> seen then first_reports seen rs
      else r # first_reports (insert (rr_ExecID r) seen) rs)"

lemma first_reports_ids:
  "rr_ExecID ` set (first_reports seen rs) = rr_ExecID ` set rs - seen"
  by (induction seen rs rule: first_reports.induct) auto

lemma first_reports_distinct: "distinct (map rr_ExecID (first_reports seen rs))"
proof (induction seen rs rule: first_reports.induct)
  case (2 seen r rs)
  then show ?case using first_reports_ids [of "insert (rr_ExecID r) seen" rs] by auto
qed simp

lemma first_reports_append:
  "first_reports seen (rs @ ss) = first_reports seen rs @ first_reports (seen \<union> rr_ExecID ` set rs) ss"
  by (induction seen rs rule: first_reports.induct) (auto simp: insert_absorb Un_insert_left)

lemma first_reports_all:
  "distinct (map rr_ExecID rs) \<Longrightarrow> seen \<inter> rr_ExecID ` set rs = {} \<Longrightarrow> first_reports seen rs = rs"
  by (induction seen rs rule: first_reports.induct) auto

lemma first_reports_none: "rr_ExecID ` set rs \<subseteq> seen \<Longrightarrow> first_reports seen rs = []"
  by (induction seen rs rule: first_reports.induct) auto

lemma first_reports_filter:
  "distinct (map rr_ExecID rs) \<Longrightarrow> first_reports seen rs = filter (\<lambda>r. rr_ExecID r \<notin> seen) rs"
proof (induction seen rs rule: first_reports.induct)
  case (2 seen r rs)
  have "\<forall>x \<in> set rs. rr_ExecID x \<noteq> rr_ExecID r" using "2.prems" by (auto dest: sym simp: image_iff)
  with 2 show ?case by (auto intro!: filter_cong)
qed simp

definition recordable :: "lib \<Rightarrow> message \<Rightarrow> bool" where
  "recordable L m \<longleftrightarrow> msg_header m tagMsgType = Some ''8'' \<and> (\<exists>r. read_report L m = Inr r)"

definition record_in :: "lib \<Rightarrow> message \<Rightarrow> Report" where
  "record_in L m = projr (read_report L m)"

lemma DC_FromApp_recordable:
  assumes "recordable L m"
  shows "DC_FromApp L m sid c w =
    (None,
     (if rr_ExecID (record_in L m) \<in> dc_seen c then c\<lparr>dc_dupes := dc_dupes c + 1\<rparr>
      else c\<lparr>dc_seen := insert (rr_ExecID (record_in L m)) (dc_seen c),
             dc_reports := dc_reports c @ [record_in L m]\<rparr>),
     NoteInbound (dc_Client c) sid InboundApp w)"
  using assms
  by (auto simp: recordable_def record_in_def DC_FromApp_def DC_onExecutionReport_def Let_def)

lemma dc_feed_spec:
  assumes "\<forall>m \<in> set ms. recordable L m"
  shows "Reports (fed (dc_feed L sid ms c w)) =
           Reports c @ first_reports (dc_seen c) (map (record_in L) ms) \<and>
         Duplicates (fed (dc_feed L sid ms c w)) + length (first_reports (dc_seen c) (map (record_in L) ms)) =
           Duplicates c + length ms \<and>
         set (fst (dc_feed L sid ms c w)) \<subseteq> {None}"
  using assms
proof (induction ms arbitrary: c w)
  case (Cons m ms)
  from Cons.prems have m: "recordable L m" and ms: "\<forall>m \<in> set ms. recordable L m" by simp_all
  let ?c = "fst (snd (DC_FromApp L m sid c w))" and ?w = "snd (snd (DC_FromApp L m sid c w))"
  note IH = Cons.IH [OF ms, of ?c ?w]
  show ?case
    using IH by (auto simp: DC_FromApp_recordable [OF m] Reports_def Duplicates_def split: prod.split)
qed (simp add: Reports_def Duplicates_def)

subsection \<open>What the venue sends\<close>

definition outbox_built :: "lib \<Rightarrow> App \<Rightarrow> bool" where
  "outbox_built L a \<longleftrightarrow> (\<forall>(s, m) \<in> set (app_outbox a). \<exists>now r. m = buildExecutionReport L now r)"

lemma built_frame: "outbox_built L a \<Longrightarrow> app_outbox a' = app_outbox a \<Longrightarrow> outbox_built L a'"
  by (simp add: outbox_built_def)

lemma built_publish: "outbox_built L a \<Longrightarrow> outbox_built L (publish L r (a\<lparr>app_book := b\<rparr>))"
  by (auto simp: outbox_built_def publish_def send_def NextExecID_def Let_def split: option.split)

interpretation built: venue_closed L "\<lambda>a. book_inv (app_book a) \<and> outbox_built L a" "\<lambda>_. True" for L
  by unfold_locales (auto simp: built_publish SetSilenced_def intro: built_frame)

lemma reachable_built:
  assumes "reachable L a"
  shows "outbox_built L a"
proof -
  obtain a0 es where a0: "started a0" and run: "venue_run L a0 es a" using assms by (auto simp: reachable_def)
  obtain getenv settings where "LoadKinds getenv settings (New NewBook) = (None, a0)"
    using a0 by (auto simp: started_def)
  from LoadKinds_frame [OF this] have "outbox_built L a0" by (simp add: outbox_built_def New_def)
  then show ?thesis
    using built.closed_run [OF run] venue_inv_book [OF reachable_inv [OF started_reachable [OF a0]]] by simp
qed

text \<open>What the consumer makes of a report the venue sent and the engine delivered.\<close>

lemma built_record:
  assumes "carries m' (buildExecutionReport L now r)"
  shows "recordable L m'" "rr_ExecID (record_in L m') = rp_execID r"
proof -
  let ?m = "buildExecutionReport L now r"
  have b: "msg_body m' = msg_body ?m" "msg_header m' tagMsgType = Some ''8''"
    using assms by (simp_all add: carries_def build_body)
  have "read_report L m' = Inr \<lparr>rr_ExecID = rp_execID r, rr_ClOrdID = os_ClOrdID (rp_order r),
      rr_OrderID = os_OrderID (rp_order r), rr_ExecType = rp_execType r,
      rr_OrdStatus = os_Status (rp_order r), rr_Replayed = poss_dup L m'\<rparr>"
    by (simp add: read_report_def b build_body)
  then show "recordable L m'" "rr_ExecID (record_in L m') = rp_execID r"
    using b(2) by (simp_all add: recordable_def record_in_def)
qed

lemma sent_record:
  assumes "reachable L a" "m \<in> set (messages_to sid a)" "carries m' m"
  shows "recordable L m'" "rr_ExecID (record_in L m') = exec_id m"
proof -
  obtain now r where m: "m = buildExecutionReport L now r"
    using reachable_built [OF assms(1)] assms(2) by (auto simp: outbox_built_def messages_to_def)
  show "recordable L m'" "rr_ExecID (record_in L m') = exec_id m"
    using built_record assms(3) by (simp_all add: m exec_id_def build_body)
qed

lemma sent_records:
  assumes "reachable L a" "list_all2 carries ms (messages_to sid a)"
  shows "\<forall>m \<in> set ms. recordable L m"
    and "map rr_ExecID (map (record_in L) ms) = map exec_id (messages_to sid a)"
proof -
  have "recordable L m' \<and> rr_ExecID (record_in L m') = exec_id m"
    if "carries m' m" "m \<in> set (messages_to sid a)" for m' m
    using sent_record [OF assms(1) that(2,1)] by simp
  with assms(2) have "list_all2 (\<lambda>m' m. recordable L m' \<and> rr_ExecID (record_in L m') = exec_id m)
      ms (messages_to sid a)"
    by (auto simp: list_all2_conv_all_nth)
  then show "\<forall>m \<in> set ms. recordable L m"
    "map rr_ExecID (map (record_in L) ms) = map exec_id (messages_to sid a)"
    by (auto simp: list_all2_conv_all_nth in_set_conv_nth intro!: nth_equalityI)
qed

subsection \<open>Properties\<close>

text \<open>
  C32. Every report is well-formed for its receivers: whatever the venue did, each message it
  handed to a session has the type and every field, in a form that can be read, that the two
  clients require, so neither client, in any state, answers it with a reject.
\<close>

theorem reports_well_formed:
  assumes "dec_reads L" "reachable L a" "m \<in> set (messages_to sid a)" "carries m' m"
  shows "fst (OE_FromApp L m' cid c w) = None \<and> fst (DC_FromApp L m' cid d v) = None"
proof -
  obtain now r where "m = buildExecutionReport L now r"
    using reachable_built [OF assms(2)] assms(3) by (auto simp: outbox_built_def messages_to_def)
  then have "readable L m'"
    using build_readable [OF assms(1)] readable_carries [OF assms(4)] by simp
  then obtain x where "msg_header m' tagMsgType = Some ''8''" "read_view L (msg_body m') = Inr x"
    by (auto simp: readable_def)
  then show ?thesis
    by (simp add: OE_FromApp_readable DC_FromApp_recordable [OF sent_record(1) [OF assms(2-4)]])
qed

theorem reports_well_formed_witness:
  "list_all (\<lambda>m. fst (OE_FromApp demo_lib m demo_client (NewOrderEntry demo_creds) ()) = None)
     (messages_to demo_oe (run_events demo_lib [EvFromApp (demo_order ''C1'' ''0'') demo_oe] demo_start))"
proof -
  let ?a = "run_events demo_lib [EvFromApp (demo_order ''C1'' ''0'') demo_oe] demo_start"
  have a: "reachable demo_lib ?a" by (rule demo_reachable) simp
  have "fst (OE_FromApp demo_lib m demo_client (NewOrderEntry demo_creds) ()) = None"
    if "m \<in> set (messages_to demo_oe ?a)" for m
    using reports_well_formed [where d = "NewDropCopy demo_creds" and v = "()", OF demo_dec_reads a that carries_refl]
    by (rule conjunct1)
  then show ?thesis by (simp add: list_all_iff)
qed

lemma fed_once:
  assumes "reachable L a" "list_all2 carries ms (messages_to dc a)"
    and "\<forall>z \<in> set zs. \<exists>m \<in> set (messages_to dc a). carries z m"
  shows "let (answers, c, w') = dc_feed L sid (ms @ zs) (NewDropCopy creds) w
         in Reports c = map (record_in L) ms \<and>
            map rr_ExecID (Reports c) = map exec_id (messages_to dc a) \<and>
            distinct (map rr_ExecID (Reports c)) \<and>
            Duplicates c = length zs \<and> set answers \<subseteq> {None}"
proof -
  note ms = sent_records [OF assms(1,2)]
  have zs: "\<forall>z \<in> set zs. recordable L z \<and> rr_ExecID (record_in L z) \<in> exec_id ` set (messages_to dc a)"
    using assms(3) sent_record [OF assms(1)] by blast
  have ids: "rr_ExecID ` set (map (record_in L) ms) = exec_id ` set (messages_to dc a)"
    using ms(2) by (metis list.set_map)
  have "distinct (map exec_id (messages_to dc a))"
    using reachable_inv [OF assms(1)] by (auto simp: venue_inv_def sent_ok_def drawn_log_def)
  then have first: "first_reports {} (map (record_in L) ms) = map (record_in L) ms"
    using ms(2) by (intro first_reports_all) simp_all
  have "first_reports (rr_ExecID ` set (map (record_in L) ms)) (map (record_in L) zs) = []"
    using zs unfolding ids by (intro first_reports_none) auto
  then have all: "first_reports {} (map (record_in L) (ms @ zs)) = map (record_in L) ms"
    by (simp add: first_reports_append first)
  have "\<forall>m \<in> set (ms @ zs). recordable L m" using ms(1) zs by auto
  from dc_feed_spec [OF this, of sid "NewDropCopy creds" w] all show ?thesis
    using ms(2) \<open>distinct (map exec_id (messages_to dc a))\<close>
    by (auto simp: NewDropCopy_def Reports_def Duplicates_def simp del: map_append split: prod.split)
qed

text \<open>
  C4. Exactly once: a new consumer handed the reports of a running venue in order, and after
  them any of them again any number of times, has recorded each report once, in the order the
  venue sent them, has counted every further one as a duplicate, and has answered none of
  them with a reject.
\<close>

theorem recorded_exactly_once:
  assumes "reachable L a" "list_all2 carries ms (messages_to dc a)"
    and "\<forall>z \<in> set zs. \<exists>m \<in> set (messages_to dc a). carries z m"
  shows "let (answers, c, w') = dc_feed L sid (ms @ zs) (NewDropCopy creds) w
         in Reports c = map (record_in L) ms \<and>
            map rr_ExecID (Reports c) = map exec_id (messages_to dc a) \<and>
            distinct (map rr_ExecID (Reports c)) \<and>
            Duplicates c = length zs \<and> set answers \<subseteq> {None}"
  by (rule fed_once [OF assms])

theorem recorded_exactly_once_witness:
  "let ms = messages_to demo_dc (run_events demo_lib
         [EvFromApp (demo_order ''C1'' ''0'') demo_oe, EvPartial ''C1'' 30 25] demo_start);
       (answers, c, w') = dc_feed demo_lib demo_dc (ms @ [hd ms, ms ! 1])
         (NewDropCopy demo_creds) ()
   in map rr_ExecID (Reports c) = map exec_id ms \<and> Duplicates c = 2"
proof -
  let ?a = "run_events demo_lib
         [EvFromApp (demo_order ''C1'' ''0'') demo_oe, EvPartial ''C1'' 30 25] demo_start"
  let ?ms = "messages_to demo_dc ?a"
  have a: "reachable demo_lib ?a" by (rule demo_reachable) simp
  have "length ?ms = 2" by (simp add: demo_eval messages_to_def)
  then have "\<forall>z \<in> set [hd ?ms, ?ms ! 1]. \<exists>m \<in> set ?ms. carries z m"
    using nth_mem [of 1 ?ms] by (cases ?ms) (auto intro: carries_refl)
  from recorded_exactly_once [OF a list.rel_refl [of carries, OF carries_refl] this, of demo_dc
      demo_creds "()"]
  show ?thesis by (auto simp: Let_def split: prod.splits)
qed

text \<open>
  A restart of the venue: the ExecIDs of the new process begin again, and a consumer that
  kept running drops each report of the new process whose ExecID the old one also used, as if
  it were a replay; only the reports past the old count are recorded.
\<close>

theorem restart_reports_dropped:
  assumes "reachable L a" "reachable L b"
    and "list_all2 carries ms (messages_to dc a)" "list_all2 carries ns (messages_to dc b)"
  shows "Reports (fed (dc_feed L sid (ms @ ns) (NewDropCopy creds) w)) =
    map (record_in L) ms @
    filter (\<lambda>r. rr_ExecID r \<notin> exec_id ` set (messages_to dc a)) (map (record_in L) ns)"
proof -
  note ms = sent_records [OF assms(1,3)] and ns = sent_records [OF assms(2,4)]
  have dist: "distinct (map exec_id (messages_to dc x))" if "reachable L x" for x
    using reachable_inv [OF that] by (auto simp: venue_inv_def sent_ok_def drawn_log_def)
  have "first_reports {} (map (record_in L) ms) = map (record_in L) ms"
    using ms(2) dist [OF assms(1)] by (intro first_reports_all) simp_all
  moreover have "rr_ExecID ` set (map (record_in L) ms) = exec_id ` set (messages_to dc a)"
    using ms(2) by (metis list.set_map)
  moreover have "distinct (map rr_ExecID (map (record_in L) ns))"
    using ns(2) dist [OF assms(2)] by simp
  ultimately have "first_reports {} (map (record_in L) (ms @ ns)) = map (record_in L) ms @
      filter (\<lambda>r. rr_ExecID r \<notin> exec_id ` set (messages_to dc a)) (map (record_in L) ns)"
    by (simp only: map_append first_reports_append first_reports_filter Un_empty_left)
  moreover have "\<forall>m \<in> set (ms @ ns). recordable L m" using ms(1) ns(1) by auto
  ultimately show ?thesis
    using dc_feed_spec [of "ms @ ns" L sid "NewDropCopy creds" w]
    by (simp add: NewDropCopy_def Reports_def)
qed

theorem restart_reports_dropped_witness:
  "length (Reports (fed (dc_feed demo_lib demo_dc
      (messages_to demo_dc (run_events demo_lib [EvFromApp (demo_order ''C1'' ''0'') demo_oe] demo_start) @
       messages_to demo_dc (run_events demo_lib [EvFromApp (demo_order ''C2'' ''0'') demo_oe] demo_start))
      (NewDropCopy demo_creds) ()))) = 1"
proof -
  let ?run = "\<lambda>i. run_events demo_lib [EvFromApp (demo_order i ''0'') demo_oe] demo_start"
  have r: "reachable demo_lib (?run i)" for i by (rule demo_reachable) simp
  note all = list.rel_refl [of carries, OF carries_refl]
  have len: "length (messages_to demo_dc (?run i)) = 1" for i by (simp add: demo_eval messages_to_def)
  have ids: "map exec_id (messages_to demo_dc (?run i)) = [exec_name 1]" for i
    by (simp add: demo_eval messages_to_def exec_id_def buildExecutionReport_def)
  have "filter (\<lambda>r. rr_ExecID r \<notin> exec_id ` set (messages_to demo_dc (?run ''C1'')))
      (map (record_in demo_lib) (messages_to demo_dc (?run ''C2''))) = []"
  proof -
    have single: "f ` set xs = {y}" if "map f xs = [y]" for f :: "'x \<Rightarrow> 'y" and xs y
      using that by auto
    have "rr_ExecID ` set (map (record_in demo_lib) (messages_to demo_dc (?run ''C2''))) = {exec_name 1}"
      by (rule single) (simp only: sent_records(2) [OF r all] ids)
    moreover have "exec_id ` set (messages_to demo_dc (?run ''C1'')) = {exec_name 1}"
      by (rule single) (rule ids)
    ultimately show ?thesis by (intro filter_False) blast
  qed
  then show ?thesis
    by (simp only: restart_reports_dropped [OF r r all all] append_Nil2 length_map len)
qed

end
