(* ===== verification/Watchdog.thy ===== *)
theory Watchdog
  imports OrderEntry
begin

text \<open>
  The watchdog of \<open>internal/session/watchdog.go\<close>: it forces a reconnect when no application
  message has arrived for \<open>Timeout\<close>. Times and durations are nanoseconds; \<open>now\<close> arguments are
  the clock of the call. \<open>Active\<close> is the optional field of the source. The goroutines started
  by \<open>Start\<close> are listed in \<open>wd_live\<close>, each with its stop channel (a number) and the interval
  of its ticker; a tick of one of them runs \<open>check\<close>. \<open>Restart\<close> is a closure: a parameter of
  \<open>check\<close>, acting on a state \<open>'r\<close> outside.
\<close>

record watcher =
  wt_chan :: nat
  wt_interval :: int

record Watchdog =
  wd_Timeout :: int
  wd_Interval :: int
  wd_Active :: "(int \<Rightarrow> bool) option"
  wd_lastApp :: int
  wd_fired :: nat
  wd_stopping :: "nat option"
  wd_live :: "watcher list"
  wd_chans :: nat

text \<open>A literal of the source that names the first three fields.\<close>

definition new_watchdog :: "int \<Rightarrow> int \<Rightarrow> (int \<Rightarrow> bool) option \<Rightarrow> Watchdog" where
  "new_watchdog timeout interval active =
     \<lparr>wd_Timeout = timeout, wd_Interval = interval, wd_Active = active, wd_lastApp = 0, wd_fired = 0,
      wd_stopping = None, wd_live = [], wd_chans = 0\<rparr>"

definition Notify :: "int \<Rightarrow> Watchdog \<Rightarrow> Watchdog" where
  "Notify now w = w\<lparr>wd_lastApp := now\<rparr>"

definition Fired :: "Watchdog \<Rightarrow> nat" where
  "Fired w = wd_fired w"

text \<open>Go's division truncates towards zero.\<close>

definition quarter :: "int \<Rightarrow> int" where
  "quarter d = (if d < 0 then - ((- d) div 4) else d div 4)"

definition watch_interval :: "Watchdog \<Rightarrow> int" where
  "watch_interval w =
     (let i0 = wd_Interval w;
          i1 = (if i0 \<le> 0 then quarter (wd_Timeout w) else i0)
      in if i1 \<le> 0 then 1000000000 else i1)"

definition Watchdog_Start :: "int \<Rightarrow> Watchdog \<Rightarrow> Watchdog" where
  "Watchdog_Start now w =
     w\<lparr>wd_lastApp := now, wd_stopping := Some (wd_chans w), wd_chans := wd_chans w + 1,
       wd_live := wd_live w @ [\<lparr>wt_chan = wd_chans w, wt_interval = watch_interval w\<rparr>]\<rparr>"

text \<open>Closing the channel ends the goroutine that listens to it, and \<open>Stop\<close> waits for that.\<close>

definition Watchdog_Stop :: "Watchdog \<Rightarrow> Watchdog" where
  "Watchdog_Stop w =
     (case wd_stopping w of
        None \<Rightarrow> w
      | Some ch \<Rightarrow> w\<lparr>wd_stopping := None, wd_live := filter (\<lambda>t. wt_chan t \<noteq> ch) (wd_live w)\<rparr>)"

text \<open>The answer of \<open>Restart\<close> is only logged.\<close>

definition check ::
  "('r \<Rightarrow> string option \<times> 'r) option \<Rightarrow> int \<Rightarrow> Watchdog \<Rightarrow> 'r \<Rightarrow> Watchdog \<times> 'r" where
  "check restart now w r =
     (if (case wd_Active w of None \<Rightarrow> False | Some active \<Rightarrow> \<not> active now) then (w, r)
      else
        let silent = now - wd_lastApp w
        in if silent < wd_Timeout w then (w, r)
           else
             let w1 = w\<lparr>wd_lastApp := now, wd_fired := wd_fired w + 1\<rparr>
             in case restart of
                  None \<Rightarrow> (w1, r)
                | Some f \<Rightarrow> (w1, snd (f r)))"

text \<open>
  \<open>WatchClient\<close> registers a callback on the client. The state the callback acts on is the
  clock and the watchdog.
\<close>

definition watch_callback :: "(int \<times> Watchdog) inbound_fn" where
  "watch_callback sid class = (\<lambda>(now, w). (now, if class = InboundApp then Notify now w else w))"

definition WatchClient :: "(int \<times> Watchdog) Client \<Rightarrow> (int \<times> Watchdog) Client" where
  "WatchClient c = OnInbound watch_callback c"

subsection \<open>A running watchdog\<close>

text \<open>
  What happens to one watched client, with the times: ticks of the watcher, application
  messages and admin messages of the client. The result lists the times at which a reconnect
  was forced.
\<close>

datatype watch_event = WTick int | WApp message int | WAdmin message int

fun event_time :: "watch_event \<Rightarrow> int" where
  "event_time (WTick t) = t"
| "event_time (WApp m t) = t"
| "event_time (WAdmin m t) = t"

definition watch_step ::
  "lib \<Rightarrow> SessionID \<Rightarrow> ('r \<Rightarrow> string option \<times> 'r) option \<Rightarrow> watch_event
     \<Rightarrow> (int \<times> Watchdog) OrderEntry \<times> Watchdog \<times> 'r \<Rightarrow> (int \<times> Watchdog) OrderEntry \<times> Watchdog \<times> 'r" where
  "watch_step L sid restart ev = (\<lambda>(c, w, r).
     (case ev of
        WTick t \<Rightarrow> (c, check restart t w r)
      | WApp m t \<Rightarrow> (case OE_FromApp L m sid c (t, w) of (_, c1, (_, w1)) \<Rightarrow> (c1, w1, r))
      | WAdmin m t \<Rightarrow> (case Client_FromAdmin m sid (oe_Client c) (t, w) of (_, (_, w1)) \<Rightarrow> (c, w1, r))))"

fun firings ::
  "lib \<Rightarrow> SessionID \<Rightarrow> ('r \<Rightarrow> string option \<times> 'r) option \<Rightarrow> watch_event list
     \<Rightarrow> (int \<times> Watchdog) OrderEntry \<times> Watchdog \<times> 'r \<Rightarrow> int list" where
  "firings L sid restart [] s = []"
| "firings L sid restart (ev # evs) s =
     (let s1 = watch_step L sid restart ev s
      in (if Fired (fst (snd s1)) \<noteq> Fired (fst (snd s)) then [event_time ev] else [])
         @ firings L sid restart evs s1)"

subsection \<open>Facts\<close>

lemma watch_interval_pos: "0 < watch_interval w"
  by (simp add: watch_interval_def Let_def)

definition suspicious :: "int \<Rightarrow> Watchdog \<Rightarrow> bool" where
  "suspicious now w \<longleftrightarrow> (case wd_Active w of None \<Rightarrow> True | Some active \<Rightarrow> active now)"

lemma check_fires:
  "fst (check restart now w r) =
     (if suspicious now w \<and> wd_Timeout w \<le> now - wd_lastApp w
      then w\<lparr>wd_lastApp := now, wd_fired := wd_fired w + 1\<rparr> else w)"
  by (auto simp: check_def suspicious_def Let_def split: option.split)

text \<open>A client with one callback, the watchdog's.\<close>

definition watched :: "(int \<times> Watchdog) OrderEntry \<Rightarrow> bool" where
  "watched c \<longleftrightarrow> cl_onInbound (oe_Client c) = [watch_callback]"

lemma watched_FromApp:
  "watched c \<Longrightarrow> watched (fst (snd (OE_FromApp L m sid c w)))"
  by (auto simp: watched_def OE_FromApp_def OE_onExecutionReport_def Let_def
      split: sum.split prod.split option.split)

lemma watched_world:
  "watched c \<Longrightarrow> snd (snd (OE_FromApp L m sid c (t, w))) = (t, Notify t w)"
  by (auto simp: watched_def OE_FromApp_def NoteInbound_def watch_callback_def Let_def
      split: sum.split prod.split option.split)

lemma watched_admin:
  "watched c \<Longrightarrow> Client_FromAdmin m sid (oe_Client c) (t, w) = (None, (t, w))"
  by (simp add: watched_def Client_FromAdmin_def NoteInbound_def watch_callback_def)

lemma watch_step_watchdog:
  assumes "watched c"
  shows "fst (snd (watch_step L sid restart ev (c, w, r))) =
    (case ev of WTick t \<Rightarrow> fst (check restart t w r) | WApp m t \<Rightarrow> Notify t w | WAdmin m t \<Rightarrow> w)"
  using watched_world [OF assms] watched_admin [OF assms]
  by (auto simp: watch_step_def split: watch_event.split prod.split) (metis snd_conv)

lemma watch_step_watched:
  assumes "watched c"
  shows "watched (fst (watch_step L sid restart ev (c, w, r)))"
  using assms watched_FromApp [OF assms]
  by (auto simp: watch_step_def split: watch_event.split prod.split) (metis fst_conv snd_conv)

end
