(* ===== verification/Supervisor.thy ===== *)
theory Supervisor
  imports Watchdog
begin

text \<open>
  The supervisor of an initiator (\<open>internal/session/supervisor.go\<close>). An initiator is a value
  of a type \<open>'i\<close>; \<open>Build\<close> (a field of the source) and the initiator's own \<open>Start\<close> and \<open>Stop\<close>
  are the engine's and act on its state \<open>'e\<close>: they are parameters, kept in the record
  \<open>engine\<close>.
\<close>

record ('i, 'e) engine =
  en_Build :: "'e \<Rightarrow> (string + 'i) \<times> 'e"
  en_Start :: "'i \<Rightarrow> 'e \<Rightarrow> string option \<times> 'e"
  en_Stop :: "'i \<Rightarrow> 'e \<Rightarrow> 'e"

record 'i Supervisor =
  sv_current :: "'i option"
  sv_starts :: nat

datatype supervisor_error = AlreadyRunning | BuildInitiator string | StartInitiator string

definition startLocked ::
  "('i, 'e) engine \<Rightarrow> 'i Supervisor \<Rightarrow> 'e \<Rightarrow> supervisor_error option \<times> 'i Supervisor \<times> 'e" where
  "startLocked E s e =
     (if sv_current s \<noteq> None then (Some AlreadyRunning, s, e)
      else case en_Build E e of
             (Inl err, e1) \<Rightarrow> (Some (BuildInitiator err), s, e1)
           | (Inr init, e1) \<Rightarrow>
               (case en_Start E init e1 of
                  (Some err, e2) \<Rightarrow> (Some (StartInitiator err), s, e2)
                | (None, e2) \<Rightarrow> (None, s\<lparr>sv_current := Some init, sv_starts := sv_starts s + 1\<rparr>, e2)))"

definition stopLocked :: "('i, 'e) engine \<Rightarrow> 'i Supervisor \<Rightarrow> 'e \<Rightarrow> 'i Supervisor \<times> 'e" where
  "stopLocked E s e =
     (case sv_current s of
        None \<Rightarrow> (s, e)
      | Some init \<Rightarrow> (s\<lparr>sv_current := None\<rparr>, en_Stop E init e))"

definition Supervisor_Start ::
  "('i, 'e) engine \<Rightarrow> 'i Supervisor \<Rightarrow> 'e \<Rightarrow> supervisor_error option \<times> 'i Supervisor \<times> 'e" where
  "Supervisor_Start E s e = startLocked E s e"

definition Supervisor_Stop :: "('i, 'e) engine \<Rightarrow> 'i Supervisor \<Rightarrow> 'e \<Rightarrow> 'i Supervisor \<times> 'e" where
  "Supervisor_Stop E s e = stopLocked E s e"

definition Restart ::
  "('i, 'e) engine \<Rightarrow> 'i Supervisor \<Rightarrow> 'e \<Rightarrow> supervisor_error option \<times> 'i Supervisor \<times> 'e" where
  "Restart E s e = (case stopLocked E s e of (s1, e1) \<Rightarrow> startLocked E s1 e1)"

definition Starts :: "'i Supervisor \<Rightarrow> nat" where
  "Starts s = sv_starts s"

text \<open>
  What the code relies on of the engine's initiators: \<open>running e\<close> is the set of those that run in
  the state \<open>e\<close>, \<open>left e\<close> of those that a \<open>Start\<close> left running when it failed and that nobody has
  stopped since. Building starts and stops none; a successful start adds the initiator; a failed
  one may have got any way with its own initiator, and touches no other; stopping removes it.
\<close>

definition engine_laws :: "('i, 'e) engine \<Rightarrow> ('e \<Rightarrow> 'i set) \<Rightarrow> ('e \<Rightarrow> 'i set) \<Rightarrow> bool" where
  "engine_laws E running left \<longleftrightarrow>
     (\<forall>e. running (snd (en_Build E e)) = running e \<and> left (snd (en_Build E e)) = left e) \<and>
     (\<forall>i e. case en_Start E i e of
        (None, e2) \<Rightarrow> running e2 = insert i (running e) \<and> left e2 = left e
      | (Some err, e2) \<Rightarrow> running e2 \<subseteq> insert i (running e) \<and>
          left e2 = (if i \<in> running e2 then insert i (left e) else left e)) \<and>
     (\<forall>i e. running (en_Stop E i e) = running e - {i} \<and> left (en_Stop E i e) = left e - {i})"

lemma engine_lawsD:
  assumes "engine_laws E running left"
  shows "en_Build E e = (b, e1) \<Longrightarrow> running e1 = running e \<and> left e1 = left e"
    "en_Start E i e = (None, e2) \<Longrightarrow> running e2 = insert i (running e) \<and> left e2 = left e"
    "en_Start E i e = (Some err, e2) \<Longrightarrow> running e2 \<subseteq> insert i (running e) \<and>
       left e2 = (if i \<in> running e2 then insert i (left e) else left e)"
    "running (en_Stop E i e) = running e - {i} \<and> left (en_Stop E i e) = left e - {i}"
proof -
  note laws = assms [unfolded engine_laws_def]
  show "en_Build E e = (b, e1) \<Longrightarrow> running e1 = running e \<and> left e1 = left e"
    using spec [OF conjunct1 [OF laws], of e] by simp
  show "running (en_Stop E i e) = running e - {i} \<and> left (en_Stop E i e) = left e - {i}"
    by (rule laws [THEN conjunct2, THEN conjunct2, rule_format])
  have "case en_Start E i e of
      (None, e2) \<Rightarrow> running e2 = insert i (running e) \<and> left e2 = left e
    | (Some err, e2) \<Rightarrow> running e2 \<subseteq> insert i (running e) \<and>
        left e2 = (if i \<in> running e2 then insert i (left e) else left e)"
    by (rule laws [THEN conjunct2, THEN conjunct1, rule_format])
  then show "en_Start E i e = (None, e2) \<Longrightarrow> running e2 = insert i (running e) \<and> left e2 = left e"
    "en_Start E i e = (Some err, e2) \<Longrightarrow> running e2 \<subseteq> insert i (running e) \<and>
       left e2 = (if i \<in> running e2 then insert i (left e) else left e)"
    by simp_all
qed

text \<open>The supervisor's own initiator runs, and no other but what a failed start left.\<close>

definition owns :: "('e \<Rightarrow> 'i set) \<Rightarrow> ('e \<Rightarrow> 'i set) \<Rightarrow> 'i Supervisor \<Rightarrow> 'e \<Rightarrow> bool" where
  "owns running left s e \<longleftrightarrow> set_option (sv_current s) \<subseteq> running e \<and> running e \<subseteq> set_option (sv_current s) \<union> left e"

lemma owns_startLocked:
  assumes "engine_laws E running left" "owns running left s e"
  shows "owns running left (fst (snd (startLocked E s e))) (snd (snd (startLocked E s e)))"
proof (cases "sv_current s")
  case None
  obtain b e1 where b: "en_Build E e = (b, e1)" by force
  note built = engine_lawsD(1) [OF assms(1) b]
  show ?thesis
  proof (cases b)
    case (Inr i)
    obtain r e2 where r: "en_Start E i e1 = (r, e2)" by force
    show ?thesis
    proof (cases r)
      case None
      with engine_lawsD(2) [OF assms(1)] r have "running e2 = insert i (running e1) \<and> left e2 = left e1" by blast
      then show ?thesis
        using assms(2) built b r Inr None \<open>sv_current s = None\<close> by (auto simp: startLocked_def owns_def)
    next
      case (Some err)
      with engine_lawsD(3) [OF assms(1)] r
      have "running e2 \<subseteq> insert i (running e1)" "left e2 = (if i \<in> running e2 then insert i (left e1) else left e1)"
        by blast+
      then show ?thesis
        using assms(2) built b r Inr Some \<open>sv_current s = None\<close>
        by (auto simp: startLocked_def owns_def split: if_splits)
    qed
  qed (use assms(2) built b None in \<open>simp add: startLocked_def owns_def\<close>)
qed (use assms(2) in \<open>simp add: startLocked_def\<close>)

lemma owns_stopLocked:
  assumes "engine_laws E running left" "owns running left s e"
  shows "owns running left (fst (stopLocked E s e)) (snd (stopLocked E s e))"
    "sv_current (fst (stopLocked E s e)) = None"
  using assms(2) engine_lawsD(4) [OF assms(1)]
  by (auto simp: stopLocked_def owns_def split: option.split)

text \<open>Only a start that fails leaves anything.\<close>

lemma left_startLocked:
  assumes "engine_laws E running left" "\<forall>err. fst (startLocked E s e) \<noteq> Some (StartInitiator err)"
  shows "left (snd (snd (startLocked E s e))) = left e"
proof (cases "sv_current s = None")
  case True
  obtain b e1 where b: "en_Build E e = (b, e1)" by force
  note built = engine_lawsD(1) [OF assms(1) b]
  show ?thesis
  proof (cases b)
    case (Inr i)
    obtain r e2 where r: "en_Start E i e1 = (r, e2)" by force
    then have "r = None" using assms(2) b Inr True by (cases r) (simp_all add: startLocked_def)
    then show ?thesis using engine_lawsD(2) [OF assms(1)] built r b Inr True by (simp add: startLocked_def)
  qed (use built b True in \<open>simp add: startLocked_def\<close>)
qed (simp add: startLocked_def)

lemma left_stopLocked:
  assumes "engine_laws E running left"
  shows "left (snd (stopLocked E s e)) \<subseteq> left e"
  using engine_lawsD(4) [OF assms] by (auto simp: stopLocked_def split: option.split)

end
