(* ===== verification/WatchProps.thy ===== *)
theory WatchProps
  imports Supervisor Demo
begin

text \<open>
  When the watchdog forces a reconnect, and that a supervisor keeps one initiator
  (\<open>internal/session/watchdog.go\<close>, \<open>supervisor.go\<close>, and the client's inbound callbacks).
\<close>

lemma check_Timeout [simp]: "wd_Timeout (fst (check restart t w r)) = wd_Timeout w"
  by (simp add: check_fires)

lemma firings_Cons:
  assumes "watched c"
  obtains c1 r1 where "watched c1"
    "firings L sid restart (ev # evs) (c, w, r) =
       (if Fired (case ev of WTick t \<Rightarrow> fst (check restart t w r) | WApp m t \<Rightarrow> Notify t w | WAdmin m t \<Rightarrow> w)
             \<noteq> Fired w then [event_time ev] else []) @
       firings L sid restart evs
         (c1, (case ev of WTick t \<Rightarrow> fst (check restart t w r) | WApp m t \<Rightarrow> Notify t w | WAdmin m t \<Rightarrow> w), r1)"
proof -
  obtain c1 w1 r1 where s1: "watch_step L sid restart ev (c, w, r) = (c1, w1, r1)"
    by (metis surj_pair)
  have "watched c1" using watch_step_watched [OF assms, of L sid restart ev w r] by (simp add: s1)
  moreover have "w1 = (case ev of WTick t \<Rightarrow> fst (check restart t w r) | WApp m t \<Rightarrow> Notify t w | WAdmin m t \<Rightarrow> w)"
    using watch_step_watchdog [OF assms, of L sid restart ev w r] by (simp add: s1)
  ultimately show ?thesis using that [of c1 r1] by (simp add: s1 Let_def)
qed

declare firings.simps(2) [simp del]

lemma firings_WTick:
  assumes "watched c"
  shows "\<exists>c1 r1. watched c1 \<and> firings L sid restart (WTick t # evs) (c, w, r) =
    (if Fired (fst (check restart t w r)) \<noteq> Fired w then [t] else []) @
    firings L sid restart evs (c1, fst (check restart t w r), r1)"
  by (rule firings_Cons [OF assms, of L sid restart "WTick t" evs w r]) auto

lemma fired_check:
  "Fired (fst (check restart t w r)) \<noteq> Fired w \<longleftrightarrow> suspicious t w \<and> wd_lastApp w + wd_Timeout w \<le> t"
  by (auto simp: check_fires Fired_def)

lemma fired_Notify [simp]: "Fired (Notify t w) = Fired w" "wd_Timeout (Notify t w) = wd_Timeout w"
    "wd_lastApp (Notify t w) = t" "wd_Active (Notify t w) = wd_Active w"
  by (simp_all add: Notify_def Fired_def)

lemma firings_spaced:
  assumes "watched c" "sorted (map event_time evs)" "\<forall>ev \<in> set evs. wd_lastApp w \<le> event_time ev"
  shows "sorted_wrt (\<lambda>s t. s + wd_Timeout w \<le> t) (firings L sid restart evs (c, w, r)) \<and>
    (\<forall>t \<in> set (firings L sid restart evs (c, w, r)).
       wd_lastApp w + wd_Timeout w \<le> t \<and> t \<in> event_time ` set evs \<and>
       (\<forall>m s. WApp m s \<in> set evs \<longrightarrow> t \<le> s \<or> s + wd_Timeout w \<le> t))"
  using assms
proof (induction evs arbitrary: c w r)
  case (Cons ev evs)
  let ?w = "case ev of WTick t \<Rightarrow> fst (check restart t w r) | WApp m t \<Rightarrow> Notify t w | WAdmin m t \<Rightarrow> w"
  obtain c1 r1 where c1: "watched c1" and step: "firings L sid restart (ev # evs) (c, w, r) =
      (if Fired ?w \<noteq> Fired w then [event_time ev] else []) @ firings L sid restart evs (c1, ?w, r1)"
    by (rule firings_Cons [OF Cons.prems(1)])
  have later: "\<forall>e \<in> set evs. event_time ev \<le> event_time e" and srt: "sorted (map event_time evs)"
    using Cons.prems(2) by auto
  have old: "wd_lastApp w \<le> event_time ev" "\<forall>e \<in> set evs. wd_lastApp w \<le> event_time e"
    using Cons.prems(3) by simp_all
  have timeout: "wd_Timeout ?w = wd_Timeout w" by (simp split: watch_event.split)
  have last: "wd_lastApp w \<le> wd_lastApp ?w \<and> (\<forall>e \<in> set evs. wd_lastApp ?w \<le> event_time e)"
    using later old by (cases ev) (auto simp: check_fires)
  have fired: "Fired ?w \<noteq> Fired w \<Longrightarrow>
      wd_lastApp ?w = event_time ev \<and> wd_lastApp w + wd_Timeout w \<le> event_time ev \<and> (\<exists>t. ev = WTick t)"
    by (cases ev) (auto simp: fired_check, auto simp: check_fires)
  have app: "ev = WApp m s \<Longrightarrow> wd_lastApp ?w = s" for m s by simp
  note IH = Cons.IH [OF c1 srt, of ?w r1]
  have IH1: "sorted_wrt (\<lambda>s t. s + wd_Timeout w \<le> t) (firings L sid restart evs (c1, ?w, r1))"
    and IH2: "\<forall>t \<in> set (firings L sid restart evs (c1, ?w, r1)). wd_lastApp ?w + wd_Timeout w \<le> t \<and>
       t \<in> event_time ` set evs \<and> (\<forall>m s. WApp m s \<in> set evs \<longrightarrow> t \<le> s \<or> s + wd_Timeout w \<le> t)"
    using IH last timeout by simp_all
  have head: "event_time ev \<le> s" if "WApp m s \<in> set evs" for m s
    using later that by fastforce
  show ?case
    unfolding step using IH1 IH2 fired last app head by (fastforce simp: sorted_wrt_append)
qed simp

text \<open>
  C18. Never too early, and never in a burst: whatever messages arrive and whatever the ticks of
  the watcher are, reconnects are forced at least \<open>Timeout\<close> apart, and none within
  \<open>Timeout\<close> after an application message or after the watch began.
\<close>

theorem watchdog_not_early:
  assumes "watched c" "sorted (map event_time evs)" "\<forall>ev \<in> set evs. start \<le> event_time ev"
  shows "sorted_wrt (\<lambda>s t. s + wd_Timeout w \<le> t) (firings L sid restart evs (c, Watchdog_Start start w, r)) \<and>
    (\<forall>t \<in> set (firings L sid restart evs (c, Watchdog_Start start w, r)). start + wd_Timeout w \<le> t \<and>
       (\<forall>m s. WApp m s \<in> set evs \<longrightarrow> t \<le> s \<or> s + wd_Timeout w \<le> t))"
  using firings_spaced [OF assms(1,2), of "Watchdog_Start start w" L sid restart r] assms(3)
  by (simp add: Watchdog_Start_def)

definition demo_watched :: "(int \<times> Watchdog) OrderEntry" where
  "demo_watched = (NewOrderEntry demo_creds)
     \<lparr>oe_Client := WatchClient (NewClient demo_creds)\<rparr>"

lemma demo_watched: "watched demo_watched"
  by (simp add: watched_def demo_watched_def WatchClient_def OnInbound_def NewClient_def)

theorem watchdog_not_early_witness:
  "sorted_wrt (\<lambda>s t. s + 10 \<le> t) (firings demo_lib demo_client None [WTick 5, WApp demo_logon 8, WTick 15, WTick 20]
      (demo_watched, Watchdog_Start 0 (new_watchdog 10 5 None), ()))"
proof -
  let ?evs = "[WTick 5, WApp demo_logon 8, WTick 15, WTick 20]"
  have "sorted (map event_time ?evs)" "\<forall>ev \<in> set ?evs. 0 \<le> event_time ev" by simp_all
  from watchdog_not_early [OF demo_watched this, of "new_watchdog 10 5 None" demo_lib demo_client None "()"]
  show ?thesis by (simp add: new_watchdog_def)
qed

subsection \<open>In time\<close>

definition ticks :: "watch_event list \<Rightarrow> int list" where
  "ticks evs = concat (map (\<lambda>ev. case ev of WTick t \<Rightarrow> [t] | _ \<Rightarrow> []) evs)"

definition app_free :: "watch_event list \<Rightarrow> bool" where
  "app_free evs \<longleftrightarrow> (\<forall>m s. WApp m s \<notin> set evs)"

lemma first_firing:
  assumes "watched c" "app_free evs" "\<forall>t \<in> set (ticks evs). suspicious t w"
    and "filter (\<lambda>t. wd_lastApp w + wd_Timeout w \<le> t) (ticks evs) = t # ts"
  shows "\<exists>fs. firings L sid restart evs (c, w, r) = t # fs"
  using assms
proof (induction evs arbitrary: c w r)
  case (Cons ev evs)
  obtain c1 r1 where c1: "watched c1" and step: "firings L sid restart (ev # evs) (c, w, r) =
      (if Fired (case ev of WTick t \<Rightarrow> fst (check restart t w r) | WApp m t \<Rightarrow> Notify t w | WAdmin m t \<Rightarrow> w)
             \<noteq> Fired w then [event_time ev] else []) @
       firings L sid restart evs
         (c1, (case ev of WTick t \<Rightarrow> fst (check restart t w r) | WApp m t \<Rightarrow> Notify t w | WAdmin m t \<Rightarrow> w), r1)"
    by (rule firings_Cons [OF Cons.prems(1)])
  have free: "app_free evs" using Cons.prems(2) by (simp add: app_free_def)
  show ?case
  proof (cases ev)
    case (WTick s)
    show ?thesis
    proof (cases "wd_lastApp w + wd_Timeout w \<le> s")
      case True
      moreover have "suspicious s w" using Cons.prems(3) WTick by (simp add: ticks_def)
      ultimately show ?thesis
        using step Cons.prems(4) WTick fired_check [of restart s w r] by (simp add: ticks_def)
    next
      case False
      then have same: "fst (check restart s w r) = w" by (simp add: check_fires)
      have "\<exists>fs. firings L sid restart evs (c1, w, r1) = t # fs"
        using Cons.prems(3,4) WTick False by (intro Cons.IH [OF c1 free]) (simp_all add: ticks_def)
      then show ?thesis using step WTick same by simp
    qed
  next
    case (WApp m s)
    then show ?thesis using Cons.prems(2) unfolding app_free_def by auto
  next
    case (WAdmin m s)
    have "\<exists>fs. firings L sid restart evs (c1, w, r1) = t # fs"
      using Cons.prems(3,4) WAdmin by (intro Cons.IH [OF c1 free]) (simp_all add: ticks_def)
    then show ?thesis using step WAdmin by simp
  qed
qed (simp add: ticks_def)

lemma due_tick:
  fixes p :: int
  assumes "0 < p" "t0 < d" "d \<le> t0 + int n * p"
  shows "\<exists>k < n. d \<le> t0 + (int k + 1) * p \<and> t0 + (int k + 1) * p < d + p"
proof -
  let ?q = "(d - t0 - 1) div p"
  have split: "?q * p + (d - t0 - 1) mod p = d - t0 - 1" by (rule div_mult_mod_eq)
  have "0 \<le> (d - t0 - 1) mod p" "(d - t0 - 1) mod p < p" using assms(1) by simp_all
  moreover have "(?q + 1) * p = ?q * p + p" by (simp add: distrib_right)
  moreover have "0 \<le> ?q" using assms(1,2) by (simp add: pos_imp_zdiv_nonneg_iff)
  ultimately have q: "?q * p \<le> d - t0 - 1" "d - t0 - 1 < (?q + 1) * p" "0 \<le> ?q"
    "(?q + 1) * p = ?q * p + p"
    using split by linarith+
  have "?q * p < int n * p" using assms(3) q(1) by linarith
  then have "?q < int n" using assms(1) by simp
  then have "nat ?q < n" "int (nat ?q) = ?q" using q(3) by linarith+
  moreover have "d \<le> t0 + (?q + 1) * p" "t0 + (?q + 1) * p < d + p" using q by linarith+
  ultimately show ?thesis by (intro exI [of _ "nat ?q"]) simp
qed

text \<open>
  C17. And in time: a watcher whose ticker has interval \<open>p\<close> and whose silence is always
  suspicious forces a reconnect once application messages stop. If the last one came at or
  after the ticker's start \<open>t0\<close>, the first reconnect comes not before \<open>Timeout\<close> after it and
  less than \<open>Timeout + p\<close> after it, however many heartbeats arrive in the meantime.
\<close>

theorem watchdog_fires_in_time:
  assumes "watched c" "wd_Active w = None" "0 < wd_Timeout w" "0 < p"
    and "app_free evs" "ticks evs = map (\<lambda>k. t0 + (int k + 1) * p) [0..<n]"
    and "t0 \<le> wd_lastApp w" "wd_lastApp w + wd_Timeout w \<le> t0 + int n * p"
  shows "\<exists>t fs. firings L sid restart evs (c, w, r) = t # fs \<and>
    wd_lastApp w + wd_Timeout w \<le> t \<and> t < wd_lastApp w + wd_Timeout w + p"
proof -
  let ?d = "wd_lastApp w + wd_Timeout w"
  obtain k where k: "k < n" "?d \<le> t0 + (int k + 1) * p" "t0 + (int k + 1) * p < ?d + p"
    using due_tick [of p t0 ?d n] assms(3,4,7,8) by auto
  let ?due = "filter (\<lambda>t. ?d \<le> t) (ticks evs)"
  have mem: "t0 + (int k + 1) * p \<in> set ?due" using k by (auto simp: assms(6))
  have "sorted (ticks evs)"
    using assms(4) by (auto simp: assms(6) sorted_iff_nth_mono intro!: mult_right_mono)
  then have sorted: "sorted ?due" by (rule sorted_wrt_filter)
  obtain t ts where due: "?due = t # ts" using mem by (cases ?due) auto
  then have "?d \<le> t" by (metis filter_eq_ConsD)
  moreover have "t \<le> t0 + (int k + 1) * p" using sorted mem due by auto
  moreover have "\<forall>t \<in> set (ticks evs). suspicious t w" using assms(2) by (simp add: suspicious_def)
  ultimately show ?thesis
    using first_firing [OF assms(1,5) _ due] k(3) by fastforce
qed

theorem watchdog_fires_in_time_witness:
  "\<exists>t fs. firings demo_lib demo_client None [WTick 5, WAdmin demo_logon 8, WTick 10, WTick 15]
      (demo_watched, new_watchdog 9 5 None, ()) = t # fs \<and> 9 \<le> t \<and> t < 14"
  using watchdog_fires_in_time [OF demo_watched, of "new_watchdog 9 5 None" 5
      "[WTick 5, WAdmin demo_logon 8, WTick 10, WTick 15]" 0 3 demo_lib demo_client None "()"]
  by (simp add: new_watchdog_def app_free_def ticks_def upt_rec)

text \<open>
  Heartbeats are not a sign of life: the admin messages of a session change nothing of when
  its watchdog fires.
\<close>

theorem heartbeats_do_not_count:
  assumes "watched c"
  shows "firings L sid restart evs (c, w, r) =
    firings L sid restart (filter (\<lambda>ev. \<forall>m t. ev \<noteq> WAdmin m t) evs) (c, w, r)"
  using assms
proof (induction evs arbitrary: c w r)
  case (Cons ev evs)
  obtain c1 w1 r1 where s1: "watch_step L sid restart ev (c, w, r) = (c1, w1, r1)" by (metis surj_pair)
  have "watched c1" using watch_step_watched [OF Cons.prems, of L sid restart ev w r] by (simp add: s1)
  note IH = Cons.IH [OF this]
  show ?case
  proof (cases "\<exists>m t. ev = WAdmin m t")
    case True
    then have "(c1, w1, r1) = (c, w, r)"
      using s1 watched_admin [OF Cons.prems] by (auto simp: watch_step_def)
    with True IH show ?thesis by (auto simp: firings.simps s1 Let_def)
  next
    case False
    with IH show ?thesis by (auto simp: firings.simps s1 Let_def)
  qed
qed simp

theorem heartbeats_do_not_count_witness:
  "firings demo_lib demo_client None [WTick 5, WAdmin demo_logon 8, WTick 10] (demo_watched, new_watchdog 9 5 None, ())
   = firings demo_lib demo_client None [WTick 5, WTick 10] (demo_watched, new_watchdog 9 5 None, ())"
  using heartbeats_do_not_count [OF demo_watched, of demo_lib demo_client None
      "[WTick 5, WAdmin demo_logon 8, WTick 10]" "new_watchdog 9 5 None" "()"]
  by simp

text \<open>
  The opening of the active window: silence from before the window counts. When the last
  message is at least \<open>Timeout\<close> old, the first tick at which \<open>Active\<close> holds forces a
  reconnect at once, even if the window opened at that very moment and no tick before was
  active.
\<close>

theorem silence_before_window_counts:
  assumes "watched c" "wd_Active w = Some active" "active open_at"
    and "\<forall>t \<in> set shut. \<not> active t" "wd_lastApp w + wd_Timeout w \<le> open_at"
  shows "firings L sid restart (map WTick (shut @ [open_at])) (c, w, r) = [open_at]"
  using assms(1,4)
proof (induction shut arbitrary: c r)
  case Nil
  obtain c1 r1 where "firings L sid restart [WTick open_at] (c, w, r) =
      (if Fired (fst (check restart open_at w r)) \<noteq> Fired w then [open_at] else []) @
      firings L sid restart [] (c1, fst (check restart open_at w r), r1)"
    using firings_WTick [OF Nil(1), where restart = restart and evs = "[]" and t = open_at] by blast
  moreover have "suspicious open_at w" using assms(2,3) by (simp add: suspicious_def)
  ultimately show ?case using assms(5) by (simp add: fired_check)
next
  case (Cons t shut)
  obtain c1 r1 where c1: "watched c1" and step:
      "firings L sid restart (WTick t # map WTick (shut @ [open_at])) (c, w, r) =
      (if Fired (fst (check restart t w r)) \<noteq> Fired w then [t] else []) @
      firings L sid restart (map WTick (shut @ [open_at])) (c1, fst (check restart t w r), r1)"
    using firings_WTick [OF Cons.prems(1), where restart = restart and t = t
        and evs = "map WTick (shut @ [open_at])"]
    by blast
  have "\<not> suspicious t w" using Cons.prems(2) assms(2) by (simp add: suspicious_def)
  then have "fst (check restart t w r) = w" by (simp add: check_fires)
  then show ?case using step Cons.IH [OF c1] Cons.prems(2) by simp
qed

theorem silence_before_window_counts_witness:
  "firings demo_lib demo_client None (map WTick ([50, 75] @ [100]))
     (demo_watched, new_watchdog 25 0 (Some (\<lambda>t. 100 \<le> t)), ()) = [100]"
  by (rule silence_before_window_counts [OF demo_watched, where active = "\<lambda>t. 100 \<le> t"])
     (simp_all add: new_watchdog_def)

subsection \<open>The supervisor\<close>

datatype supervisor_op = SStart | SStop | SRestart

fun supervise ::
  "('i, 'e) engine \<Rightarrow> supervisor_op list \<Rightarrow> 'i Supervisor \<times> 'e \<Rightarrow> 'i Supervisor \<times> 'e" where
  "supervise E [] s = s"
| "supervise E (SStart # ops) (s, e) = supervise E ops (snd (Supervisor_Start E s e))"
| "supervise E (SStop # ops) (s, e) = supervise E ops (Supervisor_Stop E s e)"
| "supervise E (SRestart # ops) (s, e) = supervise E ops (snd (Restart E s e))"

lemma owns_supervise:
  assumes "engine_laws E running left" "owns running left (fst s) (snd s)"
  shows "owns running left (fst (supervise E ops s)) (snd (supervise E ops s))"
  using assms
proof (induction E ops s rule: supervise.induct)
  case (2 E ops s e)
  have "owns running left (fst (snd (Supervisor_Start E s e))) (snd (snd (Supervisor_Start E s e)))"
    using owns_startLocked [OF 2(2), of s e] 2(3) by (simp add: Supervisor_Start_def)
  from 2(1) [OF 2(2) this] show ?case by simp
next
  case (3 E ops s e)
  have "owns running left (fst (Supervisor_Stop E s e)) (snd (Supervisor_Stop E s e))"
    using owns_stopLocked(1) [OF 3(2), of s e] 3(3) by (simp add: Supervisor_Stop_def)
  from 3(1) [OF 3(2) this] show ?case by simp
next
  case (4 E ops s e)
  have "owns running left (fst (snd (Restart E s e))) (snd (snd (Restart E s e)))"
    using owns_startLocked [OF 4(2) owns_stopLocked(1) [OF 4(2)], of s e] 4(3)
    by (simp add: Restart_def case_prod_beta)
  from 4(1) [OF 4(2) this] show ?case by simp
qed simp

text \<open>What the operations answer, and what they leave when no start among them fails.\<close>

fun supervise_answers ::
  "('i, 'e) engine \<Rightarrow> supervisor_op list \<Rightarrow> 'i Supervisor \<times> 'e \<Rightarrow> supervisor_error option list" where
  "supervise_answers E [] s = []"
| "supervise_answers E (SStart # ops) (s, e) =
     fst (Supervisor_Start E s e) # supervise_answers E ops (snd (Supervisor_Start E s e))"
| "supervise_answers E (SStop # ops) (s, e) = None # supervise_answers E ops (Supervisor_Stop E s e)"
| "supervise_answers E (SRestart # ops) (s, e) =
     fst (Restart E s e) # supervise_answers E ops (snd (Restart E s e))"

lemma left_supervise:
  assumes "engine_laws E running left" "\<forall>err. Some (StartInitiator err) \<notin> set (supervise_answers E ops s)"
  shows "left (snd (supervise E ops s)) \<subseteq> left (snd s)"
  using assms
proof (induction E ops s rule: supervise.induct)
  case (2 E ops s e)
  have "left (snd (snd (Supervisor_Start E s e))) = left e"
    unfolding Supervisor_Start_def
    by (rule left_startLocked [OF 2(2)]) (use 2(3) in \<open>auto simp: Supervisor_Start_def\<close>)
  then show ?case using 2 by simp
next
  case (3 E ops s e)
  have "left (snd (Supervisor_Stop E s e)) \<subseteq> left e"
    using left_stopLocked [OF 3(2)] by (simp add: Supervisor_Stop_def)
  then show ?case using 3 by simp
next
  case (4 E ops s e)
  obtain s1 e1 where s1: "stopLocked E s e = (s1, e1)" by force
  have "left e1 \<subseteq> left e" using left_stopLocked [OF 4(2), of s e] s1 by simp
  moreover have "left (snd (snd (Restart E s e))) = left e1"
    unfolding Restart_def s1 prod.case
    by (rule left_startLocked [OF 4(2)]) (use 4(3) s1 in \<open>auto simp: Restart_def\<close>)
  ultimately show ?case using 4 by simp
qed simp

lemma card_set_option: "card (set_option x) \<le> Suc 0"
  by (cases x) simp_all

text \<open>
  C21. One initiator at a time: after any sequence of starts, stops and restarts, whatever
  fails among them, the initiator the supervisor holds runs, and nothing else does that the
  engine's \<open>Start\<close> did not leave behind when it failed; so if it left nothing, or no start failed,
  the initiators that run are exactly the one the supervisor holds, if any.
\<close>

theorem one_initiator:
  assumes "engine_laws E running left" "running e = {}" "left e = {}"
  shows "case supervise E ops (\<lparr>sv_current = None, sv_starts = 0\<rparr>, e) of
    (s', e') \<Rightarrow> set_option (sv_current s') \<subseteq> running e' \<and> running e' \<subseteq> set_option (sv_current s') \<union> left e' \<and>
      (left e' = {} \<or> (\<forall>err. Some (StartInitiator err) \<notin>
           set (supervise_answers E ops (\<lparr>sv_current = None, sv_starts = 0\<rparr>, e))) \<longrightarrow>
         running e' = set_option (sv_current s') \<and> card (running e') \<le> 1)"
proof -
  let ?s = "(\<lparr>sv_current = None, sv_starts = 0\<rparr>, e)"
  obtain s' e' where s': "supervise E ops ?s = (s', e')" by force
  have own: "set_option (sv_current s') \<subseteq> running e'" "running e' \<subseteq> set_option (sv_current s') \<union> left e'"
    using owns_supervise [OF assms(1), of ?s ops] assms(2) by (simp_all add: owns_def s')
  moreover have "running e' = set_option (sv_current s')"
    if "left e' = {} \<or> (\<forall>err. Some (StartInitiator err) \<notin> set (supervise_answers E ops ?s))"
  proof -
    have "left e' = {}" using that left_supervise [OF assms(1), of ops ?s] assms(3) by (auto simp: s')
    with own show ?thesis by auto
  qed
  ultimately show ?thesis by (simp add: s' card_set_option)
qed

definition demo_engine :: "(nat, nat \<times> nat set) engine" where
  "demo_engine =
     \<lparr>en_Build = (\<lambda>(n, R). (if n = 2 then Inl ''no'' else Inr n, (n + 1, R))),
      en_Start = (\<lambda>i (n, R). (None, (n, insert i R))),
      en_Stop = (\<lambda>i (n, R). (n, R - {i}))\<rparr>"

text \<open>An engine whose every second start fails and leaves its initiator running.\<close>

definition leaky_engine :: "(nat, nat \<times> nat set \<times> nat set) engine" where
  "leaky_engine =
     \<lparr>en_Build = (\<lambda>(n, R, F). (Inr n, (n + 1, R, F))),
      en_Start = (\<lambda>i (n, R, F). if odd i then (Some ''no'', (n, insert i R, insert i F)) else (None, (n, insert i R, F))),
      en_Stop = (\<lambda>i (n, R, F). (n, R - {i}, F - {i}))\<rparr>"

lemma leaky_engine_laws: "engine_laws leaky_engine (\<lambda>(n, R, F). R) (\<lambda>(n, R, F). F)"
  by (auto simp: engine_laws_def leaky_engine_def)

theorem one_initiator_witness:
  "case supervise leaky_engine [SStart, SRestart, SRestart]
     (\<lparr>sv_current = None, sv_starts = 0\<rparr>, (0, {}, {})) of
   (s', n, R, F) \<Rightarrow> set_option (sv_current s') \<subseteq> R \<and> R \<subseteq> set_option (sv_current s') \<union> F \<and> F = {1} \<and> R = {1, 2}"
proof -
  have "supervise leaky_engine [SStart, SRestart, SRestart] (\<lparr>sv_current = None, sv_starts = 0\<rparr>, (0, {}, {})) =
      (\<lparr>sv_current = Some 2, sv_starts = 2\<rparr>, (3, {1, 2}, {1}))"
    by (auto simp: Supervisor_Start_def Restart_def startLocked_def stopLocked_def leaky_engine_def)
  with one_initiator [OF leaky_engine_laws, of "(0, {}, {})" "[SStart, SRestart, SRestart]"] show ?thesis
    by simp
qed

text \<open>
  A restart either succeeds, and then the supervisor holds a new initiator and has counted
  one more start, or it fails to build or to start one; then it holds none, has counted
  nothing, and a later restart begins from there: it never answers \<open>initiator already
  running\<close>.
\<close>

theorem restart_outcome:
  "case Restart E s e of (answer, s', e') \<Rightarrow>
     answer \<noteq> Some AlreadyRunning \<and>
     (if answer = None then sv_current s' \<noteq> None \<and> Starts s' = Starts s + 1
      else sv_current s' = None \<and> Starts s' = Starts s)"
  by (auto simp: Restart_def stopLocked_def startLocked_def Starts_def
      split: option.split prod.split sum.split)

end
