(* ===== verification/OeMain.thy ===== *)
theory OeMain
  imports Supervisor
begin

text \<open>
  The order-entry binary (\<open>cmd/oe-client/main.go\<close>): the closure \<open>build\<close> that makes a fresh
  client for every initiator, the wait for the logon and the loop that sends orders. Reading
  flags and files, the store and the log factory are not modelled. \<open>current()\<close> and the stop
  channel are read once per round: the observations are a list, one entry per round, and a
  list that is too short for the loop to end gives \<open>None\<close>.
\<close>

text \<open>The client that \<open>build\<close> stores; \<open>watchdog\<close> tells whether one is configured.\<close>

definition build_client ::
  "LogonCredentials \<Rightarrow> string \<Rightarrow> bool \<Rightarrow> (int \<times> Watchdog) OrderEntry" where
  "build_client creds clOrdIDPrefix watchdog =
     (let nxt = SetClOrdIDPrefix clOrdIDPrefix (NewOrderEntry creds)
      in if watchdog then nxt\<lparr>oe_Client := WatchClient (oe_Client nxt)\<rparr> else nxt)"

definition run_prefix :: "nat \<Rightarrow> string" where
  "run_prefix unixNano = format36 unixNano"

fun waitForLogon :: "SessionID \<Rightarrow> ('w OrderEntry option \<times> bool) list \<Rightarrow> bool option" where
  "waitForLogon sid [] = None"
| "waitForLogon sid ((app, stop) # obs) =
     (if (case app of None \<Rightarrow> False | Some c \<Rightarrow> LoggedOn sid (oe_Client c)) then Some True
      else if stop then Some False
      else waitForLogon sid obs)"

text \<open>
  One process: \<open>Rebuild\<close> is a call of \<open>build\<close> (the first start, or a restart by the
  watchdog), which replaces the current client; \<open>SendAt now\<close> is one round of the send loop.
  The result lists what the rounds answered.
\<close>

datatype process_step = Rebuild | SendAt int

fun process ::
  "lib \<Rightarrow> (message \<Rightarrow> SessionID \<Rightarrow> 'e \<Rightarrow> string option \<times> 'e) \<Rightarrow> LogonCredentials \<Rightarrow> string \<Rightarrow> bool
     \<Rightarrow> SessionID \<Rightarrow> NewOrder \<Rightarrow> process_step list \<Rightarrow> (int \<times> Watchdog) OrderEntry \<Rightarrow> 'e
     \<Rightarrow> (string + string) list \<times> 'e" where
  "process L SendToTarget creds prefix wd sid ord [] c e = ([], e)"
| "process L SendToTarget creds prefix wd sid ord (Rebuild # steps) c e =
     process L SendToTarget creds prefix wd sid ord steps (build_client creds prefix wd) e"
| "process L SendToTarget creds prefix wd sid ord (SendAt now # steps) c e =
     (case Send L SendToTarget now sid ord c e of (answer, c1, e1) \<Rightarrow>
        (case process L SendToTarget creds prefix wd sid ord steps c1 e1 of (answers, e2) \<Rightarrow>
           (answer # answers, e2)))"

text \<open>
  \<open>sendOrders\<close> after the logon: a round sends with the client that is current, then ends the
  loop when no interval is set or when told to stop.
\<close>

fun send_loop ::
  "lib \<Rightarrow> (message \<Rightarrow> SessionID \<Rightarrow> 'e \<Rightarrow> string option \<times> 'e) \<Rightarrow> SessionID \<Rightarrow> NewOrder \<Rightarrow> int
     \<Rightarrow> ('w OrderEntry \<Rightarrow> 'w OrderEntry) list \<Rightarrow> int list \<Rightarrow> bool list \<Rightarrow> 'w OrderEntry \<Rightarrow> 'e
     \<Rightarrow> ((string + string) list \<times> 'w OrderEntry \<times> 'e) option" where
  "send_loop L SendToTarget sid ord every (replaced # rs) (now # ts) (stop # ss) c e =
     (case Send L SendToTarget now sid ord (replaced c) e of (answer, c1, e1) \<Rightarrow>
        if every \<le> 0 \<or> stop then Some ([answer], c1, e1)
        else map_option (\<lambda>(answers, r). (answer # answers, r))
               (send_loop L SendToTarget sid ord every rs ts ss c1 e1))"
| "send_loop L SendToTarget sid ord every _ _ _ c e = None"

lemma build_client_fields [simp]:
  "oe_prefix (build_client creds p wd) = p" "oe_seq (build_client creds p wd) = 0"
  "oe_orders (build_client creds p wd) = Map.empty"
  by (simp_all add: build_client_def SetClOrdIDPrefix_def NewOrderEntry_def Let_def)

end
