(* ===== verification/SendProps.thy ===== *)
theory SendProps
  imports OeMain VenueProps
begin

text \<open>
  Orders from the client to the venue: the ClOrdIDs of \<open>internal/client/oe.go\<close>, the order
  message read back by \<open>onNewOrderSingle\<close>, and what a rebuilt client of \<open>cmd/oe-client\<close> does.
\<close>

subsection \<open>ClOrdIDs\<close>

fun draws :: "nat \<Rightarrow> 'w OrderEntry \<Rightarrow> string list" where
  "draws 0 c = []"
| "draws (Suc n) c = (case next_ClOrdID c of (i, c1) \<Rightarrow> i # draws n c1)"

definition clordid :: "string \<Rightarrow> nat \<Rightarrow> string" where
  "clordid p n = ''CL'' @ p @ fmt06 n"

lemma next_ClOrdID_eq: "next_ClOrdID c = (clordid (oe_prefix c) (oe_seq c + 1), c\<lparr>oe_seq := oe_seq c + 1\<rparr>)"
  by (simp add: next_ClOrdID_def clordid_def Let_def)

lemma upt_step: "[m + 1 ..< m + 1 + Suc n] = (m + 1) # [m + 2 ..< m + 2 + n]"
  by (simp add: upt_conv_Cons)

lemma draws_eq: "draws n c = map (clordid (oe_prefix c)) [oe_seq c + 1 ..< oe_seq c + 1 + n]"
proof (induction n arbitrary: c)
  case (Suc n)
  note upt_step [of "oe_seq c" n]
  then show ?case using Suc [of "c\<lparr>oe_seq := oe_seq c + 1\<rparr>"] by (simp add: next_ClOrdID_eq)
qed simp

lemma clordid_inj: "clordid p m = clordid p n \<longleftrightarrow> m = n"
  using clordids.render_eq_iff by (simp add: clordid_def)

lemma clordid_prefix: "length p = length q \<Longrightarrow> clordid p m = clordid q n \<longleftrightarrow> p = q \<and> m = n"
  using clordid_inj by (auto simp: clordid_def)

text \<open>
  A client never draws the same ClOrdID twice, and two clients whose prefixes differ and have the
  same length never draw a common one, however many orders they send.
\<close>

lemma draws_apart:
  assumes "length (oe_prefix c) = length (oe_prefix d)" "oe_prefix c \<noteq> oe_prefix d"
  shows "distinct (draws m c) \<and> set (draws m c) \<inter> set (draws n d) = {}"
  using clordid_prefix [OF assms(1)] assms(2)
  by (auto simp: draws_eq distinct_map inj_on_def clordid_inj)

text \<open>
  The prefix of a process: the nanoseconds since 1970 in base 36. It determines the time it was
  made from, and between \<open>36 ^ 11\<close> nanoseconds (in 1974) and \<open>36 ^ 12\<close> (in 2120) it has twelve
  digits.
\<close>

lemma digit36_inj: "m < 36 \<Longrightarrow> n < 36 \<Longrightarrow> digit36 m = digit36 n \<longleftrightarrow> m = n"
proof -
  have "(of_char (digit36 d) :: int) = (if d < 10 then 48 + int d else 87 + int d)" if "d < 36" for d
    using that by (simp add: digit36_def)
  note code = this
  assume m: "m < 36" and n: "n < 36"
  have "m = n" if "digit36 m = digit36 n"
  proof -
    have "(if m < 10 then 48 + int m else 87 + int m) = (if n < 10 then 48 + int n else 87 + int n)"
      using code [OF m] code [OF n] that by simp
    then show ?thesis by (simp split: if_splits)
  qed
  then show "digit36 m = digit36 n \<longleftrightarrow> m = n" by blast
qed

lemma format36_inj: "format36 m = format36 n \<Longrightarrow> m = n"
proof (induction m arbitrary: n rule: format36.induct)
  case (1 m)
  have ne: "format36 k \<noteq> []" for k by (subst format36.simps) simp
  show ?case
  proof (cases "m < 36 \<or> n < 36")
    case True
    then have "m < 36 \<and> n < 36"
      using 1(2) ne [of "m div 36"] ne [of "n div 36"] by (auto simp: format36.simps [of m] format36.simps [of n] split: if_splits)
    then show ?thesis using 1(2) digit36_inj by (simp add: format36.simps [of m] format36.simps [of n])
  next
    case False
    then have "format36 (m div 36) = format36 (n div 36)" "digit36 (m mod 36) = digit36 (n mod 36)"
      using 1(2) by (simp_all add: format36.simps [of m] format36.simps [of n])
    then have "m div 36 = n div 36" "m mod 36 = n mod 36" using 1(1) False by (simp_all add: digit36_inj)
    then show ?thesis by (metis div_mod_decomp)
  qed
qed

lemma format36_length: "36 ^ k \<le> n \<Longrightarrow> n < 36 ^ Suc k \<Longrightarrow> length (format36 n) = Suc k"
proof (induction k arbitrary: n)
  case (Suc k)
  have "36 ^ k \<le> n div 36" "n div 36 < 36 ^ Suc k" using Suc.prems by (simp_all add: less_mult_imp_div_less div_le_mono [of "36 * 36 ^ k" n 36, simplified])
  moreover have "\<not> n < 36"
  proof -
    have "1 \<le> (36 :: nat) ^ k" by simp
    then show ?thesis using Suc.prems(1) unfolding power_Suc by linarith
  qed
  ultimately show ?case using Suc.IH by (simp add: format36.simps [of n])
qed (simp add: format36.simps)

text \<open>
  C27. Two runs of the order-entry binary never draw a common ClOrdID, however many orders each
  sends and whatever its options: if they were started at different nanoseconds between 1974 and
  2120, their prefixes differ and have the same length. And no run repeats one of its own with
  the same client.
\<close>

theorem runs_never_collide:
  assumes "t \<noteq> u" "36 ^ 11 \<le> t" "t < 36 ^ 12" "36 ^ 11 \<le> u" "u < 36 ^ 12"
  shows "distinct (draws m (build_client creds (run_prefix t) wd)) \<and>
    set (draws m (build_client creds (run_prefix t) wd)) \<inter>
    set (draws n (build_client creds' (run_prefix u) wd')) = {}"
proof (rule draws_apart)
  show "length (oe_prefix (build_client creds (run_prefix t) wd)) =
      length (oe_prefix (build_client creds' (run_prefix u) wd'))"
    using format36_length [of 11] assms by (simp add: run_prefix_def)
  show "oe_prefix (build_client creds (run_prefix t) wd) \<noteq> oe_prefix (build_client creds' (run_prefix u) wd')"
    using format36_inj assms(1) by (auto simp: run_prefix_def)
qed

theorem runs_never_collide_witness:
  "set (draws 3 (build_client demo_creds (run_prefix 1700000000000000000) True)) \<inter>
   set (draws 5 (build_client demo_creds (run_prefix 1700000000000000001) False)) = {}"
proof -
  have "(36 :: nat) ^ 11 = 131621703842267136" "(36 :: nat) ^ 12 = 4738381338321616896" by simp_all
  then show ?thesis
    using runs_never_collide [of 1700000000000000000 1700000000000000001 3 demo_creds True 5 demo_creds False] by simp
qed

text \<open>
  The equal length is needed: with a prefix of one digit less, a later order of one run has the
  ClOrdID of an early one of another.
\<close>

theorem prefixes_of_other_length_collide:
  "clordid ''x1'' 1 = clordid ''x'' 1000001"
proof -
  have "digit_char 0 = CHR ''0''" "digit_char (Suc 0) = CHR ''1''" by (simp_all add: digit_char_def char_of_def)
  moreover have "replicate 5 c = [c, c, c, c, c]" for c :: char by (simp add: numeral_eq_Suc)
  ultimately show ?thesis by (simp add: clordid_def fmt06_def itoa.simps)
qed

subsection \<open>An order from client to venue\<close>

lemma build_order_message:
  assumes "dec_reads L"
  shows "build_order L (msg_body (new_order_message L now i ord)) =
    Inr \<lparr>os_ClOrdID = i, os_OrderID = [], os_Account = no_Account ord, os_Symbol = no_Symbol ord,
         os_Side = no_Side ord, os_OrdType = ''2'', os_TimeInForce = ''0'',
         os_Price = carried L 2 (no_Price ord), os_OrderQty = carried L 0 (no_OrderQty ord), os_CumQty = 0, os_AvgPx = 0, os_Status = []\<rparr>"
  by (simp add: build_order_def new_order_message_def getter_defs tag_defs readDec_showDec [OF assms] Let_def)

lemma NewOrder_accepted:
  assumes "book_inv (app_book a)" "build_order L (msg_body msg) = Inr ord"
    and "Get (os_ClOrdID ord) (app_book a) = None"
  shows "fst (onNewOrderSingle L msg sid a) = None \<and>
    Orders (snd (onNewOrderSingle L msg sid a)) = Orders a @ [accepted_as ord (app_book a)]"
  using assms insert_new_ok [OF assms(3)] insert_new_inv(2) [OF assms(1,3)]
  by (simp add: onNewOrderSingle_eq accepted_as_def Orders_def)

lemma NewOrder_found:
  assumes "build_order L (msg_body msg) = Inr ord" "Get (os_ClOrdID ord) (app_book a) = None"
  shows "Get (os_ClOrdID ord) (app_book (snd (onNewOrderSingle L msg sid a))) \<noteq> None"
proof -
  have "Get (os_ClOrdID ord) (snd (insert_new ord (app_book a))) \<noteq> None"
    by (simp add: insert_new_ok [OF assms(2)] Get_def)
  then show ?thesis using assms insert_new_ok [OF assms(2)] by (simp add: onNewOrderSingle_eq)
qed

lemma NewOrder_duplicate:
  assumes "build_order L (msg_body msg) = Inr ord" "Get (os_ClOrdID ord) (app_book a) \<noteq> None"
  shows "fst (onNewOrderSingle L msg sid a) =
    Some (BusinessReject (OrderRefused (DuplicateClOrdID (os_ClOrdID ord))) 5)"
  using assms insert_new_dup [OF assms(2)] by (simp add: onNewOrderSingle_eq)

lemma FromApp_order:
  assumes "msg_header m tagMsgType = Some ''D''" "kindOf sid a \<noteq> KindDropCopy"
  shows "FromApp L m sid a = onNewOrderSingle L m sid (noteReceived L m sid a)"
  using assms by (simp add: FromApp_def kindOf_def note_frame Let_def)

lemma order_arrives:
  assumes "dec_reads L"
    and "reachable L a" "kindOf sid a \<noteq> KindDropCopy" "Get i (app_book a) = None"
    and "msg_body m = msg_body (new_order_message L now i ord)"
    and "msg_header m tagMsgType = msg_header (new_order_message L now i ord) tagMsgType"
  shows "fst (FromApp L m sid a) = None \<and>
    Orders (snd (FromApp L m sid a)) = Orders a @
      [\<lparr>os_ClOrdID = i, os_OrderID = ''ORD'' @ fmt06 (bk_orderSeq (app_book a) + 1),
        os_Account = no_Account ord, os_Symbol = no_Symbol ord, os_Side = no_Side ord,
        os_OrdType = ''2'', os_TimeInForce = TIFDay, os_Price = carried L 2 (no_Price ord),
        os_OrderQty = carried L 0 (no_OrderQty ord), os_CumQty = 0, os_AvgPx = 0, os_Status = StatusNew\<rparr>]"
proof -
  let ?a = "noteReceived L m sid a"
  have "msg_header m tagMsgType = Some ''D''"
    using assms(6) by (simp add: new_order_message_def Let_def)
  from FromApp_order [OF this assms(3), of L]
  have from_app: "FromApp L m sid a = onNewOrderSingle L m sid ?a" .
  have a: "app_book ?a = app_book a" "Orders ?a = Orders a" by (simp_all add: note_frame Orders_def)
  have "book_inv (app_book ?a)" using venue_inv_book [OF reachable_inv [OF assms(2)]] a by simp
  from NewOrder_accepted [OF this, of L m _ sid] show ?thesis
    using build_order_message [OF assms(1), of now i ord] assms(4,5)
    by (simp add: from_app a accepted_as_def TIFDay_def)
qed

text \<open>
  An order arrives as it was sent: the message \<open>Send\<close> builds, delivered to the venue on a
  session that is not the drop-copy session, is accepted when its ClOrdID is new, and the
  order in the book has the client's terms: limit, day, its symbol, side and account, its
  quantity as written without decimals and its price as written with two; these are the ones
  asked for when they have no more places.
\<close>

theorem order_round_trip:
  assumes "dec_roundtrip L" "dec_reads L"
    and "reachable L a" "kindOf sid a \<noteq> KindDropCopy" "Get i (app_book a) = None"
    and "msg_body m = msg_body (new_order_message L now i ord)"
    and "msg_header m tagMsgType = msg_header (new_order_message L now i ord) tagMsgType"
  shows "fst (FromApp L m sid a) = None \<and>
    Orders (snd (FromApp L m sid a)) = Orders a @
      [\<lparr>os_ClOrdID = i, os_OrderID = ''ORD'' @ fmt06 (bk_orderSeq (app_book a) + 1),
        os_Account = no_Account ord, os_Symbol = no_Symbol ord, os_Side = no_Side ord,
        os_OrdType = ''2'', os_TimeInForce = TIFDay, os_Price = carried L 2 (no_Price ord),
        os_OrderQty = carried L 0 (no_OrderQty ord), os_CumQty = 0, os_AvgPx = 0, os_Status = StatusNew\<rparr>] \<and>
    (has_scale 0 (no_OrderQty ord) \<longrightarrow> carried L 0 (no_OrderQty ord) = no_OrderQty ord) \<and>
    (has_scale 2 (no_Price ord) \<longrightarrow> carried L 2 (no_Price ord) = no_Price ord)"
  using order_arrives [OF assms(2-7)] carried_exact [OF assms(1)] by blast

definition demo_new_order :: NewOrder where
  "demo_new_order = \<lparr>no_Symbol = ''PETR4'', no_Side = ''1'', no_OrderQty = 100, no_Price = 51 / 2, no_Account = []\<rparr>"

lemma demo_new_order_scale: "has_scale 0 (no_OrderQty demo_new_order)" "has_scale 2 (no_Price demo_new_order)"
proof -
  have "(51 / 2 :: rat) * 10 ^ 2 = 2550" by simp
  then show "has_scale 0 (no_OrderQty demo_new_order)" "has_scale 2 (no_Price demo_new_order)"
    by (simp_all add: has_scale_def demo_new_order_def)
qed

theorem order_round_trip_witness:
  "map os_OrderQty (Orders (snd (FromApp demo_lib (new_order_message demo_lib 0 ''CL1'' demo_new_order)
     demo_oe demo_start))) = [100]"
proof -
  have "kindOf demo_oe demo_start \<noteq> KindDropCopy" "Get ''CL1'' (app_book demo_start) = None"
    "Orders demo_start = []"
    by (simp_all add: demo_eval)
  with order_round_trip [OF demo_dec_roundtrip demo_dec_reads demo_start_reachable this(1,2) refl refl,
      of 0 demo_new_order] demo_new_order_scale
  show ?thesis by (simp add: demo_new_order_def)
qed

subsection \<open>A rebuilt client\<close>

lemma Send_ok:
  assumes "\<And>m s e. fst (SendToTarget m s e) = None"
  shows "fst (Send L SendToTarget now sid ord c e) = Inr (clordid (oe_prefix c) (oe_seq c + 1))"
    "fst (snd (Send L SendToTarget now sid ord c e)) = c\<lparr>oe_seq := oe_seq c + 1\<rparr>"
  using assms
  by (auto simp: Send_def next_ClOrdID_eq split: prod.split option.split) (metis fst_conv option.distinct(1))+

lemma process_sends:
  assumes "\<And>m s e. fst (SendToTarget m s e) = None"
  shows "fst (process L SendToTarget creds p wd sid ord (map SendAt ts @ steps) c e) =
    map (\<lambda>n. Inr (clordid (oe_prefix c) n)) [oe_seq c + 1 ..< oe_seq c + 1 + length ts] @
    fst (process L SendToTarget creds p wd sid ord steps
           (c\<lparr>oe_seq := oe_seq c + length ts\<rparr>)
           (snd (process L SendToTarget creds p wd sid ord (map SendAt ts) c e)))"
proof (induction ts arbitrary: c e)
  case (Cons t ts)
  obtain e1 where s: "Send L SendToTarget t sid ord c e =
      (Inr (clordid (oe_prefix c) (oe_seq c + 1)), c\<lparr>oe_seq := oe_seq c + 1\<rparr>, e1)"
    using Send_ok [where SendToTarget = SendToTarget and c = c and e = e, OF assms] by (metis prod.collapse)
  show ?case
    using Cons [of "c\<lparr>oe_seq := oe_seq c + 1\<rparr>" e1]
    by (simp only: length_Cons upt_step list.map append_Cons process.simps s case_prod_beta prod.sel) simp
qed simp

text \<open>
  A restart by the watchdog reuses ClOrdIDs: the rebuilt client keeps the process's prefix
  but counts from 1 again, so it draws the ClOrdIDs of the client it replaces; and a venue
  that has an order under such an identifier refuses the new one as a duplicate.
\<close>

theorem rebuilt_client_repeats:
  assumes "\<And>m s e. fst (SendToTarget m s e) = None" "dec_reads L"
    and "kindOf peer a \<noteq> KindDropCopy"
  shows "fst (process L SendToTarget creds p wd sid ord (map SendAt ts @ Rebuild # map SendAt us)
            (build_client creds p wd) e) =
      map (\<lambda>n. Inr (clordid p n)) [1 ..< 1 + length ts] @ map (\<lambda>n. Inr (clordid p n)) [1 ..< 1 + length us] \<and>
    (Get (clordid p n) (app_book a) \<noteq> None \<longrightarrow>
       fst (FromApp L (new_order_message L now (clordid p n) ord) peer a) =
         Some (BusinessReject (OrderRefused (DuplicateClOrdID (clordid p n))) 5))"
proof
  show "fst (process L SendToTarget creds p wd sid ord (map SendAt ts @ Rebuild # map SendAt us)
            (build_client creds p wd) e) =
      map (\<lambda>n. Inr (clordid p n)) [1 ..< 1 + length ts] @ map (\<lambda>n. Inr (clordid p n)) [1 ..< 1 + length us]"
    using process_sends [where SendToTarget = SendToTarget and steps = "[]" and ts = us, OF assms(1)]
    by (simp add: process_sends [where SendToTarget = SendToTarget and ts = ts, OF assms(1)])
  let ?m = "new_order_message L now (clordid p n) ord"
  have "msg_header ?m tagMsgType = Some ''D''" by (simp add: new_order_message_def Let_def)
  from FromApp_order [OF this assms(3), of L] NewOrder_duplicate [of L ?m _ "noteReceived L ?m peer a" peer]
  show "Get (clordid p n) (app_book a) \<noteq> None \<longrightarrow>
       fst (FromApp L ?m peer a) = Some (BusinessReject (OrderRefused (DuplicateClOrdID (clordid p n))) 5)"
    using build_order_message [OF assms(2), of now "clordid p n" ord] by (simp add: note_frame)
qed

theorem rebuilt_client_repeats_witness:
  "fst (FromApp demo_lib (new_order_message demo_lib 0 (clordid ''x'' (Suc 0)) demo_new_order) demo_oe
     (snd (FromApp demo_lib (new_order_message demo_lib 0 (clordid ''x'' (Suc 0)) demo_new_order) demo_oe demo_start)))
   = Some (BusinessReject (OrderRefused (DuplicateClOrdID (clordid ''x'' (Suc 0)))) 5)"
proof -
  let ?m = "new_order_message demo_lib 0 (clordid ''x'' (Suc 0)) demo_new_order"
  let ?a = "snd (FromApp demo_lib ?m demo_oe demo_start)"
  have start: "kindOf demo_oe demo_start \<noteq> KindDropCopy" "Get (clordid ''x'' (Suc 0)) (app_book demo_start) = None"
    "book_inv (app_book demo_start)"
    using venue_inv_book [OF reachable_inv [OF demo_start_reachable]] by (simp_all add: demo_eval)
  have "msg_header ?m tagMsgType = Some ''D''" by (simp add: new_order_message_def Let_def)
  note app = FromApp_order [OF this start(1), of demo_lib]
  have "Get (clordid ''x'' (Suc 0)) (app_book ?a) \<noteq> None"
    using NewOrder_found [OF build_order_message [OF demo_dec_reads],
        where a = "noteReceived demo_lib ?m demo_oe demo_start" and sid = demo_oe] start(2)
    by (simp add: app note_frame)
  moreover have "kindOf demo_oe ?a = kindOf demo_oe demo_start"
    by (simp add: app onNewOrderSingle_eq kindOf_def note_frame split: sum.split prod.split option.split)
  moreover have "kindOf demo_oe ?a \<noteq> KindDropCopy" using calculation start(1) by simp
  ultimately show ?thesis
    using rebuilt_client_repeats [where SendToTarget = "\<lambda>m s e. (None, e)" and ord = demo_new_order and p = "''x''" and n = "Suc 0"
        and now = 0 and ts = "[]" and us = "[]" and creds = demo_creds and wd = False
        and sid = demo_client and e = "()" and a = ?a and peer = demo_oe,
        OF _ demo_dec_reads]
    by simp
qed

end
