(* ===== verification/CommandProps.thy ===== *)
theory CommandProps
  imports VenueProps "HOL-Library.Multiset"
begin

text \<open>
  What the venue's commands do on every branch (\<open>Cancel\<close>, \<open>Reject\<close> and \<open>Sessions\<close> of
  \<open>internal/exchange/commands.go\<close>), and that a refused command leaves orders and messages as
  they were.
\<close>

subsection \<open>Refused commands\<close>

lemma Fill_refused:
  assumes "book_inv (app_book a)" "fst (Fill L i p a) \<noteq> None"
  shows "Orders (snd (Fill L i p a)) = Orders a \<and> app_outbox (snd (Fill L i p a)) = app_outbox a"
  using assms Partial_refused [OF assms(1)] by (auto simp: Fill_def split: option.splits)

lemma Update_kept:
  assumes "book_inv (app_book a)" "\<And>ord. fst (fn ord) \<noteq> None \<Longrightarrow> snd (fn ord) = ord"
    "Update i fn (app_book a) = (Inl err, b)"
  shows "All_orders b = Orders a"
proof (cases "Get i (app_book a)")
  case None
  then show ?thesis using assms(3) by (simp add: Update_None Orders_def)
next
  case (Some ord)
  then have "fst (fn ord) \<noteq> None"
    using assms(3) by (auto simp: Update_def Get_def split: option.splits prod.splits)
  then show ?thesis using Update_refused [where fn = fn, OF assms(1) Some assms(2)] assms(3) by simp
qed

lemma Cancel_refused:
  assumes "book_inv (app_book a)" "fst (Cancel L i t a) \<noteq> None"
  shows "Orders (snd (Cancel L i t a)) = Orders a \<and> app_outbox (snd (Cancel L i t a)) = app_outbox a"
proof -
  obtain err b where upd: "Update i (apply_cancel i) (app_book a) = (Inl err, b)"
    using assms(2) by (simp add: Cancel_def split: prod.splits sum.splits)
  have "All_orders b = Orders a"
    by (rule Update_kept [OF assms(1) _ upd]) (simp add: apply_cancel_def split: if_splits)
  then show ?thesis by (simp add: Cancel_def upd Orders_def)
qed

lemma Reject_refused:
  assumes "book_inv (app_book a)" "fst (Reject L i t a) \<noteq> None"
  shows "Orders (snd (Reject L i t a)) = Orders a \<and> app_outbox (snd (Reject L i t a)) = app_outbox a"
proof -
  obtain err b where upd: "Update i (apply_reject i) (app_book a) = (Inl err, b)"
    using assms(2) by (simp add: Reject_def split: prod.splits sum.splits)
  have "All_orders b = Orders a"
    by (rule Update_kept [OF assms(1) _ upd]) (simp add: apply_reject_def split: if_splits)
  then show ?thesis by (simp add: Reject_def upd Orders_def)
qed

subsection \<open>Commands that update an order and publish\<close>

text \<open>The common shape of \<open>Cancel\<close> and \<open>Reject\<close>, for any callback and any report.\<close>

definition update_publish ::
  "lib \<Rightarrow> string \<Rightarrow> order_update \<Rightarrow> (OrderState \<Rightarrow> report) \<Rightarrow> App \<Rightarrow> venue_error option \<times> App" where
  "update_publish L i fn rep a =
     (case Update i fn (app_book a) of
        (Inl err, b) \<Rightarrow> (Some err, a\<lparr>app_book := b\<rparr>)
      | (Inr updated, b) \<Rightarrow> (None, publish L (rep updated) (a\<lparr>app_book := b\<rparr>)))"

lemma Cancel_shape:
  "Cancel L i t = update_publish L i (apply_cancel i) (\<lambda>ord. (mk_report ord ExecTypeCanceled)\<lparr>rp_text := t\<rparr>)"
  by (rule ext) (simp add: Cancel_def update_publish_def)

lemma Reject_shape:
  "Reject L i t = update_publish L i (apply_reject i) (\<lambda>ord. (mk_report ord ExecTypeRejected)\<lparr>rp_text := t\<rparr>)"
  by (rule ext) (simp add: Reject_def update_publish_def)

lemma update_publish_error:
  "fst (update_publish L i fn rep a) =
     (case Get i (app_book a) of None \<Rightarrow> Some (UnknownClOrdID i) | Some ord \<Rightarrow> fst (fn ord))"
  using Update_fst [of i fn "app_book a"]
  by (auto simp: update_publish_def split: prod.splits sum.splits option.splits)

lemma update_publish_done:
  assumes "venue_inv a" "Get i (app_book a) = Some ord" "fn ord = (None, ord')"
  shows "Orders (snd (update_publish L i fn rep a)) = log_set i ord' (Orders a)"
    "has_role peer a \<Longrightarrow>
       messages_to peer (snd (update_publish L i fn rep a)) = messages_to peer a @ reported L (rep ord') a"
proof -
  obtain b where b: "Update i fn (app_book a) = (Inr ord', b)"
    using assms(2,3) by (auto simp: Update_def Get_def split: option.splits)
  have eq: "snd (update_publish L i fn rep a) = publish L (rep ord') (a\<lparr>app_book := b\<rparr>)"
    by (simp add: update_publish_def b)
  have "All_orders b = log_set i ord' (Orders a)"
    using book.update_Some(2) [OF venue_inv_book [OF assms(1)] assms(2), of fn] b assms(3) by (simp add: Orders_def)
  then show "Orders (snd (update_publish L i fn rep a)) = log_set i ord' (Orders a)"
    by (simp add: eq Orders_def)
  have "bk_execSeq b = bk_execSeq (app_book a)"
    using execSeq_frame(2) [of i fn "app_book a"] by (simp add: b)
  then show "messages_to peer (snd (update_publish L i fn rep a)) = messages_to peer a @ reported L (rep ord') a"
    if "has_role peer a"
    unfolding eq by (rule messages_to_reported [OF assms(1) that])
qed

subsection \<open>Properties\<close>

text \<open>
  C25. Cancelling and rejecting at the venue's initiative, on every branch: an identifier the
  book does not have and an order that is closed are the two errors, and with an error no
  order changes and nothing is sent; otherwise the order, and it alone, takes the terminal
  status with its quantities as they were, and a session that is alone in its role is sent one
  report of it, with the text given and the next ExecID, or nothing while the venue is silenced.
\<close>

theorem cancel_reject_result:
  assumes "reachable L a" "has_role peer a"
    "(C, status, exec, refusal) \<in> {(Cancel, StatusCanceled, ExecTypeCanceled, CannotCancel),
                                  (Reject, StatusRejected, ExecTypeRejected, CannotReject)}"
  shows "fst (C L i t a) =
      (case Get i (app_book a) of
         None \<Rightarrow> Some (UnknownClOrdID i)
       | Some ord \<Rightarrow> if IsOpen ord then None else Some (refusal i (os_Status ord))) \<and>
    (fst (C L i t a) \<noteq> None \<longrightarrow> Orders (snd (C L i t a)) = Orders a \<and> app_outbox (snd (C L i t a)) = app_outbox a) \<and>
    (\<forall>ord. Get i (app_book a) = Some ord \<longrightarrow> fst (C L i t a) = None \<longrightarrow>
       Orders (snd (C L i t a)) = log_set i (ord\<lparr>os_Status := status\<rparr>) (Orders a) \<and>
       messages_to peer (snd (C L i t a)) =
         messages_to peer a @ reported L ((mk_report (ord\<lparr>os_Status := status\<rparr>) exec)\<lparr>rp_text := t\<rparr>) a)"
proof -
  have vinv: "venue_inv a" using assms(1) by (rule reachable_inv)
  obtain fn where fn: "C L i t = update_publish L i fn (\<lambda>ord. (mk_report ord exec)\<lparr>rp_text := t\<rparr>)"
    "\<And>ord. fn ord = (if IsOpen ord then (None, ord\<lparr>os_Status := status\<rparr>) else (Some (refusal i (os_Status ord)), ord))"
    using assms(3) by (auto simp: Cancel_shape Reject_shape apply_cancel_def apply_reject_def)
  have answer: "fst (C L i t a) =
      (case Get i (app_book a) of
         None \<Rightarrow> Some (UnknownClOrdID i)
       | Some ord \<Rightarrow> if IsOpen ord then None else Some (refusal i (os_Status ord)))"
    unfolding fn(1) update_publish_error by (auto simp: fn(2) split: option.split)
  moreover have "fst (C L i t a) \<noteq> None \<longrightarrow>
      Orders (snd (C L i t a)) = Orders a \<and> app_outbox (snd (C L i t a)) = app_outbox a"
    using assms(3) Cancel_refused [OF venue_inv_book [OF vinv]] Reject_refused [OF venue_inv_book [OF vinv]] by auto
  moreover have "Orders (snd (C L i t a)) = log_set i (ord\<lparr>os_Status := status\<rparr>) (Orders a) \<and>
       messages_to peer (snd (C L i t a)) =
         messages_to peer a @ reported L ((mk_report (ord\<lparr>os_Status := status\<rparr>) exec)\<lparr>rp_text := t\<rparr>) a"
    if ord: "Get i (app_book a) = Some ord" "fst (C L i t a) = None" for ord
  proof -
    have "fn ord = (None, ord\<lparr>os_Status := status\<rparr>)"
      using answer ord fn(2) by (auto split: if_splits)
    from update_publish_done [where fn = fn, OF vinv ord(1) this] assms(2)
    show ?thesis unfolding fn(1) by (simp add: mk_report_def)
  qed
  ultimately show ?thesis by blast
qed

theorem cancel_reject_result_witness:
  "fst (Reject demo_lib ''C1'' ''x'' (run_events demo_lib
     [EvFromApp (demo_order ''C1'' ''0'') demo_oe, EvCancel ''C1'' ''x''] demo_start))
   = Some (CannotReject ''C1'' StatusCanceled)"
proof -
  let ?a = "run_events demo_lib [EvFromApp (demo_order ''C1'' ''0'') demo_oe, EvCancel ''C1'' ''x''] demo_start"
  have a: "reachable demo_lib ?a" by (rule demo_reachable) simp
  have "app_kinds ?a = app_kinds demo_start" by (simp add: demo_eval Cancel_def apply_cancel_def)
  then have role: "has_role demo_oe ?a" unfolding has_role_def by (rule disjI1 [OF demo_roles(1)])
  have "\<exists>ord. Get ''C1'' (app_book ?a) = Some ord \<and> os_Status ord = StatusCanceled"
    by (simp add: demo_eval Cancel_def apply_cancel_def)
  then obtain ord where ord: "Get ''C1'' (app_book ?a) = Some ord" "os_Status ord = StatusCanceled"
    by blast
  then have "\<not> IsOpen ord" by (simp add: IsOpen_def venue_consts)
  with ord show ?thesis
    using cancel_reject_result [OF a role, of Reject StatusRejected ExecTypeRejected CannotReject "''C1''" "''x''"]
    by simp
qed

text \<open>
  The report of the sessions: one entry for each configured session and no other, in the
  order of their names, and the entry of a session follows it: up after a logon, down after a
  logout. (Names are the texts of the session identities; they must tell the configured
  sessions apart.)
\<close>

theorem sessions_report:
  assumes "reachable L a" "inj_on (lib_idString L) (fst ` set (app_kinds a))"
  shows "mset (Sessions L a) = mset (map (session_status L a) (app_kinds a)) \<and>
    sorted (map st_SessionID (Sessions L a)) \<and> distinct (map st_SessionID (Sessions L a)) \<and>
    (\<forall>sid kind. (sid, kind) \<in> set (app_kinds a) \<longrightarrow>
       (\<exists>st \<in> set (Sessions L (OnLogon sid a)). st_SessionID st = lib_idString L sid \<and> st_LoggedOn st) \<and>
       (\<exists>st \<in> set (Sessions L (OnLogout sid a)). st_SessionID st = lib_idString L sid \<and> \<not> st_LoggedOn st))"
proof -
  have kinds: "distinct (map fst (app_kinds a))"
    using reachable_inv [OF assms(1)] by (simp add: venue_inv_def sent_ok_def)
  have ids: "map st_SessionID (map (session_status L a) (app_kinds a)) = map (lib_idString L) (map fst (app_kinds a))"
    by (simp add: session_status_def case_prod_beta comp_def)
  have "distinct (map (lib_idString L) (map fst (app_kinds a)))"
    using kinds assms(2) by (subst distinct_map) simp
  then have "distinct (map st_SessionID (map (session_status L a) (app_kinds a)))"
    unfolding ids .
  moreover have "mset (map st_SessionID (Sessions L a)) = mset (map st_SessionID (map (session_status L a) (app_kinds a)))"
    by (simp only: Sessions_def mset_map mset_sort)
  ultimately have "distinct (map st_SessionID (Sessions L a))"
    using mset_eq_imp_distinct_iff by blast
  then show ?thesis
    by (force simp: Sessions_def session_status_def OnLogon_def frame OnLogout_def onSessionLost_def Let_def
        split: option.split)
qed

theorem sessions_report_witness:
  "\<exists>st \<in> set (Sessions demo_lib (OnLogon demo_oe demo_start)).
     st_SessionID st = lib_idString demo_lib demo_oe \<and> st_LoggedOn st"
proof -
  have "inj_on (lib_idString demo_lib) (fst ` set (app_kinds demo_start))" "(demo_oe, KindOrderEntry) \<in> set (app_kinds demo_start)"
    by (simp_all add: demo_start_def demo_lib_def demo_oe_def demo_dc_def)
  with sessions_report [OF demo_start_reachable this(1)] show ?thesis by blast
qed

end
