(* ===== verification/Admin.thy ===== *)
theory Admin
  imports CommandProps
begin

text \<open>
  The venue's control plane (\<open>internal/admin/admin.go\<close>). A request is its query parameters: a
  function from names to values, empty for a missing one, as \<open>url.Values.Get\<close> answers. A handler
  answers a status code and a body and leaves a new state of the application; the handler of
  the sequence gap also acts on the engine. JSON and the HTTP server are not modelled.
\<close>

datatype admin_error =
    ParameterRequired string
  | NotAnInteger string
  | NotANumber string
  | VenueError venue_error

datatype admin_body =
    BodySessions "SessionStatus list"
  | BodyOrders "OrderState list"
  | BodyFilled string
  | BodyPartial string
  | BodyCancelled string
  | BodyRejected string
  | BodySilenced bool
  | BodyGap Kind int
  | BodyRejectLogon string
  | BodyCancelledAll nat
  | BodyError admin_error

type_synonym query = "string \<Rightarrow> string"
type_synonym response = "nat \<times> admin_body"

definition StatusOK :: nat where "StatusOK = 200"
definition StatusBadRequest :: nat where "StatusBadRequest = 400"
definition StatusConflict :: nat where "StatusConflict = 409"

lemmas status_defs = StatusOK_def StatusBadRequest_def StatusConflict_def

definition writeErr :: "nat \<Rightarrow> admin_error \<Rightarrow> response" where
  "writeErr code err = (code, BodyError err)"

definition requireStr :: "query \<Rightarrow> string \<Rightarrow> admin_error + string" where
  "requireStr q key = (let v = q key in if v = [] then Inl (ParameterRequired key) else Inr v)"

definition requireInt :: "query \<Rightarrow> string \<Rightarrow> admin_error + int" where
  "requireInt q key =
     (case requireStr q key of
        Inl err \<Rightarrow> Inl err
      | Inr raw \<Rightarrow> (case Atoi raw of None \<Rightarrow> Inl (NotAnInteger key) | Some n \<Rightarrow> Inr n))"

definition requireDec :: "lib \<Rightarrow> query \<Rightarrow> string \<Rightarrow> admin_error + rat" where
  "requireDec L q key =
     (case requireStr q key of
        Inl err \<Rightarrow> Inl err
      | Inr raw \<Rightarrow> (case lib_parseDec L raw of None \<Rightarrow> Inl (NotANumber key) | Some d \<Rightarrow> Inr d))"

subsection \<open>The handlers\<close>

definition admin_sessions :: "lib \<Rightarrow> query \<Rightarrow> App \<Rightarrow> response \<times> App" where
  "admin_sessions L q a = ((StatusOK, BodySessions (Sessions L a)), a)"

definition admin_orders :: "query \<Rightarrow> App \<Rightarrow> response \<times> App" where
  "admin_orders q a = ((StatusOK, BodyOrders (Orders a)), a)"

definition admin_fill :: "lib \<Rightarrow> query \<Rightarrow> App \<Rightarrow> response \<times> App" where
  "admin_fill L q a =
     (case requireStr q ''clordid'' of Inl err \<Rightarrow> (writeErr StatusBadRequest err, a) | Inr clOrdID \<Rightarrow>
      case requireDec L q ''px'' of Inl err \<Rightarrow> (writeErr StatusBadRequest err, a) | Inr px \<Rightarrow>
      case Fill L clOrdID px a of
        (Some err, a1) \<Rightarrow> (writeErr StatusConflict (VenueError err), a1)
      | (None, a1) \<Rightarrow> ((StatusOK, BodyFilled clOrdID), a1))"

definition admin_partial :: "lib \<Rightarrow> query \<Rightarrow> App \<Rightarrow> response \<times> App" where
  "admin_partial L q a =
     (case requireStr q ''clordid'' of Inl err \<Rightarrow> (writeErr StatusBadRequest err, a) | Inr clOrdID \<Rightarrow>
      case requireDec L q ''qty'' of Inl err \<Rightarrow> (writeErr StatusBadRequest err, a) | Inr qty \<Rightarrow>
      case requireDec L q ''px'' of Inl err \<Rightarrow> (writeErr StatusBadRequest err, a) | Inr px \<Rightarrow>
      case Partial L clOrdID qty px a of
        (Some err, a1) \<Rightarrow> (writeErr StatusConflict (VenueError err), a1)
      | (None, a1) \<Rightarrow> ((StatusOK, BodyPartial clOrdID), a1))"

definition or_default :: "string \<Rightarrow> string \<Rightarrow> string" where
  "or_default v d = (if v = [] then d else v)"

definition admin_cancel :: "lib \<Rightarrow> query \<Rightarrow> App \<Rightarrow> response \<times> App" where
  "admin_cancel L q a =
     (case requireStr q ''clordid'' of Inl err \<Rightarrow> (writeErr StatusBadRequest err, a) | Inr clOrdID \<Rightarrow>
      case Cancel L clOrdID (or_default (q ''reason'') ''cancelled by venue'') a of
        (Some err, a1) \<Rightarrow> (writeErr StatusConflict (VenueError err), a1)
      | (None, a1) \<Rightarrow> ((StatusOK, BodyCancelled clOrdID), a1))"

definition admin_reject :: "lib \<Rightarrow> query \<Rightarrow> App \<Rightarrow> response \<times> App" where
  "admin_reject L q a =
     (case requireStr q ''clordid'' of Inl err \<Rightarrow> (writeErr StatusBadRequest err, a) | Inr clOrdID \<Rightarrow>
      case Reject L clOrdID (or_default (q ''reason'') ''rejected by venue'') a of
        (Some err, a1) \<Rightarrow> (writeErr StatusConflict (VenueError err), a1)
      | (None, a1) \<Rightarrow> ((StatusOK, BodyRejected clOrdID), a1))"

definition admin_silence :: "query \<Rightarrow> App \<Rightarrow> response \<times> App" where
  "admin_silence q a =
     (let on = (q ''on'' \<noteq> ''false'') in ((StatusOK, BodySilenced on), SetSilenced on a))"

definition admin_gap ::
  "nat \<Rightarrow> ('e \<Rightarrow> SessionID \<Rightarrow> string + int) \<Rightarrow> ('e \<Rightarrow> SessionID \<Rightarrow> int \<Rightarrow> string + 'e)
     \<Rightarrow> query \<Rightarrow> App \<Rightarrow> 'e \<Rightarrow> response \<times> 'e" where
  "admin_gap n0 get_num set_num q a e =
     (case requireInt q ''n'' of Inl err \<Rightarrow> (writeErr StatusBadRequest err, e) | Inr n \<Rightarrow>
      let kind = or_default (q ''kind'') KindOrderEntry
      in case AdvanceSeqNum n0 get_num set_num kind n a e of
           (Inl err, e1) \<Rightarrow> (writeErr StatusConflict (VenueError err), e1)
         | (Inr nxt, e1) \<Rightarrow> ((StatusOK, BodyGap kind nxt), e1))"

definition admin_rejectLogon :: "query \<Rightarrow> App \<Rightarrow> response \<times> App" where
  "admin_rejectLogon q a =
     (let reason0 = q ''reason'';
          reason = (if q ''on'' = ''false'' then []
                    else if reason0 = [] then ''invalid credentials'' else reason0)
      in ((StatusOK, BodyRejectLogon reason), SetRejectLogons reason a))"

definition admin_cancelAll :: "lib \<Rightarrow> query \<Rightarrow> App \<Rightarrow> response \<times> App" where
  "admin_cancelAll L q a =
     (case CancelAllOpenDay L (or_default (q ''reason'') ''mass cancel by venue'') a of
        (n, a1) \<Rightarrow> ((StatusOK, BodyCancelledAll n), a1))"

text \<open>
  The routes; \<open>n0\<close> is where the loop over the map of roles begins, if the request runs it.
  \<open>None\<close> is a request that no pattern matches, answered by the server's mux.\<close>

definition Handler ::
  "lib \<Rightarrow> nat \<Rightarrow> ('e \<Rightarrow> SessionID \<Rightarrow> string + int) \<Rightarrow> ('e \<Rightarrow> SessionID \<Rightarrow> int \<Rightarrow> string + 'e)
     \<Rightarrow> string \<Rightarrow> query \<Rightarrow> App \<Rightarrow> 'e \<Rightarrow> (response \<times> App \<times> 'e) option" where
  "Handler L n0 get_num set_num pattern q a e =
     (let on_app = (\<lambda>(r, a1). Some (r, a1, e))
      in if pattern = ''GET /admin/sessions'' then on_app (admin_sessions L q a)
         else if pattern = ''GET /admin/orders'' then on_app (admin_orders q a)
         else if pattern = ''POST /admin/fill'' then on_app (admin_fill L q a)
         else if pattern = ''POST /admin/partial'' then on_app (admin_partial L q a)
         else if pattern = ''POST /admin/cancel'' then on_app (admin_cancel L q a)
         else if pattern = ''POST /admin/reject'' then on_app (admin_reject L q a)
         else if pattern = ''POST /admin/silence'' then on_app (admin_silence q a)
         else if pattern = ''POST /admin/gap''
         then (case admin_gap n0 get_num set_num q a e of (r, e1) \<Rightarrow> Some (r, a, e1))
         else if pattern = ''POST /admin/reject-logon'' then on_app (admin_rejectLogon q a)
         else if pattern = ''POST /admin/cancel-all'' then on_app (admin_cancelAll L q a)
         else None)"

text \<open>The event of the venue's state machine that a request stands for, if it is well formed.\<close>

definition admin_event :: "lib \<Rightarrow> string \<Rightarrow> query \<Rightarrow> event option" where
  "admin_event L pattern q =
     (if pattern = ''POST /admin/fill'' then
        (case (requireStr q ''clordid'', requireDec L q ''px'') of (Inr i, Inr p) \<Rightarrow> Some (EvFill i p) | _ \<Rightarrow> None)
      else if pattern = ''POST /admin/partial'' then
        (case (requireStr q ''clordid'', requireDec L q ''qty'', requireDec L q ''px'') of
           (Inr i, Inr n, Inr p) \<Rightarrow> Some (EvPartial i n p) | _ \<Rightarrow> None)
      else if pattern = ''POST /admin/cancel'' then
        (case requireStr q ''clordid'' of
           Inr i \<Rightarrow> Some (EvCancel i (or_default (q ''reason'') ''cancelled by venue'')) | _ \<Rightarrow> None)
      else if pattern = ''POST /admin/reject'' then
        (case requireStr q ''clordid'' of
           Inr i \<Rightarrow> Some (EvReject i (or_default (q ''reason'') ''rejected by venue'')) | _ \<Rightarrow> None)
      else if pattern = ''POST /admin/silence'' then Some (EvSilence (q ''on'' \<noteq> ''false''))
      else if pattern = ''POST /admin/reject-logon'' then
        Some (EvRejectLogons (if q ''on'' = ''false'' then [] else or_default (q ''reason'') ''invalid credentials''))
      else if pattern = ''POST /admin/cancel-all'' then
        Some (EvCancelAll (or_default (q ''reason'') ''mass cancel by venue''))
      else None)"

lemmas handler_defs =
  admin_sessions_def admin_orders_def admin_fill_def admin_partial_def admin_cancel_def
  admin_reject_def admin_silence_def admin_gap_def admin_rejectLogon_def admin_cancelAll_def

lemma handler_effects:
  "admin_fill L q a = (r, a') \<Longrightarrow> a' = (case (requireStr q ''clordid'', requireDec L q ''px'') of
     (Inr i, Inr p) \<Rightarrow> handle L (EvFill i p) a | _ \<Rightarrow> a)"
  "admin_partial L q a = (r, a') \<Longrightarrow> a' = (case (requireStr q ''clordid'', requireDec L q ''qty'', requireDec L q ''px'') of
     (Inr i, Inr n, Inr p) \<Rightarrow> handle L (EvPartial i n p) a | _ \<Rightarrow> a)"
  "admin_cancel L q a = (r, a') \<Longrightarrow> a' = (case requireStr q ''clordid'' of
     Inr i \<Rightarrow> handle L (EvCancel i (or_default (q ''reason'') ''cancelled by venue'')) a | _ \<Rightarrow> a)"
  "admin_reject L q a = (r, a') \<Longrightarrow> a' = (case requireStr q ''clordid'' of
     Inr i \<Rightarrow> handle L (EvReject i (or_default (q ''reason'') ''rejected by venue'')) a | _ \<Rightarrow> a)"
  "admin_silence q a = (r, a') \<Longrightarrow> a' = handle L (EvSilence (q ''on'' \<noteq> ''false'')) a"
  "admin_rejectLogon q a = (r, a') \<Longrightarrow> a' = handle L (EvRejectLogons
     (if q ''on'' = ''false'' then [] else or_default (q ''reason'') ''invalid credentials'')) a"
  "admin_cancelAll L q a = (r, a') \<Longrightarrow> a' = handle L (EvCancelAll (or_default (q ''reason'') ''mass cancel by venue'')) a"
  "admin_sessions L q a = (r, a') \<Longrightarrow> a' = a" "admin_orders q a = (r, a') \<Longrightarrow> a' = a"
  by (auto simp: admin_fill_def split: sum.splits prod.splits option.splits)
     (auto simp: admin_partial_def split: sum.splits prod.splits option.splits,
      auto simp: admin_cancel_def admin_reject_def split: sum.splits prod.splits option.splits,
      auto simp: admin_silence_def admin_rejectLogon_def admin_cancelAll_def admin_sessions_def
        admin_orders_def or_default_def Let_def split: prod.splits)

lemma admin_effect:
  assumes "Handler L n0 get_num set_num pattern q a e = Some (resp, a', e')"
  shows "a' = (case admin_event L pattern q of None \<Rightarrow> a | Some ev \<Rightarrow> handle L ev a)"
  using assms unfolding Handler_def Let_def admin_event_def
  by (auto simp del: handle.simps split: if_splits prod.splits dest!: handler_effects)
     (simp_all del: handle.simps split: sum.split)

lemma admin_event_enabled: "admin_event L pattern q = Some ev \<Longrightarrow> enabled ev a"
  by (auto simp: admin_event_def split: if_splits sum.splits prod.splits)


subsection \<open>Properties\<close>

text \<open>
  C33. A request to the control plane is at most one event of the venue's state machine: a
  request that no route matches is no event, a read or a request with a missing or unreadable
  parameter leaves the application as it was, and every other one leaves it as the handler of
  its event does. So a venue driven over HTTP only ever reaches reachable states.
\<close>

theorem admin_is_event:
  assumes "Handler L n0 get_num set_num pattern q a e = Some (resp, a', e')"
  shows "(\<exists>es. venue_run L a es a' \<and> es = (case admin_event L pattern q of None \<Rightarrow> [] | Some ev \<Rightarrow> [ev])) \<and>
    (reachable L a \<longrightarrow> reachable L a')"
proof -
  have "venue_run L a (case admin_event L pattern q of None \<Rightarrow> [] | Some ev \<Rightarrow> [ev]) a'"
    using admin_effect [OF assms] admin_event_enabled by (auto split: option.split)
  then show ?thesis using reachable_run by blast
qed

theorem admin_is_event_witness:
  "reachable demo_lib (snd (admin_cancelAll demo_lib (\<lambda>_. []) demo_start))"
proof -
  have "Handler demo_lib 0 (\<lambda>e sid. Inr (0::int)) (\<lambda>e sid n. Inr e) ''POST /admin/cancel-all'' (\<lambda>_. [])
     demo_start () = Some (fst (admin_cancelAll demo_lib (\<lambda>_. []) demo_start),
       snd (admin_cancelAll demo_lib (\<lambda>_. []) demo_start), ())"
    by (simp add: Handler_def case_prod_beta)
  from admin_is_event [OF this] show ?thesis
    using demo_start_reachable by simp
qed

text \<open>An error answer: its shape, and a command that refused and left orders and outbox alone.\<close>

definition bad_parameter :: "admin_body \<Rightarrow> bool" where
  "bad_parameter body \<longleftrightarrow>
     (\<exists>key. body \<in> {BodyError (ParameterRequired key), BodyError (NotAnInteger key), BodyError (NotANumber key)})"

definition quiet :: "App \<Rightarrow> response \<times> App \<Rightarrow> bool" where
  "quiet a = (\<lambda>((code, body), a').
     code = StatusOK \<or>
     code = StatusBadRequest \<and> bad_parameter body \<and> a' = a \<or>
     code = StatusConflict \<and> (\<exists>err. body = BodyError (VenueError err)) \<and>
       Orders a' = Orders a \<and> app_outbox a' = app_outbox a)"

lemma requireStr_error: "requireStr q key = Inl err \<Longrightarrow> bad_parameter (BodyError err)"
  by (auto simp: requireStr_def bad_parameter_def Let_def split: if_splits)

lemma requireInt_error: "requireInt q key = Inl err \<Longrightarrow> bad_parameter (BodyError err)"
  by (auto simp: requireInt_def bad_parameter_def dest: requireStr_error split: sum.splits option.splits)

lemma requireDec_error: "requireDec L q key = Inl err \<Longrightarrow> bad_parameter (BodyError err)"
  by (auto simp: requireDec_def bad_parameter_def dest: requireStr_error split: sum.splits option.splits)

lemma quiet_command:
  assumes "fst r \<noteq> None \<Longrightarrow> Orders (snd r) = Orders a \<and> app_outbox (snd r) = app_outbox a"
  shows "quiet a (case r of (Some err, a1) \<Rightarrow> (writeErr StatusConflict (VenueError err), a1)
                          | (None, a1) \<Rightarrow> ((StatusOK, body), a1))"
  using assms by (auto simp: quiet_def writeErr_def split: prod.split option.split)

lemma quiet_bad: "bad_parameter (BodyError err) \<Longrightarrow> quiet a (writeErr StatusBadRequest err, a)"
  by (simp add: quiet_def writeErr_def)

lemma quiet_ok: "quiet a ((StatusOK, body), a')"
  by (simp add: quiet_def)

lemmas quiet_intros = quiet_command quiet_bad quiet_ok

lemma quiet_handlers:
  assumes "book_inv (app_book a)"
  shows "quiet a (admin_fill L q a)" "quiet a (admin_partial L q a)" "quiet a (admin_cancel L q a)"
    "quiet a (admin_reject L q a)" "quiet a (admin_sessions L q a)" "quiet a (admin_orders q a)"
    "quiet a (admin_silence q a)" "quiet a (admin_rejectLogon q a)" "quiet a (admin_cancelAll L q a)"
  unfolding handler_defs Let_def
  by (auto intro!: quiet_intros Fill_refused [OF assms] Partial_refused [OF assms] Cancel_refused [OF assms]
      Reject_refused [OF assms] dest: requireStr_error requireDec_error split: sum.split)
     (simp add: case_prod_beta quiet_ok)

text \<open>
  C34. An error answered over HTTP changed nothing: the status is then 400, for a parameter that
  is missing or cannot be read, or 409, for a command the venue or its engine refused, the
  answer carries the error, and every order and every message sent is as before the request.
\<close>

theorem admin_error_changes_nothing:
  assumes "reachable L a"
    "Handler L n0 get_num set_num pattern q a e = Some ((code, body), a', e')" "code \<noteq> StatusOK"
  shows "(code = StatusBadRequest \<and> bad_parameter body \<and> a' = a \<and> e' = e \<or>
          code = StatusConflict \<and> (\<exists>err. body = BodyError (VenueError err))) \<and>
         Orders a' = Orders a \<and> app_outbox a' = app_outbox a"
proof (cases "pattern = ''POST /admin/gap''")
  case True
  then show ?thesis
    using assms(2,3)
    by (auto simp: Handler_def admin_gap_def writeErr_def Let_def dest!: requireInt_error
        split: sum.splits prod.splits)
next
  case False
  note q = quiet_handlers [OF venue_inv_book [OF reachable_inv [OF assms(1)]]]
  have "quiet a ((code, body), a') \<and> e' = e"
    using assms(2) False unfolding Handler_def Let_def
    by (auto split: if_splits prod.splits) (metis q)+
  then show ?thesis using assms(3) by (auto simp: quiet_def)
qed

theorem admin_error_changes_nothing_witness:
  "\<exists>resp a'. Handler demo_lib 0 (\<lambda>e sid. Inr (0::int)) (\<lambda>e sid n. Inr e) ''POST /admin/fill''
     (\<lambda>k. if k = ''clordid'' then ''C1'' else []) demo_start () = Some (resp, a', ()) \<and> Orders a' = Orders demo_start"
proof -
  let ?q = "\<lambda>k. if k = ''clordid'' then ''C1'' else []"
  have "Handler demo_lib 0 (\<lambda>e sid. Inr (0::int)) (\<lambda>e sid n. Inr e) ''POST /admin/fill'' ?q demo_start ()
     = Some ((StatusBadRequest, BodyError (ParameterRequired ''px'')), demo_start, ())"
    by (simp add: Handler_def admin_fill_def requireStr_def requireDec_def writeErr_def)
  then show ?thesis
    using admin_error_changes_nothing [OF demo_start_reachable] by (fastforce simp: status_defs)
qed

end
