(* ===== verification/Settings.thy ===== *)
theory Settings
  imports FixMsg
begin

text \<open>
  The settings helpers (\<open>internal/session/settings.go\<close>). A parsed settings file is a value of a
  type \<open>'cfg\<close> of the engine; its \<open>SessionSettings()\<close> (the sessions in the order the range loop
  visits them, each with its keys) and the setter of \<open>GlobalSettings()\<close> are parameters, with the
  behaviour the source quotes from the engine as the hypothesis \<open>overlay_laws\<close>: the settings of
  a session are a copy of the global ones, overlaid by its own block.
\<close>

record 'cfg settings_api =
  sa_SessionSettings :: "'cfg \<Rightarrow> (SessionID \<times> (string \<rightharpoonup> string)) list"
  sa_SetGlobal :: "string \<Rightarrow> string \<Rightarrow> 'cfg \<Rightarrow> 'cfg"

datatype settings_error =
    NoConnectHost SessionID
  | StillPointsAt SessionID string string
  | ExpectedOneSession nat
  | NoSessionFound

definition connect_host :: string where
  "connect_host = ''SocketConnectHost''"

fun verify_hosts :: "string \<Rightarrow> (SessionID \<times> (string \<rightharpoonup> string)) list \<Rightarrow> settings_error option" where
  "verify_hosts host [] = None"
| "verify_hosts host ((sid, s) # rest) =
     (case s connect_host of
        None \<Rightarrow> Some (NoConnectHost sid)
      | Some got \<Rightarrow> if got \<noteq> host then Some (StillPointsAt sid got host) else verify_hosts host rest)"

definition OverrideConnectHost :: "'cfg settings_api \<Rightarrow> string \<Rightarrow> 'cfg \<Rightarrow> settings_error option \<times> 'cfg" where
  "OverrideConnectHost S host cfg =
     (if host = [] then (None, cfg)
      else
        let cfg1 = sa_SetGlobal S connect_host host cfg
        in (verify_hosts host (sa_SessionSettings S cfg1), cfg1))"

definition SoleSession :: "'cfg settings_api \<Rightarrow> 'cfg \<Rightarrow> settings_error + SessionID" where
  "SoleSession S cfg =
     (let all = sa_SessionSettings S cfg
      in if length all \<noteq> 1 then Inl (ExpectedOneSession (length all))
         else (case all of (i, s) # rest \<Rightarrow> Inr i | [] \<Rightarrow> Inl NoSessionFound))"

definition overlay_laws ::
  "'cfg settings_api \<Rightarrow> ('cfg \<Rightarrow> (string \<rightharpoonup> string)) \<Rightarrow>
     ('cfg \<Rightarrow> (SessionID \<times> (string \<rightharpoonup> string)) list) \<Rightarrow> bool" where
  "overlay_laws S global blocks \<longleftrightarrow>
     (\<forall>cfg. sa_SessionSettings S cfg = map (\<lambda>(i, m). (i, global cfg ++ m)) (blocks cfg)) \<and>
     (\<forall>k v cfg. global (sa_SetGlobal S k v cfg) = (global cfg)(k \<mapsto> v) \<and>
                blocks (sa_SetGlobal S k v cfg) = blocks cfg)"

lemma verify_hosts_None:
  "verify_hosts host xs = None \<longleftrightarrow> (\<forall>(i, s) \<in> set xs. s connect_host = Some host)"
  by (induction host xs rule: verify_hosts.induct) (auto split: option.split)

lemma SoleSession_Inr: "SoleSession S cfg = Inr i \<longleftrightarrow> (\<exists>s. sa_SessionSettings S cfg = [(i, s)])"
  by (auto simp: SoleSession_def Let_def length_Suc_conv split: list.splits)

subsection \<open>Properties\<close>

text \<open>
  Overriding the host: with no host given nothing changes; otherwise it succeeds exactly when
  no session block sets another host of its own, and then every session of the file points at
  the given host, all its other settings are as they were, and no session is gained or lost.
\<close>

theorem override_connect_host:
  assumes "overlay_laws S global blocks"
  shows "OverrideConnectHost S [] cfg = (None, cfg) \<and>
    (host \<noteq> [] \<longrightarrow>
       (fst (OverrideConnectHost S host cfg) = None \<longleftrightarrow>
          (\<forall>(i, m) \<in> set (blocks cfg). m connect_host = None \<or> m connect_host = Some host)) \<and>
       (fst (OverrideConnectHost S host cfg) = None \<longrightarrow>
          sa_SessionSettings S (snd (OverrideConnectHost S host cfg)) =
            map (\<lambda>(i, s). (i, s(connect_host \<mapsto> host))) (sa_SessionSettings S cfg)))"
proof -
  let ?cfg = "sa_SetGlobal S connect_host host cfg"
  have all: "sa_SessionSettings S ?cfg = map (\<lambda>(i, m). (i, (global cfg)(connect_host \<mapsto> host) ++ m)) (blocks cfg)"
    "sa_SessionSettings S cfg = map (\<lambda>(i, m). (i, global cfg ++ m)) (blocks cfg)"
    using assms by (simp_all add: overlay_laws_def)
  have ok: "verify_hosts host (sa_SessionSettings S ?cfg) = None \<longleftrightarrow>
      (\<forall>(i, m) \<in> set (blocks cfg). m connect_host = None \<or> m connect_host = Some host)"
    by (auto simp: verify_hosts_None all map_add_def split: option.splits)
  have upd: "(global cfg)(connect_host \<mapsto> host) ++ m = (global cfg ++ m)(connect_host \<mapsto> host)"
    if "m connect_host = None \<or> m connect_host = Some host" for m
    using that by (auto simp: map_add_def fun_eq_iff split: option.split)
  have "sa_SessionSettings S ?cfg = map (\<lambda>(i, s). (i, s(connect_host \<mapsto> host))) (sa_SessionSettings S cfg)"
    if "verify_hosts host (sa_SessionSettings S ?cfg) = None"
  proof -
    have "(i, (global cfg)(connect_host \<mapsto> host) ++ m) = (i, (global cfg ++ m)(connect_host \<mapsto> host))"
      if "(i, m) \<in> set (blocks cfg)" for i m
      using that ok \<open>verify_hosts host (sa_SessionSettings S ?cfg) = None\<close> upd [of m] by auto
    then show ?thesis unfolding all map_map by (intro map_cong) auto
  qed
  with ok show ?thesis by (auto simp: OverrideConnectHost_def Let_def)
qed

text \<open>The engine's settings as the source describes them: a global map and the blocks.\<close>

definition demo_settings_api :: "((string \<rightharpoonup> string) \<times> (SessionID \<times> (string \<rightharpoonup> string)) list) settings_api" where
  "demo_settings_api =
     \<lparr>sa_SessionSettings = (\<lambda>(g, bs). map (\<lambda>(i, m). (i, g ++ m)) bs),
      sa_SetGlobal = (\<lambda>k v (g, bs). (g(k \<mapsto> v), bs))\<rparr>"

theorem override_connect_host_witness:
  "fst (OverrideConnectHost demo_settings_api ''venue''
     ([''SocketConnectHost'' \<mapsto> ''127.0.0.1''], [(zero_SessionID, [''TargetCompID'' \<mapsto> ''FIXLABEX''])])) = None"
proof -
  have "overlay_laws demo_settings_api fst snd"
    by (auto simp: overlay_laws_def demo_settings_api_def)
  from override_connect_host [OF this] show ?thesis by (simp add: connect_host_def)
qed

end
