(* ===== verification/RejectLoop.thy ===== *)
theory RejectLoop
  imports DropCopy Demo
begin

text \<open>
  The conversation of two applications about a refused message. An application answers a message
  it refuses with an error; its engine turns the error into a message to the counterparty
  and the counterparty's application is given that one in turn (the comments "never reject a
  reject" in \<open>internal/client/oe.go\<close>, \<open>internal/client/dc.go\<close> and
  \<open>internal/exchange/exchange.go\<close>). Here both sides are the models of the two applications;
  the engine is the record \<open>reject_engine\<close>: the message an error becomes and which message
  types are administrative. The fuel of \<open>conversation\<close> counts deliveries; \<open>None\<close> means that the
  conversation was still going on when it was used up.
\<close>

record reject_engine =
  re_message :: "reject \<Rightarrow> message \<Rightarrow> message"
  re_admin :: "string \<Rightarrow> bool"

text \<open>
  FIX 4.4 and the engine (\<open>README.md\<close>, \<open>docs/drills/11-session-reject.md\<close>): a business reject has
  type \<open>j\<close> and is an application message, and so is the answer to a message in which a required
  field is missing; a malformed field is answered by a session reject, of type \<open>3\<close>, a refused
  Logon by a Logout, of type \<open>5\<close>, and these two are administrative.
\<close>

fun reject_type :: "reject \<Rightarrow> string" where
  "reject_type (FieldMissing t) = ''j''"
| "reject_type (FieldMalformed t) = ''3''"
| "reject_type (BusinessReject reason code) = ''j''"
| "reject_type (RejectLogon reason) = ''5''"

definition reject_laws :: "reject_engine \<Rightarrow> bool" where
  "reject_laws E \<longleftrightarrow>
     (\<forall>r m. msg_header (re_message E r m) tagMsgType = Some (reject_type r)) \<and>
     re_admin E ''3'' \<and> re_admin E ''5'' \<and> \<not> re_admin E ''j''"

datatype 'w consumer = OrderEntryClient "'w OrderEntry" | DropCopyClient "'w DropCopy"

datatype side = AtVenue | AtClient

record 'w link =
  lk_venue :: App
  lk_client :: "'w consumer"
  lk_world :: 'w

definition is_admin :: "reject_engine \<Rightarrow> message \<Rightarrow> bool" where
  "is_admin E m = (case msg_header m tagMsgType of None \<Rightarrow> False | Some t \<Rightarrow> re_admin E t)"

text \<open>An incoming message: \<open>sid\<close> is the session as the venue names it, \<open>cid\<close> as the client does.\<close>

fun client_receives ::
  "lib \<Rightarrow> reject_engine \<Rightarrow> SessionID \<Rightarrow> message \<Rightarrow> 'w consumer \<Rightarrow> 'w \<Rightarrow> reject option \<times> 'w consumer \<times> 'w" where
  "client_receives L E cid m (OrderEntryClient c) w =
     (if is_admin E m
      then (case Client_FromAdmin m cid (oe_Client c) w of (r, w1) \<Rightarrow> (r, OrderEntryClient c, w1))
      else (case OE_FromApp L m cid c w of (r, c1, w1) \<Rightarrow> (r, OrderEntryClient c1, w1)))"
| "client_receives L E cid m (DropCopyClient c) w =
     (if is_admin E m
      then (case Client_FromAdmin m cid (dc_Client c) w of (r, w1) \<Rightarrow> (r, DropCopyClient c, w1))
      else (case DC_FromApp L m cid c w of (r, c1, w1) \<Rightarrow> (r, DropCopyClient c1, w1)))"

definition venue_receives ::
  "lib \<Rightarrow> reject_engine \<Rightarrow> SessionID \<Rightarrow> message \<Rightarrow> App \<Rightarrow> reject option \<times> App" where
  "venue_receives L E sid m a = (if is_admin E m then FromAdmin L m sid a else FromApp L m sid a)"

definition venue_sends :: "lib \<Rightarrow> reject_engine \<Rightarrow> SessionID \<Rightarrow> message \<Rightarrow> App \<Rightarrow> App" where
  "venue_sends L E sid m a = (if is_admin E m then ToAdmin L m sid a else ToApp L m sid a)"

fun conversation ::
  "nat \<Rightarrow> lib \<Rightarrow> reject_engine \<Rightarrow> SessionID \<Rightarrow> SessionID \<Rightarrow> side \<Rightarrow> message \<Rightarrow> 'w link
     \<Rightarrow> (message list \<times> 'w link) option" where
  "conversation 0 L E sid cid d m s = None"
| "conversation (Suc n) L E sid cid AtVenue m s =
     (case venue_receives L E sid m (lk_venue s) of
        (None, a) \<Rightarrow> Some ([], s\<lparr>lk_venue := a\<rparr>)
      | (Some r, a) \<Rightarrow>
          let reply = re_message E r m
          in map_option (\<lambda>(ms, s1). (reply # ms, s1))
               (conversation n L E sid cid AtClient reply (s\<lparr>lk_venue := venue_sends L E sid reply a\<rparr>)))"
| "conversation (Suc n) L E sid cid AtClient m s =
     (case client_receives L E cid m (lk_client s) (lk_world s) of
        (None, c, w) \<Rightarrow> Some ([], s\<lparr>lk_client := c, lk_world := w\<rparr>)
      | (Some r, c, w) \<Rightarrow>
          let reply = re_message E r m
          in map_option (\<lambda>(ms, s1). (reply # ms, s1))
               (conversation n L E sid cid AtVenue reply (s\<lparr>lk_client := c, lk_world := w\<rparr>)))"

subsection \<open>Facts\<close>

lemma reject_messages:
  assumes "reject_laws E"
  shows "msg_header (re_message E r m) tagMsgType = Some (reject_type r)"
    "is_admin E (re_message E r m) \<longleftrightarrow> reject_type r \<noteq> ''j''"
  using assms by (cases r; simp add: reject_laws_def is_admin_def)+

lemma more_fuel:
  "conversation n L E sid cid d m s = Some res \<Longrightarrow> conversation (n + j) L E sid cid d m s = Some res"
proof (induction n arbitrary: d m s res)
  case (Suc n)
  show ?case
  proof (cases d)
    case AtVenue
    with Suc show ?thesis
      by (cases "venue_receives L E sid m (lk_venue s)"; cases "fst (venue_receives L E sid m (lk_venue s))")
         (fastforce simp: Let_def map_option_case split: option.splits)+
  next
    case AtClient
    with Suc show ?thesis
      by (cases "client_receives L E cid m (lk_client s) (lk_world s)";
          cases "fst (client_receives L E cid m (lk_client s) (lk_world s))")
         (fastforce simp: Let_def map_option_case split: option.splits)+
  qed
qed simp

text \<open>Neither client refuses a reject, and the venue refuses one only on a drop-copy session.\<close>

lemma client_takes_rejects:
  assumes "reject_laws E"
  shows "fst (client_receives L E cid (re_message E r m) c w) = None"
  using reject_messages [OF assms]
  by (cases c; cases r)
     (auto simp: Client_FromAdmin_def OE_FromApp_def DC_FromApp_def msgTypeExecutionReport_def
        msgTypeBusinessReject_def Let_def)

lemma venue_takes_rejects:
  assumes "reject_laws E" "reject_type r = ''j'' \<Longrightarrow> kindOf sid a \<noteq> KindDropCopy"
  shows "fst (venue_receives L E sid (re_message E r m) a) = None"
  using reject_messages [OF assms(1), of r m] assms(2)
  by (cases r) (auto simp: venue_receives_def FromAdmin_def FromApp_def kindOf_def note_frame Let_def)

lemma venue_answers_read_only:
  assumes "reject_laws E" "reject_type r = ''j''" "kindOf sid a = KindDropCopy"
  shows "fst (venue_receives L E sid (re_message E r m) a) = Some (BusinessReject DropCopyReadOnly 3)"
  using reject_messages [OF assms(1), of r m] assms(2,3)
  by (auto simp: venue_receives_def FromApp_def kindOf_def note_frame Let_def)

text \<open>A reject that comes by itself is taken as one that answers a message.\<close>

lemma reject_is_taken:
  assumes "reject_laws E" "msg_header m tagMsgType = Some t" "t = ''j'' \<or> t = ''3''"
  shows "fst (client_receives L E cid m c w) = None"
    "t = ''j'' \<Longrightarrow> kindOf sid a \<noteq> KindDropCopy \<Longrightarrow> fst (venue_receives L E sid m a) = None"
    "t = ''3'' \<Longrightarrow> fst (venue_receives L E sid m a) = None"
proof -
  have admin: "is_admin E m \<longleftrightarrow> t = ''3''" using assms by (auto simp: reject_laws_def is_admin_def)
  show "fst (client_receives L E cid m c w) = None"
    using assms(2,3) admin
    by (cases c) (auto simp: Client_FromAdmin_def OE_FromApp_def DC_FromApp_def
        msgTypeExecutionReport_def msgTypeBusinessReject_def Let_def)
  show "fst (venue_receives L E sid m a) = None" if "t = ''j''" "kindOf sid a \<noteq> KindDropCopy"
    using assms(2) admin that by (simp add: venue_receives_def FromApp_def kindOf_def note_frame Let_def)
  show "fst (venue_receives L E sid m a) = None" if "t = ''3''"
    using assms(2) admin that by (simp add: venue_receives_def FromAdmin_def Let_def)
qed

lemma conversation_taken:
  "d = AtClient \<Longrightarrow> fst (client_receives L E cid m (lk_client s) (lk_world s)) = None \<Longrightarrow>
     \<exists>s'. conversation (Suc n) L E sid cid d m s = Some ([], s')"
  "d = AtVenue \<Longrightarrow> fst (venue_receives L E sid m (lk_venue s)) = None \<Longrightarrow>
     \<exists>s'. conversation (Suc n) L E sid cid d m s = Some ([], s')"
  by (auto split: prod.split option.split)

text \<open>What the venue answers, the client takes.\<close>

lemma venue_conversation:
  assumes "reject_laws E"
  shows "\<exists>s'. conversation (Suc (Suc n)) L E sid cid AtVenue m s =
    Some ((case fst (venue_receives L E sid m (lk_venue s)) of None \<Rightarrow> [] | Some r \<Rightarrow> [re_message E r m]), s')"
proof -
  obtain r a where r: "venue_receives L E sid m (lk_venue s) = (r, a)" by force
  show ?thesis
  proof (cases r)
    case (Some x)
    let ?s = "s\<lparr>lk_venue := venue_sends L E sid (re_message E x m) a\<rparr>"
    obtain s' where "conversation (Suc n) L E sid cid AtClient (re_message E x m) ?s = Some ([], s')"
      using conversation_taken(1) [OF refl client_takes_rejects [OF assms]] by blast
    then show ?thesis using r Some by (simp add: Let_def del: conversation.simps(3))
  qed (use r in simp)
qed

subsection \<open>Properties\<close>

text \<open>
  C16. Nobody rejects rejects forever: whatever message is delivered to the venue or to a client,
  of either kind and on a session of either role, the conversation ends, after at most two
  answers. There are two only if the message went to a client and the venue has its session
  registered as drop copy: then the client's business reject is answered by the one with which
  the venue keeps that session read-only, and the client takes that. A reject that comes by
  itself, of either type, is not answered at all, but for a business reject to the venue on
  such a session. (With more fuel than three deliveries nothing changes, see \<open>more_fuel\<close>.)
\<close>

theorem rejects_not_answered:
  assumes "reject_laws E"
  shows "\<exists>ms s'. conversation (3 + j) L E sid cid d m s = Some (ms, s') \<and> length ms \<le> 2 \<and>
    (length ms = 2 \<longrightarrow> d = AtClient \<and> kindOf sid (lk_venue s) = KindDropCopy \<and>
       (\<forall>x \<in> set ms. msg_header x tagMsgType = Some ''j'')) \<and>
    (msg_header m tagMsgType = Some ''3'' \<or>
     msg_header m tagMsgType = Some ''j'' \<and> (d = AtClient \<or> kindOf sid (lk_venue s) \<noteq> KindDropCopy) \<longrightarrow> ms = [])"
proof -
  have fuel: "3 + j = Suc (Suc (Suc j))" by simp
  show ?thesis
  proof (cases d)
    case AtVenue
    then show ?thesis
      using venue_conversation [OF assms, of "Suc j" L sid cid m s]
        reject_is_taken(2,3) [OF assms, where m = m and L = L and sid = sid and a = "lk_venue s"]
      unfolding fuel by (fastforce split: option.splits)
  next
    case AtClient
    obtain r c w where r: "client_receives L E cid m (lk_client s) (lk_world s) = (r, c, w)"
      by (cases "client_receives L E cid m (lk_client s) (lk_world s)")
    show ?thesis
    proof (cases r)
      case None
      then show ?thesis unfolding fuel using AtClient r by simp
    next
      case (Some x)
      let ?m = "re_message E x m" and ?s = "s\<lparr>lk_client := c, lk_world := w\<rparr>"
      let ?answer = "fst (venue_receives L E sid ?m (lk_venue s))"
      let ?more = "case ?answer of None \<Rightarrow> [] | Some r \<Rightarrow> [re_message E r ?m]"
      obtain s' where "conversation (Suc (Suc j)) L E sid cid AtVenue ?m ?s = Some (?more, s')"
        using venue_conversation [OF assms, of j L sid cid ?m ?s] by auto
      then have all: "conversation (3 + j) L E sid cid d m s = Some (?m # ?more, s')"
        unfolding fuel using AtClient r Some by (simp add: Let_def del: conversation.simps(2))
      have "length ?more \<le> 1" by (simp split: option.split)
      moreover have "kindOf sid (lk_venue s) = KindDropCopy \<and> (\<forall>y \<in> set (?m # ?more). msg_header y tagMsgType = Some ''j'')"
        if "?answer \<noteq> None"
      proof -
        have j: "reject_type x = ''j''" and role: "kindOf sid (lk_venue s) = KindDropCopy"
          using venue_takes_rejects [OF assms, of x sid "lk_venue s" L m] that by blast+
        from venue_answers_read_only [OF assms this] have "?more = [re_message E (BusinessReject DropCopyReadOnly 3) ?m]"
          by simp
        then show ?thesis using role j reject_messages(1) [OF assms] by simp
      qed
      then have "length ?more = 1 \<longrightarrow> kindOf sid (lk_venue s) = KindDropCopy \<and>
          (\<forall>y \<in> set (?m # ?more). msg_header y tagMsgType = Some ''j'')" by (cases ?answer) simp_all
      moreover have "\<not> (msg_header m tagMsgType = Some ''3'' \<or> msg_header m tagMsgType = Some ''j'')"
        using reject_is_taken(1) [OF assms, of m _ L cid "lk_client s" "lk_world s"] r Some by auto
      ultimately show ?thesis unfolding all using AtClient by auto
    qed
  qed
qed

definition demo_rejects :: reject_engine where
  "demo_rejects =
     \<lparr>re_message = (\<lambda>r m. \<lparr>msg_header = [tagMsgType \<mapsto> reject_type r], msg_body = Map.empty\<rparr>),
      re_admin = (\<lambda>t. t = ''A'' \<or> t = ''3'' \<or> t = ''5'')\<rparr>"

definition demo_link :: "unit link" where
  "demo_link = \<lparr>lk_venue = demo_start,
     lk_client = OrderEntryClient (NewOrderEntry demo_creds),
     lk_world = ()\<rparr>"

theorem rejects_not_answered_witness:
  "\<exists>ms s'. conversation 3 demo_lib demo_rejects demo_oe demo_oe AtVenue
     \<lparr>msg_header = [tagMsgType \<mapsto> ''F''], msg_body = Map.empty\<rparr> demo_link = Some (ms, s') \<and> length ms \<le> 2"
proof -
  have "reject_laws demo_rejects" by (simp add: reject_laws_def demo_rejects_def)
  from rejects_not_answered [OF this, where j = 0] show ?thesis by (simp only: add_0_right) blast
qed

text \<open>
  Two answers do happen: a drop-copy client that is given a report without ExecID answers by a
  business reject, and the venue answers that by another.
\<close>

theorem drop_copy_rejects_twice:
  assumes "reject_laws E" "kindOf sid (lk_venue s) = KindDropCopy" "lk_client s = DropCopyClient c"
    and "msg_header m tagMsgType = Some ''8''" "\<not> re_admin E ''8''" "msg_body m tagExecID = None"
  shows "\<exists>x y s'. conversation 3 L E sid cid AtClient m s = Some ([x, y], s') \<and>
    msg_header x tagMsgType = Some ''j'' \<and> msg_header y tagMsgType = Some ''j''"
proof -
  have fuel: "3 = Suc (Suc (Suc 0))" by simp
  have "fst (client_receives L E cid m (lk_client s) (lk_world s)) = Some (FieldMissing tagExecID)"
    using assms(3-6)
    by (simp add: is_admin_def DC_FromApp_def DC_onExecutionReport_def read_report_def
        msgTypeExecutionReport_def Let_def split: prod.split)
  then obtain d w where r: "client_receives L E cid m (lk_client s) (lk_world s) = (Some (FieldMissing tagExecID), d, w)"
    by (metis prod.collapse)
  let ?m = "re_message E (FieldMissing tagExecID) m" and ?s = "s\<lparr>lk_client := d, lk_world := w\<rparr>"
  have "fst (venue_receives L E sid ?m (lk_venue ?s)) = Some (BusinessReject DropCopyReadOnly 3)"
    using venue_answers_read_only [OF assms(1) _ assms(2)] by simp
  then obtain s' where "conversation (Suc (Suc 0)) L E sid cid AtVenue ?m ?s =
      Some ([re_message E (BusinessReject DropCopyReadOnly 3) ?m], s')"
    using venue_conversation [OF assms(1), of 0 L sid cid ?m ?s] by auto
  then show ?thesis
    unfolding fuel using r reject_messages(1) [OF assms(1)] by (simp add: Let_def del: conversation.simps(2))
qed

theorem drop_copy_rejects_twice_witness:
  "\<exists>x y s'. conversation 3 demo_lib demo_rejects demo_dc demo_dc AtClient
     \<lparr>msg_header = [tagMsgType \<mapsto> ''8''], msg_body = Map.empty\<rparr>
     \<lparr>lk_venue = demo_start, lk_client = DropCopyClient (NewDropCopy demo_creds), lk_world = ()\<rparr> = Some ([x, y], s')"
proof -
  have "reject_laws demo_rejects" "\<not> re_admin demo_rejects ''8''" by (simp_all add: reject_laws_def demo_rejects_def)
  moreover have "kindOf demo_dc demo_start = KindDropCopy" by (simp add: demo_eval)
  ultimately show ?thesis
    using drop_copy_rejects_twice [where E = demo_rejects and sid = demo_dc and cid = demo_dc and L = demo_lib
        and s = "\<lparr>lk_venue = demo_start, lk_client = DropCopyClient (NewDropCopy demo_creds), lk_world = ()\<rparr>"
        and m = "\<lparr>msg_header = [tagMsgType \<mapsto> ''8''], msg_body = Map.empty\<rparr>"] by fastforce
qed

end
