(* ===== verification/Shutdown.thy ===== *)
theory Shutdown
  imports OeMain
begin

text \<open>
  How the order-entry binary ends (\<open>cmd/oe-client/main.go\<close>). The channel \<open>stop\<close> has one place;
  \<open>signal.Notify\<close> puts a signal there when it is free and drops it otherwise. Two goroutines
  receive from it: \<open>run\<close>, which then shuts the process down, and the sender, in the \<open>select\<close>
  of \<open>waitForLogon\<close> or of \<open>sendOrders\<close>, which then returns. When a receiver and a timer, or two
  receivers, are ready, either may go first: the goroutines are steps of one machine, and a
  run is any list of steps that can be taken.
\<close>

datatype sender_pc = CheckLogon | PauseLogon | SendOrder | PauseSend | Returned

record stopping =
  sg_pending :: bool
  sg_main_done :: bool
  sg_sender :: sender_pc

definition stopping_start :: stopping where
  "stopping_start = \<lparr>sg_pending = False, sg_main_done = False, sg_sender = CheckLogon\<rparr>"

datatype stop_step =
    Signal
  | MainReceives
  | SenderChecks bool
  | SenderReceives
  | SenderWakes
  | SenderSends

fun stop_act :: "int \<Rightarrow> stop_step \<Rightarrow> stopping \<Rightarrow> stopping option" where
  "stop_act every Signal s = Some (s\<lparr>sg_pending := True\<rparr>)"
| "stop_act every MainReceives s =
     (if sg_pending s \<and> \<not> sg_main_done s then Some (s\<lparr>sg_pending := False, sg_main_done := True\<rparr>) else None)"
| "stop_act every (SenderChecks up) s =
     (if sg_sender s = CheckLogon then Some (s\<lparr>sg_sender := (if up then SendOrder else PauseLogon)\<rparr>) else None)"
| "stop_act every SenderReceives s =
     (if sg_pending s \<and> (sg_sender s = PauseLogon \<or> sg_sender s = PauseSend)
      then Some (s\<lparr>sg_pending := False, sg_sender := Returned\<rparr>) else None)"
| "stop_act every SenderWakes s =
     (case sg_sender s of
        PauseLogon \<Rightarrow> Some (s\<lparr>sg_sender := CheckLogon\<rparr>)
      | PauseSend \<Rightarrow> Some (s\<lparr>sg_sender := SendOrder\<rparr>)
      | _ \<Rightarrow> None)"
| "stop_act every SenderSends s =
     (if sg_sender s = SendOrder
      then Some (s\<lparr>sg_sender := (if every \<le> 0 then Returned else PauseSend)\<rparr>) else None)"

fun stop_run :: "int \<Rightarrow> stop_step list \<Rightarrow> stopping \<Rightarrow> stopping option" where
  "stop_run every [] s = Some s"
| "stop_run every (x # xs) s = Option.bind (stop_act every x s) (stop_run every xs)"

text \<open>The signals that found the channel free.\<close>

fun accepted :: "int \<Rightarrow> stop_step list \<Rightarrow> stopping \<Rightarrow> nat" where
  "accepted every [] s = 0"
| "accepted every (x # xs) s =
     (if x = Signal \<and> \<not> sg_pending s then 1 else 0) +
     (case stop_act every x s of None \<Rightarrow> 0 | Some s1 \<Rightarrow> accepted every xs s1)"

subsection \<open>Facts\<close>

text \<open>
  Every accepted signal is still pending, or one of the two goroutines ended with it. (The
  sender may also return by itself, with \<open>every\<close> not positive.)
\<close>

definition taken :: "stopping \<Rightarrow> nat" where
  "taken s = of_bool (sg_pending s) + of_bool (sg_main_done s) + of_bool (sg_sender s = Returned)"

lemma taken_act:
  "stop_act every x s = Some s1 \<Longrightarrow> taken s + (if x = Signal \<and> \<not> sg_pending s then 1 else 0) \<le> taken s1"
  by (cases x) (auto simp: taken_def split: if_splits sender_pc.splits)

lemma accepted_taken: "stop_run every xs s = Some s' \<Longrightarrow> taken s + accepted every xs s \<le> taken s'"
proof (induction xs arbitrary: s)
  case (Cons x xs)
  then obtain s1 where s1: "stop_act every x s = Some s1" "stop_run every xs s1 = Some s'"
    by (auto split: bind_splits)
  have "taken s1 + accepted every xs s1 \<le> taken s'" by (rule Cons.IH [OF s1(2)])
  then show ?case using taken_act [OF s1(1)] s1(1) by (auto simp: split: if_splits)
qed simp

text \<open>With nothing pending and no further signal, the main goroutine waits for ever.\<close>

lemma no_signal_no_end:
  "stop_run every xs s = Some s' \<Longrightarrow> Signal \<notin> set xs \<Longrightarrow> \<not> sg_pending s \<Longrightarrow> \<not> sg_main_done s \<Longrightarrow>
   \<not> sg_pending s' \<and> \<not> sg_main_done s'"
proof (induction xs arbitrary: s)
  case (Cons x xs)
  then obtain s1 where s1: "stop_act every x s = Some s1" "stop_run every xs s1 = Some s'"
    by (auto split: bind_splits)
  moreover have "\<not> sg_pending s1 \<and> \<not> sg_main_done s1"
    using s1(1) Cons.prems by (cases x) (auto split: if_splits sender_pc.splits)
  ultimately show ?case using Cons by auto
qed simp

subsection \<open>Properties\<close>

text \<open>
  A signal can be lost: while the sender pauses, before the logon or between two orders, the
  sender may receive the one signal that was sent. It returns, and the process then runs on:
  whatever steps follow, without a second signal the main goroutine never ends.
\<close>

theorem signal_lost:
  assumes "stop_run every xs stopping_start = Some s" "\<not> sg_pending s" "\<not> sg_main_done s"
    "sg_sender s = PauseLogon \<or> sg_sender s = PauseSend"
  shows "\<exists>s1. stop_run every (xs @ [Signal, SenderReceives]) stopping_start = Some s1 \<and>
    sg_sender s1 = Returned \<and>
    (\<forall>ys s2. Signal \<notin> set ys \<longrightarrow> stop_run every ys s1 = Some s2 \<longrightarrow> \<not> sg_main_done s2)"
proof -
  have append: "stop_run every (us @ vs) s0 = Option.bind (stop_run every us s0) (stop_run every vs)"
    for us vs s0
    by (induction us arbitrary: s0) (auto split: bind_splits)
  let ?s1 = "s\<lparr>sg_pending := False, sg_sender := Returned\<rparr>"
  have "stop_run every (xs @ [Signal, SenderReceives]) stopping_start = Some ?s1"
    using assms by (auto simp: append)
  moreover have "\<not> sg_main_done s2" if "Signal \<notin> set ys" "stop_run every ys ?s1 = Some s2" for ys s2
    using no_signal_no_end [OF that(2,1)] assms(3) by simp
  ultimately show ?thesis by (intro exI [of _ ?s1]) auto
qed

theorem signal_lost_witness:
  "\<exists>s1. stop_run 1 ([SenderChecks True, SenderSends] @ [Signal, SenderReceives]) stopping_start = Some s1 \<and>
     sg_sender s1 = Returned \<and> \<not> sg_main_done s1"
proof -
  have "stop_run 1 [SenderChecks True, SenderSends] stopping_start
      = Some \<lparr>sg_pending = False, sg_main_done = False, sg_sender = PauseSend\<rparr>"
    by (simp add: stopping_start_def)
  from signal_lost [OF this] obtain s1 where
    "stop_run 1 ([SenderChecks True, SenderSends] @ [Signal, SenderReceives]) stopping_start = Some s1"
    "sg_sender s1 = Returned" and later: "\<And>ys s2. Signal \<notin> set ys \<Longrightarrow> stop_run 1 ys s1 = Some s2 \<Longrightarrow> \<not> sg_main_done s2"
    by auto
  with later [of "[]" s1] show ?thesis by auto
qed

text \<open>
  C37. Two signals are enough, and one is when a single order is sent: once two signals have been
  accepted, or one after the sender has returned, the main goroutine has ended or its next
  step ends it.
\<close>

theorem signals_end_process:
  assumes "stop_run every xs s = Some s'"
    "2 \<le> accepted every xs s \<or> sg_sender s = Returned \<and> 1 \<le> accepted every xs s"
  shows "sg_main_done s' \<or>
    (\<exists>s2. stop_act every MainReceives s' = Some s2 \<and> sg_main_done s2)"
proof -
  have "2 \<le> taken s + accepted every xs s"
    using assms(2) by (auto simp: taken_def)
  then have "2 \<le> taken s'"
    using accepted_taken [OF assms(1)] by simp
  then show ?thesis by (auto simp: taken_def of_bool_def split: if_splits)
qed

theorem signals_end_process_witness:
  "\<exists>s2. stop_act 1 MainReceives \<lparr>sg_pending = True, sg_main_done = False, sg_sender = Returned\<rparr> = Some s2
     \<and> sg_main_done s2"
proof -
  have "stop_run 1 [SenderChecks True, SenderSends, Signal, SenderReceives, Signal] stopping_start
      = Some \<lparr>sg_pending = True, sg_main_done = False, sg_sender = Returned\<rparr>"
    by (simp add: stopping_start_def)
  from signals_end_process [OF this] show ?thesis by (simp add: stopping_start_def)
qed

end
