(* ===== verification/Boot.thy ===== *)
theory Boot
  imports Settings WatchProps OeMain DropCopy
begin

text \<open>
  How the three binaries start and end (\<open>run\<close> of \<open>cmd/exchange/main.go\<close>, \<open>cmd/oe-client/main.go\<close>
  and \<open>cmd/dc-client/main.go\<close>). Opening and parsing the settings file, and building, starting
  and stopping an initiator or an acceptor are the engine's and the system's: parameters, the
  latter as the record \<open>engine\<close> on an engine state \<open>'e\<close>, for an application and a parsed
  settings file. Each binary is split where it waits for a signal: \<open>*_start\<close> is what it does
  before and \<open>*_stop\<close> what its deferred calls do. What they print is left out, and so is the
  HTTP server of the exchange, apart from its handler (\<open>Admin\<close>).
\<close>

datatype boot_error =
    BadQuantity
  | BadPrice
  | CannotOpen string
  | CannotParse string
  | BadSettings settings_error
  | BadRoles load_error
  | CannotBuild string
  | CannotStart string
  | SupervisorFailed supervisor_error

record ('f, 'cfg) files =
  fs_Open :: "string \<Rightarrow> string + 'f"
  fs_Parse :: "'f \<Rightarrow> string + 'cfg"

definition read_settings :: "('f, 'cfg) files \<Rightarrow> string \<Rightarrow> boot_error + 'cfg" where
  "read_settings F path =
     (case fs_Open F path of Inl err \<Rightarrow> Inl (CannotOpen err) | Inr f \<Rightarrow>
      case fs_Parse F f of Inl err \<Rightarrow> Inl (CannotParse err) | Inr cfg \<Rightarrow> Inr cfg)"

text \<open>Build and start, as \<open>cmd/exchange\<close> and \<open>cmd/dc-client\<close> do it.\<close>

definition build_and_start :: "('i, 'e) engine \<Rightarrow> 'e \<Rightarrow> (boot_error + 'i) \<times> 'e" where
  "build_and_start E e =
     (case en_Build E e of
        (Inl err, e1) \<Rightarrow> (Inl (CannotBuild err), e1)
      | (Inr i, e1) \<Rightarrow>
          (case en_Start E i e1 of
             (Some err, e2) \<Rightarrow> (Inl (CannotStart err), e2)
           | (None, e2) \<Rightarrow> (Inr i, e2)))"

subsection \<open>The exchange\<close>

definition exchange_start ::
  "('f, 'cfg) files \<Rightarrow> 'cfg settings_api \<Rightarrow> environment \<Rightarrow> (App \<Rightarrow> 'cfg \<Rightarrow> ('i, 'e) engine)
     \<Rightarrow> string \<Rightarrow> 'e \<Rightarrow> (boot_error + App \<times> 'i) \<times> 'e" where
  "exchange_start F S getenv E cfgPath e =
     (case read_settings F cfgPath of Inl err \<Rightarrow> (Inl err, e) | Inr cfg \<Rightarrow>
      case LoadKinds getenv (sa_SessionSettings S cfg) (New NewBook) of
        (Some err, app) \<Rightarrow> (Inl (BadRoles err), e)
      | (None, app) \<Rightarrow>
          (case build_and_start (E app cfg) e of
             (Inl err, e1) \<Rightarrow> (Inl err, e1)
           | (Inr acceptor, e1) \<Rightarrow> (Inr (app, acceptor), e1)))"

text \<open>
  After the signal the HTTP server is shut down, with whatever it answers, and the deferred call
  stops the acceptor.
\<close>

definition exchange_stop :: "('i, 'e) engine \<Rightarrow> string option \<Rightarrow> 'i \<Rightarrow> 'e \<Rightarrow> string option \<times> 'e" where
  "exchange_stop E shutdown acceptor e = (shutdown, en_Stop E acceptor e)"

subsection \<open>The drop-copy client\<close>

definition dc_creds :: LogonCredentials where
  "dc_creds = \<lparr>lc_AppID = ''fixlab-dc/1.0'', lc_CODType = 0, lc_CODTimeoutWindow = 0\<rparr>"

text \<open>The sessions are counted once the initiator runs; the deferred \<open>Stop\<close> then ends it.\<close>

definition dc_start ::
  "('f, 'cfg) files \<Rightarrow> 'cfg settings_api \<Rightarrow> ('w DropCopy \<Rightarrow> 'cfg \<Rightarrow> ('i, 'e) engine)
     \<Rightarrow> string \<Rightarrow> string \<Rightarrow> 'e \<Rightarrow> (boot_error + 'w DropCopy \<times> 'i) \<times> 'e" where
  "dc_start F S E cfgPath host e =
     (case read_settings F cfgPath of Inl err \<Rightarrow> (Inl err, e) | Inr cfg \<Rightarrow>
      case OverrideConnectHost S host cfg of
        (Some err, cfg1) \<Rightarrow> (Inl (BadSettings err), e)
      | (None, cfg1) \<Rightarrow>
          let app = NewDropCopy dc_creds
          in (case build_and_start (E app cfg1) e of
                (Inl err, e1) \<Rightarrow> (Inl err, e1)
              | (Inr initiator, e1) \<Rightarrow>
                  (case SoleSession S cfg1 of
                     Inl err \<Rightarrow> (Inl (BadSettings err), en_Stop (E app cfg1) initiator e1)
                   | Inr sid \<Rightarrow> (Inr (app, initiator), e1))))"

text \<open>At the end the deferred call stops the initiator; the log line gives two numbers.\<close>

definition dc_stop :: "('i, 'e) engine \<Rightarrow> 'w DropCopy \<Rightarrow> 'i \<Rightarrow> 'e \<Rightarrow> nat \<times> nat \<times> 'e" where
  "dc_stop E app initiator e = (length (Reports app), Duplicates app, en_Stop E initiator e)"

subsection \<open>The order-entry client\<close>

record options =
  op_config :: string
  op_host :: string
  op_symbol :: string
  op_qty :: string
  op_price :: string
  op_every :: int
  op_codType :: int
  op_codWindow :: int
  op_watchdog :: int

record ('i) oe_process =
  pr_session :: SessionID
  pr_order :: NewOrder
  pr_app :: "(int \<times> Watchdog) OrderEntry"
  pr_supervisor :: "'i Supervisor"
  pr_watchdog :: "Watchdog option"

definition oe_creds :: "options \<Rightarrow> LogonCredentials" where
  "oe_creds opts = \<lparr>lc_AppID = ''fixlab-oe/1.0'', lc_CODType = op_codType opts,
     lc_CODTimeoutWindow = op_codWindow opts\<rparr>"

definition oe_order :: "options \<Rightarrow> rat \<Rightarrow> rat \<Rightarrow> NewOrder" where
  "oe_order opts qty px =
     \<lparr>no_Symbol = op_symbol opts, no_Side = ''1'', no_OrderQty = qty, no_Price = px, no_Account = []\<rparr>"

definition oe_start ::
  "lib \<Rightarrow> ('f, 'cfg) files \<Rightarrow> 'cfg settings_api \<Rightarrow> ((int \<times> Watchdog) OrderEntry \<Rightarrow> 'cfg \<Rightarrow> ('i, 'e) engine)
     \<Rightarrow> options \<Rightarrow> nat \<Rightarrow> int \<Rightarrow> 'e \<Rightarrow> (boot_error + 'i oe_process) \<times> 'e" where
  "oe_start L F S E opts unixNano now e =
     (case lib_parseDec L (op_qty opts) of None \<Rightarrow> (Inl BadQuantity, e) | Some orderQty \<Rightarrow>
      case lib_parseDec L (op_price opts) of None \<Rightarrow> (Inl BadPrice, e) | Some orderPx \<Rightarrow>
      case read_settings F (op_config opts) of Inl err \<Rightarrow> (Inl err, e) | Inr cfg \<Rightarrow>
      case OverrideConnectHost S (op_host opts) cfg of
        (Some err, cfg1) \<Rightarrow> (Inl (BadSettings err), e)
      | (None, cfg1) \<Rightarrow>
          (case SoleSession S cfg1 of Inl err \<Rightarrow> (Inl (BadSettings err), e) | Inr sessionID \<Rightarrow>
           let app = build_client (oe_creds opts) (run_prefix unixNano) (0 < op_watchdog opts)
           in (case Supervisor_Start (E app cfg1) \<lparr>sv_current = None, sv_starts = 0\<rparr> e of
                 (Some err, sv, e1) \<Rightarrow> (Inl (SupervisorFailed err), e1)
               | (None, sv, e1) \<Rightarrow>
                   (Inr \<lparr>pr_session = sessionID, pr_order = oe_order opts orderQty orderPx, pr_app = app,
                         pr_supervisor = sv,
                         pr_watchdog = (if 0 < op_watchdog opts
                           then Some (Watchdog_Start now (new_watchdog (op_watchdog opts) 0 None)) else None)\<rparr>, e1))))"

text \<open>The deferred calls run last first: the watchdog ends before the supervisor.\<close>

definition oe_stop :: "('i, 'e) engine \<Rightarrow> 'i oe_process \<Rightarrow> 'e \<Rightarrow> 'i oe_process \<times> 'e" where
  "oe_stop E p e =
     (let wd = map_option Watchdog_Stop (pr_watchdog p)
      in case Supervisor_Stop E (pr_supervisor p) e of
           (sv, e1) \<Rightarrow> (p\<lparr>pr_watchdog := wd, pr_supervisor := sv\<rparr>, e1))"

subsection \<open>Facts\<close>

lemma build_and_start_running:
  assumes "engine_laws E running left" "build_and_start E e = (r, e1)"
  shows "r = Inr i \<Longrightarrow> running e1 = insert i (running e) \<and> left e1 = left e"
    "r = Inl err \<Longrightarrow> running e1 \<subseteq> running e \<union> left e1"
    "r = Inl err \<Longrightarrow> (\<forall>x. err \<noteq> CannotStart x) \<Longrightarrow> running e1 = running e \<and> left e1 = left e"
proof -
  obtain b e0 where b: "en_Build E e = (b, e0)" by force
  note built = engine_lawsD(1) [OF assms(1) b]
  show "running e1 = insert i (running e) \<and> left e1 = left e" if "r = Inr i"
  proof -
    have "en_Start E i e0 = (None, e1)"
      using assms(2) that b by (auto simp: build_and_start_def split: sum.splits prod.splits option.splits)
    from engine_lawsD(2) [OF assms(1) this] show ?thesis using built by simp
  qed
  show "running e1 \<subseteq> running e \<union> left e1" if "r = Inl err"
  proof (cases b)
    case (Inr i)
    obtain x where "en_Start E i e0 = (Some x, e1)"
      using assms(2) \<open>r = Inl err\<close> b Inr by (auto simp: build_and_start_def split: prod.splits option.splits)
    from engine_lawsD(3) [OF assms(1) this]
    have "running e1 \<subseteq> insert i (running e0)" "left e1 = (if i \<in> running e1 then insert i (left e0) else left e0)"
      by blast+
    then show ?thesis using built by (auto split: if_splits)
  qed (use assms(2) that b built in \<open>simp add: build_and_start_def\<close>)
  show "running e1 = running e \<and> left e1 = left e" if "r = Inl err" "\<forall>x. err \<noteq> CannotStart x"
  proof -
    have "e1 = e0"
      using assms(2) that b by (auto simp: build_and_start_def split: sum.splits prod.splits option.splits)
    then show ?thesis using built by simp
  qed
qed

lemma startLocked_failed:
  assumes "engine_laws E running left" "startLocked E \<lparr>sv_current = None, sv_starts = 0\<rparr> e = (Some err, s1, e1)"
  shows "running e1 \<subseteq> running e \<union> left e1"
    "\<forall>x. err \<noteq> StartInitiator x \<Longrightarrow> running e1 = running e"
proof -
  obtain b e0 where b: "en_Build E e = (b, e0)" by force
  note built = engine_lawsD(1) [OF assms(1) b]
  show "running e1 \<subseteq> running e \<union> left e1"
  proof (cases b)
    case (Inr i)
    obtain x where "en_Start E i e0 = (Some x, e1)"
      using assms(2) b Inr by (auto simp: startLocked_def split: prod.splits option.splits)
    from engine_lawsD(3) [OF assms(1) this]
    have "running e1 \<subseteq> insert i (running e0)" "left e1 = (if i \<in> running e1 then insert i (left e0) else left e0)"
      by blast+
    then show ?thesis using built by (auto split: if_splits)
  qed (use assms(2) b built in \<open>simp add: startLocked_def\<close>)
  show "running e1 = running e" if "\<forall>x. err \<noteq> StartInitiator x"
  proof -
    have "e1 = e0"
      using assms(2) that b by (auto simp: startLocked_def split: sum.splits prod.splits option.splits)
    then show ?thesis using built by simp
  qed
qed

lemma started_running:
  assumes "engine_laws E running left" "startLocked E \<lparr>sv_current = None, sv_starts = 0\<rparr> e = (None, s1, e1)" "running e = {}"
  shows "owns running left s1 e1"
  using owns_startLocked [OF assms(1), of "\<lparr>sv_current = None, sv_starts = 0\<rparr>" e] assms(2,3) by (simp add: owns_def)

subsection \<open>Properties\<close>

text \<open>
  What a start that fails leaves running, of each of the three binaries: just the initiators
  and acceptors that ran before, unless the engine's own \<open>Start\<close> fails; then at most what it left.
  (An initiator that was built is a new one, not among those that run.)
\<close>

theorem failed_start_leaves_nothing:
  assumes "\<And>app cfg. engine_laws (XE app cfg) running left" "\<And>app cfg. engine_laws (DE app cfg) running left"
    "\<And>app cfg. engine_laws (OE app cfg) running left"
    "\<And>app cfg e i. fst (en_Build (DE app cfg) e) = Inr i \<Longrightarrow> i \<notin> running e"
  shows "(\<forall>err e1. exchange_start F S getenv XE path e = (Inl err, e1) \<longrightarrow> running e1 \<subseteq> running e \<union> left e1 \<and>
      ((\<forall>x. err \<noteq> CannotStart x) \<longrightarrow> running e1 = running e)) \<and>
    (\<forall>err e1. dc_start F S DE path host e = (Inl err, e1) \<longrightarrow> running e1 \<subseteq> running e \<union> left e1 \<and>
      ((\<forall>x. err \<noteq> CannotStart x) \<longrightarrow> running e1 = running e)) \<and>
    (\<forall>err e1. oe_start L F S OE opts unixNano now e = (Inl err, e1) \<longrightarrow> running e1 \<subseteq> running e \<union> left e1 \<and>
      ((\<forall>x. err \<noteq> SupervisorFailed (StartInitiator x)) \<longrightarrow> running e1 = running e))"
proof -
  have new: "i \<notin> running e" if "build_and_start (DE app cfg) e = (Inr i, e1)" for app cfg i e1
    using that assms(4) [of app cfg e i] by (auto simp: build_and_start_def split: prod.splits sum.splits option.splits)
  have kept: "running (en_Stop (DE app cfg) i e1) = running e"
    if "build_and_start (DE app cfg) e = (Inr i, e1)" for app cfg i e1
    using build_and_start_running(1) [OF assms(2) that refl] engine_lawsD(4) [OF assms(2)] new [OF that] by simp
  have "running e1 \<subseteq> running e \<union> left e1 \<and> ((\<forall>x. err \<noteq> CannotStart x) \<longrightarrow> running e1 = running e)"
    if "dc_start F S DE path host e = (Inl err, e1)" for err e1
    using that build_and_start_running(2,3) [OF assms(2)] kept
    by (fastforce simp: dc_start_def Let_def split: prod.splits sum.splits option.splits)
  moreover have "running e1 \<subseteq> running e \<union> left e1 \<and> ((\<forall>x. err \<noteq> CannotStart x) \<longrightarrow> running e1 = running e)"
    if "exchange_start F S getenv XE path e = (Inl err, e1)" for err e1
    using that build_and_start_running(2,3) [OF assms(1)]
    by (fastforce simp: exchange_start_def split: prod.splits sum.splits option.splits)
  moreover have "running e1 \<subseteq> running e \<union> left e1 \<and>
      ((\<forall>x. err \<noteq> SupervisorFailed (StartInitiator x)) \<longrightarrow> running e1 = running e)"
    if "oe_start L F S OE opts unixNano now e = (Inl err, e1)" for err e1
    using that startLocked_failed [OF assms(3)]
    by (fastforce simp: oe_start_def Supervisor_Start_def Let_def split: prod.splits sum.splits option.splits)
  ultimately show ?thesis by blast
qed

text \<open>An engine that builds initiators with new numbers, and two settings files.\<close>

definition boot_engine :: "(nat, nat list) engine" where
  "boot_engine =
     \<lparr>en_Build = (\<lambda>R. (Inr (Suc (sum_list R)), R)),
      en_Start = (\<lambda>i R. (None, i # R)),
      en_Stop = (\<lambda>i R. removeAll i R)\<rparr>"

lemma boot_engine_laws: "engine_laws boot_engine set (\<lambda>_. {})"
  by (auto simp: engine_laws_def boot_engine_def)

lemma boot_engine_new: "fst (en_Build boot_engine R) = Inr i \<Longrightarrow> i \<notin> set R"
  by (auto simp: boot_engine_def dest: member_le_sum_list)

definition boot_files :: "(SessionID \<times> (string \<rightharpoonup> string)) list
    \<Rightarrow> (unit, (string \<rightharpoonup> string) \<times> (SessionID \<times> (string \<rightharpoonup> string)) list) files" where
  "boot_files ss = \<lparr>fs_Open = (\<lambda>p. Inr ()), fs_Parse = (\<lambda>_. Inr (Map.empty, ss))\<rparr>"

theorem failed_start_leaves_nothing_witness:
  "set (snd (dc_start (boot_files demo_settings) demo_settings_api (\<lambda>(app :: unit DropCopy) cfg. boot_engine) [] [] [7])) = {7}"
proof -
  obtain err e1 where dc: "dc_start (boot_files demo_settings) demo_settings_api
      (\<lambda>(app :: unit DropCopy) cfg. boot_engine) [] [] [7] = (Inl err, e1)"
    by (simp add: dc_start_def read_settings_def boot_files_def OverrideConnectHost_def build_and_start_def
        boot_engine_def SoleSession_def demo_settings_api_def demo_settings_def Let_def)
  have "set e1 \<subseteq> set [7] \<union> {} \<and> ((\<forall>x. err \<noteq> CannotStart x) \<longrightarrow> set e1 = set [7])"
    using failed_start_leaves_nothing
      [where XE = "\<lambda>_ _. boot_engine" and DE = "\<lambda>(app :: unit DropCopy) cfg. boot_engine" and
        OE = "\<lambda>_ _. boot_engine" and F = "boot_files demo_settings" and S = demo_settings_api and running = set and left = "\<lambda>_. {}",
        OF boot_engine_laws boot_engine_laws boot_engine_laws boot_engine_new] dc
    by blast
  moreover have "err = BadSettings (ExpectedOneSession 2)"
    using dc by (simp add: dc_start_def read_settings_def boot_files_def OverrideConnectHost_def build_and_start_def
        boot_engine_def SoleSession_def demo_settings_api_def demo_settings_def Let_def numeral_2_eq_2 [symmetric])
  ultimately show ?thesis by (simp add: dc)
qed

text \<open>
  A settings file with more or fewer sessions than one: neither client accepts it. The
  order-entry client refuses it before it builds anything; the drop-copy client first builds
  and starts its initiator, so its sessions have been started when it refuses the file.
\<close>

theorem one_session_enforced:
  assumes "read_settings F path = Inr cfg" "OverrideConnectHost S host cfg = (None, cfg1)"
    "length (sa_SessionSettings S cfg1) \<noteq> 1"
    "op_config opts = path" "op_host opts = host"
    "lib_parseDec L (op_qty opts) = Some q" "lib_parseDec L (op_price opts) = Some p"
    "build_and_start (DE (NewDropCopy dc_creds) cfg1) e = (Inr i, e1)"
  shows "oe_start L F S OE opts unixNano now e
      = (Inl (BadSettings (ExpectedOneSession (length (sa_SessionSettings S cfg1)))), e) \<and>
    dc_start F S DE path host e
      = (Inl (BadSettings (ExpectedOneSession (length (sa_SessionSettings S cfg1)))),
         en_Stop (DE (NewDropCopy dc_creds) cfg1) i e1)"
  using assms by (simp_all add: oe_start_def dc_start_def SoleSession_def Let_def)

definition boot_options :: options where
  "boot_options = \<lparr>op_config = ''oe.cfg'', op_host = [], op_symbol = ''PETR4'', op_qty = ''100'',
     op_price = ''25'', op_every = 0, op_codType = 0, op_codWindow = 30000, op_watchdog = 0\<rparr>"

theorem one_session_enforced_witness:
  "fst (oe_start demo_lib (boot_files demo_settings) demo_settings_api (\<lambda>_ _. boot_engine) boot_options 0 0 [])
     = Inl (BadSettings (ExpectedOneSession 2))"
proof -
  let ?cfg = "(Map.empty, demo_settings)"
  have read: "read_settings (boot_files demo_settings) ''oe.cfg'' = Inr ?cfg"
    by (simp add: read_settings_def boot_files_def)
  have host: "OverrideConnectHost demo_settings_api [] ?cfg = (None, ?cfg)"
    by (simp add: OverrideConnectHost_def)
  have two: "length (sa_SessionSettings demo_settings_api ?cfg) = 2"
    by (simp add: demo_settings_api_def demo_settings_def)
  have parse: "lib_parseDec demo_lib (op_qty boot_options) = Some 100"
    "lib_parseDec demo_lib (op_price boot_options) = Some 25"
    by (simp_all add: boot_options_def demo_eval)
  have up: "build_and_start boot_engine [] = (Inr 1, [1])"
    by (simp add: build_and_start_def boot_engine_def)
  show ?thesis
    using one_session_enforced [OF read host _ _ _ parse, where DE = "\<lambda>(app :: unit DropCopy) cfg. boot_engine"
        and e = "[]" and i = 1 and ?e1.0 = "[1]" and OE = "\<lambda>_ _. boot_engine"] two up
    by (simp add: boot_options_def)
qed

text \<open>
  A venue that came up: every configured session has one of the two roles, the venue is one
  that has loaded its settings (so what is proved of reachable states holds of it from here
  on) and its acceptor runs.
\<close>

theorem exchange_boot:
  assumes "engine_laws (E app cfg) running left" "read_settings F path = Inr cfg"
    "exchange_start F S getenv E path e = (Inr (app, acceptor), e1)"
  shows "reachable L app \<and>
    (\<forall>(sid, s) \<in> set (sa_SessionSettings S cfg). \<exists>raw. s SettingKind = Some raw \<and>
       ToUpper (TrimSpace raw) \<in> {KindOrderEntry, KindDropCopy}) \<and>
    running e1 = insert acceptor (running e)"
proof -
  have load: "LoadKinds getenv (sa_SessionSettings S cfg) (New NewBook) = (None, app)"
    and up: "build_and_start (E app cfg) e = (Inr acceptor, e1)"
    using assms(2,3) by (auto simp: exchange_start_def split: prod.splits sum.splits option.splits)
  have roles: "LoadKinds getenv ss a = (None, a1) \<Longrightarrow>
      \<forall>(sid, s) \<in> set ss. \<exists>raw. s SettingKind = Some raw \<and> ToUpper (TrimSpace raw) \<in> {KindOrderEntry, KindDropCopy}"
    for ss a a1
    by (induction getenv ss a rule: LoadKinds.induct) (auto simp: Let_def split: option.splits if_splits)
  have "started app" using load by (auto simp: started_def)
  then have "reachable L app" unfolding reachable_def by (intro exI [of _ app] exI [of _ "[]"]) simp
  then show ?thesis
    using roles [OF load] build_and_start_running(1) [OF assms(1) up refl] by simp
qed

theorem exchange_boot_witness:
  "\<exists>app acceptor e1.
     exchange_start (boot_files demo_settings) demo_settings_api demo_env (\<lambda>_ _. boot_engine) [] []
       = (Inr (app, acceptor), e1) \<and> reachable demo_lib app \<and> set e1 = {acceptor}"
proof -
  let ?cfg = "(Map.empty, demo_settings)"
  have read: "read_settings (boot_files demo_settings) [] = Inr ?cfg"
    by (simp add: read_settings_def boot_files_def)
  have "sa_SessionSettings demo_settings_api ?cfg = demo_settings"
    by (simp add: demo_settings_api_def demo_settings_def)
  then have up: "exchange_start (boot_files demo_settings) demo_settings_api demo_env (\<lambda>_ _. boot_engine) [] []
      = (Inr (demo_start, 1), [1])"
    by (simp add: exchange_start_def read demo_loaded build_and_start_def boot_engine_def)
  show ?thesis
    using exchange_boot [where E = "\<lambda>_ _. boot_engine", OF boot_engine_laws read] up by force
qed

lemma exchange_runs:
  assumes "\<And>app cfg. engine_laws (E app cfg) running left" "exchange_start F S getenv E path e = (Inr (app, i), e1)"
  shows "running e1 = insert i (running e)"
  using assms(2) build_and_start_running(1) [OF assms(1)]
  by (fastforce simp: exchange_start_def split: prod.splits sum.splits option.splits)

lemma dc_runs:
  assumes "\<And>app cfg. engine_laws (E app cfg) running left" "dc_start F S E path host e = (Inr (app, i), e1)"
  shows "running e1 = insert i (running e)"
  using assms(2) build_and_start_running(1) [OF assms(1)]
  by (fastforce simp: dc_start_def Let_def split: prod.splits sum.splits option.splits)

lemma oe_startE:
  assumes "oe_start L F S E opts unixNano now e = (Inr p, e1)"
  obtains app cfg where
    "startLocked (E app cfg) \<lparr>sv_current = None, sv_starts = 0\<rparr> e = (None, pr_supervisor p, e1)"
    "pr_watchdog p = (if 0 < op_watchdog opts
       then Some (Watchdog_Start now (new_watchdog (op_watchdog opts) 0 None)) else None)"
  using assms
  by (auto simp: oe_start_def Supervisor_Start_def Let_def split: prod.splits sum.splits option.splits)

lemma oe_runs:
  assumes "\<And>app cfg. engine_laws (E app cfg) running left" "oe_start L F S E opts unixNano now e = (Inr p, e1)"
    "running e = {}"
  shows "owns running left (pr_supervisor p) e1"
    "map_option Watchdog_Stop (pr_watchdog p) = Some w \<Longrightarrow> wd_live w = []"
proof -
  obtain app cfg where up: "startLocked (E app cfg) \<lparr>sv_current = None, sv_starts = 0\<rparr> e = (None, pr_supervisor p, e1)"
    and wd: "pr_watchdog p = (if 0 < op_watchdog opts
       then Some (Watchdog_Start now (new_watchdog (op_watchdog opts) 0 None)) else None)"
    by (rule oe_startE [OF assms(2)])
  show "owns running left (pr_supervisor p) e1"
    by (rule started_running [OF assms(1) up assms(3)])
  show "map_option Watchdog_Stop (pr_watchdog p) = Some w \<Longrightarrow> wd_live w = []"
    by (auto simp: wd Watchdog_Start_def Watchdog_Stop_def new_watchdog_def split: if_splits)
qed

text \<open>
  From start to stop: a binary that starts where nothing runs leaves nothing running when it
  stops, neither initiator nor acceptor nor watcher. The order-entry client may have replaced
  its initiator any number of times in between, with restarts that failed among them, and of
  those it leaves what a failed \<open>Start\<close> of the engine left.
\<close>

theorem stop_leaves_nothing:
  assumes "\<And>app cfg. engine_laws (XE app cfg) running left" "\<And>app cfg. engine_laws (DE app cfg) running left"
    "\<And>app cfg. engine_laws (OE app cfg) running left" "running e = {}"
  shows "(\<forall>app i e1. exchange_start F S getenv XE path e = (Inr (app, i), e1) \<longrightarrow>
      running (snd (exchange_stop (XE app cfg) shutdown i e1)) = {}) \<and>
    (\<forall>app i e1. dc_start F S DE path host e = (Inr (app, i), e1) \<longrightarrow>
      running (snd (snd (dc_stop (DE app cfg) app' i e1))) = {}) \<and>
    (\<forall>p e1. oe_start L F S OE opts unixNano now e = (Inr p, e1) \<longrightarrow>
      (case supervise (OE (pr_app p) cfg) ops (pr_supervisor p, e1) of (sv, e2) \<Rightarrow>
       case oe_stop (OE (pr_app p) cfg) (p\<lparr>pr_supervisor := sv\<rparr>) e2 of (p', e3) \<Rightarrow>
         running e3 \<subseteq> left e3 \<and> (\<forall>w. pr_watchdog p' = Some w \<longrightarrow> wd_live w = [])))"
proof (intro conjI allI impI)
  fix p :: "_ oe_process" and e1
  let ?E = "OE (pr_app p) cfg" and ?s = "supervise (OE (pr_app p) cfg) ops (pr_supervisor p, e1)"
  assume start: "oe_start L F S OE opts unixNano now e = (Inr p, e1)"
  note oe = oe_runs [OF assms(3) start assms(4)]
  have own: "owns running left (fst ?s) (snd ?s)"
    using oe(1) by (intro owns_supervise [OF assms(3)]) simp
  show "case ?s of (sv, e2) \<Rightarrow> case oe_stop ?E (p\<lparr>pr_supervisor := sv\<rparr>) e2 of (p', e3) \<Rightarrow>
         running e3 \<subseteq> left e3 \<and> (\<forall>w. pr_watchdog p' = Some w \<longrightarrow> wd_live w = [])"
    using owns_stopLocked [OF assms(3)[of "pr_app p" cfg] own] oe(2)
    by (auto simp: oe_stop_def Supervisor_Stop_def owns_def split: prod.splits)
qed (use assms(4) engine_lawsD(4) [OF assms(1)] engine_lawsD(4) [OF assms(2)] in
    \<open>auto simp: exchange_stop_def dc_stop_def dest!: exchange_runs [OF assms(1)] dc_runs [OF assms(2)]\<close>)

theorem stop_leaves_nothing_witness:
  "set (snd (exchange_stop boot_engine None 1 [1])) = {}"
proof -
  let ?cfg = "(Map.empty, demo_settings)"
  have read: "read_settings (boot_files demo_settings) [] = Inr ?cfg"
    by (simp add: read_settings_def boot_files_def)
  have "sa_SessionSettings demo_settings_api ?cfg = demo_settings"
    by (simp add: demo_settings_api_def demo_settings_def)
  then have up: "exchange_start (boot_files demo_settings) demo_settings_api demo_env (\<lambda>_ _. boot_engine) [] []
      = (Inr (demo_start, 1), [1])"
    by (simp add: exchange_start_def read demo_loaded build_and_start_def boot_engine_def)
  have empty: "set [] = {}" by simp
  show ?thesis
    using stop_leaves_nothing [where XE = "\<lambda>_ _. boot_engine" and DE = "\<lambda>(app :: unit DropCopy) cfg. boot_engine" and
        OE = "\<lambda>_ _. boot_engine" and e = "[]" and running = set and left = "\<lambda>_. {}" and shutdown = None,
        OF boot_engine_laws boot_engine_laws boot_engine_laws empty, THEN conjunct1, rule_format, OF up]
    by simp
qed

end
