(* ===== verification/Lifecycle.thy ===== *)
theory Lifecycle
  imports SendProps FeedProps
begin

text \<open>
  One order through all the components: drawn and sent by the order-entry client
  (\<open>internal/client/oe.go\<close>), taken in by the venue (\<open>internal/exchange\<close>), filled by a command,
  reported, and seen by the client.
\<close>

lemma arrived_found:
  assumes "book_inv (app_book a1)" "Orders a1 = xs @ [ord]" "os_ClOrdID ord = i" "log_get i xs = None"
  shows "Get i (app_book a1) = Some ord"
proof -
  have "log_get i (xs @ [ord]) = Some ord"
    using assms(3,4) by (induction xs) (auto simp: log_get_def split: if_splits)
  then show ?thesis using assms(2) book_Get [OF assms(1), of i] by (simp add: Orders_def)
qed

text \<open>
  The life of an order: a client draws a ClOrdID the venue does not know and sends an order
  with it; the venue accepts the message, a fill command on that ClOrdID succeeds, and when
  the client has been handed what the venue sent, its view of the order is: filled, the whole
  quantity executed, nothing left. The venue may have done anything before, except go silent.
\<close>

theorem order_lifecycle:
  assumes "dec_roundtrip L" "dec_reads L" "started a0" "sole KindOrderEntry a0 oe"
    and "venue_run L a0 es a" "EvSilence True \<notin> set es" "kindOf oe a \<noteq> KindDropCopy"
    and "next_ClOrdID c = (i, c1)" "Get i (app_book a) = None"
    and "has_scale 0 (no_OrderQty ord)" "has_scale 2 (no_Price ord)" "0 < no_OrderQty ord"
    and "carries m (new_order_message L now i ord)"
    and "list_all2 carries ms (messages_to oe (snd (Fill L i px (snd (FromApp L m oe a)))))"
  shows "fst (FromApp L m oe a) = None \<and> fst (Fill L i px (snd (FromApp L m oe a))) = None \<and>
    (\<exists>v. OE_Order i (fst (oe_feed L sid ms (NewOrderEntry creds) w)) = Some v \<and>
       ov_OrdStatus v = StatusFilled \<and> ov_CumQty v = no_OrderQty ord \<and> ov_LeavesQty v = 0)"
proof -
  let ?a1 = "snd (FromApp L m oe a)"
  let ?a2 = "snd (Fill L i px ?a1)"
  have a: "reachable L a" using assms(3,5) by (auto simp: reachable_def)
  have "msg_body m = msg_body (new_order_message L now i ord)"
    "msg_header m tagMsgType = msg_header (new_order_message L now i ord) tagMsgType"
    using assms(13) by (simp_all add: carries_def)
  note arrived = order_arrives [OF assms(2) a assms(7,9) this]
  have run: "venue_run L a0 (es @ [EvFromApp m oe, EvFill i px]) ?a2"
    by (rule venue_run_append [OF assms(5)]) simp
  have a1: "reachable L ?a1" by (rule reachable_run [OF a, of "[EvFromApp m oe]"]) simp
  have "log_get i (Orders a) = None"
    using assms(9) book_Get [OF venue_inv_book [OF reachable_inv [OF a]]] by (simp add: Orders_def)
  from arrived_found [OF venue_inv_book [OF reachable_inv [OF a1]] conjunct2 [OF arrived] _ this]
  obtain o1 where o1: "Get i (app_book ?a1) = Some o1" "IsOpen o1" "os_OrderQty o1 = no_OrderQty ord"
    using carried_exact [OF assms(1,10)] by (simp add: IsOpen_def)
  note filled = Fill_result [OF a1, of i px]
  have done1: "fst (Fill L i px ?a1) = None" using filled o1 assms(12) by auto
  with filled obtain o2 where o2: "Get i (app_book ?a2) = Some o2" "os_Status o2 = StatusFilled"
    "os_CumQty o2 = os_OrderQty o2" "LeavesQty o2 = 0" by blast
  have "venue_run L ?a1 [EvFill i px] ?a2" by simp
  from run_Get [OF this reachable_inv [OF a1] o1(1)] o1(3) o2(1)
  have "os_OrderQty o2 = no_OrderQty ord" by (auto simp: order_step_def same_terms_def)
  with o2 assms(10) show ?thesis
    using client_has_book [OF assms(1-4) run _ assms(14), of i sid creds w] arrived done1 assms(6)
    by (auto simp: has_scale_def)
qed

theorem order_lifecycle_witness:
  "\<exists>v. OE_Order ''CL000001'' (fst (oe_feed demo_lib demo_client
       (messages_to demo_oe (snd (Fill demo_lib ''CL000001'' 25
          (snd (FromApp demo_lib (new_order_message demo_lib 0 ''CL000001'' demo_new_order) demo_oe demo_start)))))
       (NewOrderEntry demo_creds) ())) = Some v \<and> ov_OrdStatus v = StatusFilled \<and> ov_CumQty v = 100"
proof -
  let ?c = "NewOrderEntry demo_creds :: unit OrderEntry"
  have draw: "next_ClOrdID ?c = (''CL000001'', ?c\<lparr>oe_seq := 1\<rparr>)"
    by (simp add: next_ClOrdID_def NewOrderEntry_def fmt06_def itoa.simps [of "Suc 0"] digit_char_def
        numeral_eq_Suc)
      (simp add: char_of_def)
  have oe: "sole KindOrderEntry demo_start demo_oe" by (rule demo_roles(1)) (rule refl)
  have kind: "kindOf demo_oe demo_start \<noteq> KindDropCopy" by (simp add: demo_eval)
  have new: "Get ''CL000001'' (app_book demo_start) = None" by (simp add: demo_eval)
  have qty: "0 < no_OrderQty demo_new_order" "no_OrderQty demo_new_order = 100" by (simp_all add: demo_new_order_def)
  show ?thesis
    using order_lifecycle [OF demo_dec_roundtrip demo_dec_reads demo_started oe run_Nil _ kind draw new
        demo_new_order_scale qty(1) carries_refl list.rel_refl, where creds = demo_creds and w = "()" and sid = demo_client and now = 0 and px = 25]
      qty(2) by auto
qed

end
