(* ===== verification/SeqProps.thy ===== *)
theory SeqProps
  imports VenueProps
begin

text \<open>
  The sequence numbers the venue reports (\<open>SeqNums\<close>, \<open>noteSent\<close> and \<open>noteReceived\<close> of
  \<open>internal/exchange/exchange.go\<close>) against the messages that passed: the trace of a run decides
  them.
\<close>

definition wire_number :: "lib \<Rightarrow> message \<Rightarrow> int option" where
  "wire_number L msg = (case GetInt L (msg_header msg) tagMsgSeqNum of Inl _ \<Rightarrow> None | Inr n \<Rightarrow> Some n)"

text \<open>The number of a message received, or sent, on a session.\<close>

fun received :: "lib \<Rightarrow> SessionID \<Rightarrow> event \<Rightarrow> int option" where
  "received L sid (EvFromAdmin msg s) = (if s = sid then wire_number L msg else None)"
| "received L sid (EvFromApp msg s) = (if s = sid then wire_number L msg else None)"
| "received L sid _ = None"

fun sent_out :: "lib \<Rightarrow> SessionID \<Rightarrow> event \<Rightarrow> int option" where
  "sent_out L sid (EvToAdmin msg s) = (if s = sid then wire_number L msg else None)"
| "sent_out L sid (EvToApp msg s) = (if s = sid then wire_number L msg else None)"
| "sent_out L sid _ = None"

definition after_number :: "int \<Rightarrow> int option \<Rightarrow> int" where
  "after_number n x = (case x of None \<Rightarrow> n | Some m \<Rightarrow> m)"

lemma noteSent_seqnums:
  "app_seqnums (noteSent L msg s a) sid =
     (app_seqnums a sid)\<lparr>LastSent := after_number (LastSent (app_seqnums a sid)) (if s = sid then wire_number L msg else None)\<rparr>"
  by (simp add: noteSent_def wire_number_def after_number_def split: sum.split)

lemma noteReceived_seqnums:
  "app_seqnums (noteReceived L msg s a) sid =
     (app_seqnums a sid)\<lparr>LastReceived := after_number (LastReceived (app_seqnums a sid)) (if s = sid then wire_number L msg else None)\<rparr>"
  by (simp add: noteReceived_def wire_number_def after_number_def split: sum.split)

lemma cancel_loop_seqnums: "app_seqnums (cancel_loop L t xs a) = app_seqnums a"
  by (induction L t xs a rule: cancel_loop.induct) (simp_all split: prod.split sum.split)

lemma seqnums_frame:
  "app_seqnums (snd (Partial L i q p a)) = app_seqnums a" "app_seqnums (snd (Fill L i p a)) = app_seqnums a"
  "app_seqnums (snd (Cancel L i t a)) = app_seqnums a" "app_seqnums (snd (Reject L i t a)) = app_seqnums a"
  "app_seqnums (snd (CancelAllOpenDay L t a)) = app_seqnums a" "app_seqnums (run_timer L k a) = app_seqnums a"
  "app_seqnums (OnLogon s a) = app_seqnums a" "app_seqnums (OnLogout s a) = app_seqnums a"
  "app_seqnums (snd (onNewOrderSingle L msg s a)) = app_seqnums a"
proof -
  show partial: "app_seqnums (snd (Partial L i q p a)) = app_seqnums a" for q
    by (simp add: Partial_unfold Let_def split: sum.split)
  show "app_seqnums (snd (Fill L i p a)) = app_seqnums a"
    by (simp add: Fill_def partial split: option.split)
  show "app_seqnums (snd (Cancel L i t a)) = app_seqnums a" "app_seqnums (snd (Reject L i t a)) = app_seqnums a"
    by (simp_all add: Cancel_def Reject_def split: prod.split sum.split)
  show "app_seqnums (snd (CancelAllOpenDay L t a)) = app_seqnums a" "app_seqnums (run_timer L k a) = app_seqnums a"
    by (simp_all add: CancelAllOpenDay_def run_timer_def cod_expire_def cancel_loop_seqnums Let_def)
  show "app_seqnums (OnLogon s a) = app_seqnums a" "app_seqnums (OnLogout s a) = app_seqnums a"
    by (simp_all add: OnLogon_def OnLogout_def onSessionLost_def Let_def split: option.split)
  show "app_seqnums (snd (onNewOrderSingle L msg s a)) = app_seqnums a"
    by (auto simp: onNewOrderSingle_eq split: sum.split prod.split option.split)
qed

lemma FromAdmin_seqnums: "app_seqnums (snd (FromAdmin L msg s a)) = app_seqnums (noteReceived L msg s a)"
  by (auto simp: FromAdmin_def Let_def split: sum.split option.split)

lemma FromApp_seqnums: "app_seqnums (snd (FromApp L msg s a)) = app_seqnums (noteReceived L msg s a)"
  using FromApp_cases [of L msg s a] by (auto simp: seqnums_frame)

lemma handle_seqnums:
  "app_seqnums (handle L e a) sid =
     \<lparr>LastSent = after_number (LastSent (app_seqnums a sid)) (sent_out L sid e),
      LastReceived = after_number (LastReceived (app_seqnums a sid)) (received L sid e)\<rparr>"
  by (cases e) (simp_all add: seqnums_frame FromAdmin_seqnums FromApp_seqnums noteSent_seqnums noteReceived_seqnums
      ToAdmin_def ToApp_def SetSilenced_def SetRejectLogons_def after_number_def)

text \<open>
  C39. The numbers the venue shows for a session are those of the messages that passed: after any
  run, \<open>LastSent\<close> is the MsgSeqNum of the last message that was handed to the engine for that
  session and had a readable one, and \<open>LastReceived\<close> that of the last one received on it; with no
  such message they are as before. Other sessions, commands, timers and refused messages do not
  change them.
\<close>

theorem seqnums_observed:
  assumes "venue_run L a es b"
  shows "LastSent (app_seqnums b sid) = last (LastSent (app_seqnums a sid) # List.map_filter (sent_out L sid) es) \<and>
    LastReceived (app_seqnums b sid) = last (LastReceived (app_seqnums a sid) # List.map_filter (received L sid) es)"
  using assms
proof (induction rule: venue_run.induct)
  case (run_Cons e a es b)
  then show ?case
    by (auto simp: handle_seqnums after_number_def List.map_filter_simps split: option.split)
qed (simp add: List.map_filter_simps)

theorem seqnums_observed_witness:
  "LastReceived (app_seqnums (run_events demo_lib [EvFromAdmin demo_logon demo_oe, EvLogon demo_oe,
     EvFromApp (demo_order ''C1'' ''0'') demo_oe, EvFill ''C1'' 25] demo_start) demo_oe) = 2"
proof -
  let ?es = "[EvFromAdmin demo_logon demo_oe, EvLogon demo_oe, EvFromApp (demo_order ''C1'' ''0'') demo_oe, EvFill ''C1'' 25]"
  have "venue_run demo_lib demo_start ?es (run_events demo_lib ?es demo_start)"
    by (rule venue_run_events) simp
  moreover have "wire_number demo_lib demo_logon = Some 1" "wire_number demo_lib (demo_order ''C1'' ''0'') = Some 2"
    by (simp_all add: wire_number_def demo_eval)
  ultimately show ?thesis
    using seqnums_observed [of demo_lib demo_start ?es _ demo_oe] by (simp add: List.map_filter_simps)
qed

end
