(* ===== verification/Phases.thy ===== *)
theory Phases
  imports Handlers
begin

text \<open>
  The phases of an order (\<open>OrdStatus\<close> in \<open>internal/exchange/book.go\<close>, the tag 39 of the reports)
  as an ordered type: the abstract state machine the venue promises, new, partially filled any
  number of times, then filled, canceled or rejected for good. The statuses a session is sent
  of one order are a path of it.
\<close>

datatype order_phase = PhaseNew | PhasePartial | PhaseFilled | PhaseCanceled | PhaseRejected

fun phase_rank :: "order_phase \<Rightarrow> nat" where
  "phase_rank PhaseNew = 0"
| "phase_rank PhasePartial = 1"
| "phase_rank _ = 2"

instantiation order_phase :: order
begin

definition less_eq_order_phase :: "order_phase \<Rightarrow> order_phase \<Rightarrow> bool" where
  "p \<le> q \<longleftrightarrow> p = q \<or> phase_rank p < phase_rank q"

definition less_order_phase :: "order_phase \<Rightarrow> order_phase \<Rightarrow> bool" where
  "p < q \<longleftrightarrow> phase_rank p < phase_rank q"

instance
proof
  fix p q r :: order_phase
  show "p < q \<longleftrightarrow> p \<le> q \<and> \<not> q \<le> p" by (auto simp: less_eq_order_phase_def less_order_phase_def)
  show "p \<le> p" by (simp add: less_eq_order_phase_def)
  show "p \<le> q \<Longrightarrow> q \<le> r \<Longrightarrow> p \<le> r" by (auto simp: less_eq_order_phase_def)
  show "p \<le> q \<Longrightarrow> q \<le> p \<Longrightarrow> p = q" by (auto simp: less_eq_order_phase_def)
qed

end

definition phase_of :: "string \<Rightarrow> order_phase option" where
  "phase_of s =
     (if s = StatusNew then Some PhaseNew
      else if s = StatusPartiallyFilled then Some PhasePartial
      else if s = StatusFilled then Some PhaseFilled
      else if s = StatusCanceled then Some PhaseCanceled
      else if s = StatusRejected then Some PhaseRejected
      else None)"

text \<open>One report after another: a later phase, or one more partial fill.\<close>

inductive follows :: "order_phase \<Rightarrow> order_phase \<Rightarrow> bool" where
  follows_later: "p < q \<Longrightarrow> follows p q"
| follows_partial: "follows PhasePartial PhasePartial"

inductive_simps follows_simps [simp]: "follows p q"

definition phase_trace :: "string \<Rightarrow> message list \<Rightarrow> order_phase option list" where
  "phase_trace i ms = map (\<lambda>m. Option.bind (msg_body m tagOrdStatus) phase_of)
     (filter (\<lambda>m. msg_body m tagClOrdID = Some i) ms)"

subsection \<open>The invariant\<close>

definition path_to :: "order_phase option list \<Rightarrow> OrderState option \<Rightarrow> bool" where
  "path_to tr found \<longleftrightarrow>
     (case found of
        None \<Rightarrow> tr = []
      | Some ord \<Rightarrow> \<exists>ps c. tr = map Some ps \<and> phase_of (os_Status ord) = Some c \<and>
          sorted_wrt follows ps \<and> (\<forall>p \<in> set ps. p \<le> c))"

definition phased :: "App \<Rightarrow> bool" where
  "phased a \<longleftrightarrow> book_inv (app_book a) \<and> distinct (map fst (app_kinds a)) \<and>
     (\<forall>sid i. path_to (phase_trace i (messages_to sid a)) (Get i (app_book a)))"

lemma phase_trace_append:
  "phase_trace i (ms @ [m]) = phase_trace i ms @
     (if msg_body m tagClOrdID = Some i then [Option.bind (msg_body m tagOrdStatus) phase_of] else [])"
  by (simp add: phase_trace_def)

lemma phase_of_statuses [simp]:
  "phase_of StatusNew = Some PhaseNew" "phase_of StatusPartiallyFilled = Some PhasePartial"
  "phase_of StatusFilled = Some PhaseFilled" "phase_of StatusCanceled = Some PhaseCanceled"
  "phase_of StatusRejected = Some PhaseRejected"
  by (simp_all add: phase_of_def venue_consts)

lemmas phase_order_defs = less_eq_order_phase_def less_order_phase_def

lemma moves_phase:
  assumes "moves t (Some ord) ord'"
  obtains c n where "phase_of (os_Status ord) = Some c" "phase_of (os_Status ord') = Some n" "follows c n" "c \<le> n"
proof -
  have "phase_of (os_Status ord) = Some PhaseNew \<or> phase_of (os_Status ord) = Some PhasePartial"
    using assms by (auto simp: moves_def IsOpen_def)
  moreover have "phase_of (os_Status ord') \<in> {Some PhasePartial, Some PhaseFilled, Some PhaseCanceled, Some PhaseRejected}"
    using assms by (auto simp: moves_def)
  ultimately show ?thesis using that by (auto simp: phase_order_defs)
qed

lemma follows_trans: "p \<le> c \<Longrightarrow> follows c n \<Longrightarrow> follows p n"
  by (auto simp: phase_order_defs)

text \<open>A move leads on, whether its report is sent or not.\<close>

lemma path_to_move:
  assumes "path_to tr found" "moves t found ord'" "s = os_Status ord'"
  shows "path_to (tr @ [phase_of s]) (Some ord')" "path_to tr (Some ord')"
proof -
  have "path_to (tr @ [phase_of s]) (Some ord') \<and> path_to tr (Some ord')"
  proof (cases found)
    case None
    then have "phase_of s = Some PhaseNew" "tr = []" using assms by (simp_all add: moves_def path_to_def)
    then show ?thesis
      unfolding path_to_def using assms(3) by (auto intro!: exI [of _ "[PhaseNew]"])
  next
    case (Some ord)
    obtain ps c where ps: "tr = map Some ps" "phase_of (os_Status ord) = Some c" "sorted_wrt follows ps" "\<forall>p \<in> set ps. p \<le> c"
      using assms(1) Some by (auto simp: path_to_def)
    obtain c' n where "phase_of (os_Status ord) = Some c'" and n: "phase_of (os_Status ord') = Some n" "follows c' n" "c' \<le> n"
      using moves_phase assms(2) Some by metis
    with ps(2) have "follows c n" "c \<le> n" by auto
    then have all: "\<forall>p \<in> set ps. follows p n" "\<forall>p \<in> set ps. p \<le> n"
      using ps(4) follows_trans order_trans by blast+
    have "path_to (map Some (ps @ [n])) (Some ord')"
      unfolding path_to_def option.case
      by (intro exI [of _ "ps @ [n]"] exI [of _ n]) (use n ps all in \<open>simp add: sorted_wrt_append del: follows_simps\<close>)
    moreover have "path_to (map Some ps) (Some ord')"
      unfolding path_to_def option.case by (intro exI [of _ ps] exI [of _ n]) (use n ps all in simp)
    ultimately show ?thesis using ps(1) n(1) assms(3) by simp
  qed
  then show "path_to (tr @ [phase_of s]) (Some ord')" "path_to tr (Some ord')" by simp_all
qed

lemma phased_publish:
  assumes "phased a" "book_inv b"
    and "moves (rp_execType r) (Get (os_ClOrdID (rp_order r)) (app_book a)) (rp_order r)"
    and "Get (os_ClOrdID (rp_order r)) b = Some (rp_order r)"
    and "\<And>j. j \<noteq> os_ClOrdID (rp_order r) \<Longrightarrow> Get j b = Get j (app_book a)"
  shows "phased (publish L r (a\<lparr>app_book := b\<rparr>))"
proof -
  let ?a = "publish L r (a\<lparr>app_book := b\<rparr>)" and ?id = "os_ClOrdID (rp_order r)"
  let ?m = "next_message L r (a\<lparr>app_book := b\<rparr>)"
  have m: "msg_body ?m tagClOrdID = Some ?id" "msg_body ?m tagOrdStatus = Some (os_Status (rp_order r))"
    by (simp_all add: next_message_def build_body)
  have "path_to (phase_trace i (messages_to sid ?a)) (Get i b)" for sid i
  proof -
    have old: "path_to (phase_trace i (messages_to sid a)) (Get i (app_book a))"
      using assms(1) by (simp add: phased_def)
    have "\<not> (sessionOf n KindOrderEntry a = Some sid \<and> sessionOf m KindDropCopy a = Some sid)" for n m
      using sessionOf_distinct [of a n sid m sid] assms(1) by (auto simp: phased_def)
    then have "messages_to sid ?a = messages_to sid a \<or> messages_to sid ?a = messages_to sid a @ [?m]"
      by (auto simp: messages_to_publish)
    then have trace: "phase_trace i (messages_to sid ?a) = phase_trace i (messages_to sid a) \<or>
        i = ?id \<and> phase_trace i (messages_to sid ?a) = phase_trace i (messages_to sid a) @ [phase_of (os_Status (rp_order r))]"
      by (cases "i = ?id") (auto simp: phase_trace_append m)
    show ?thesis
    proof (cases "i = ?id")
      case True
      then show ?thesis
        using trace path_to_move [OF old] assms(3,4) by (metis (no_types))
    next
      case False
      then show ?thesis using trace old assms(5) by simp
    qed
  qed
  then show ?thesis using assms(1,2) by (simp add: phased_def)
qed

lemma phased_book: "phased a \<Longrightarrow> book_inv (app_book a)"
  by (simp add: phased_def)

lemma phased_same:
  assumes "phased a" "book_inv (app_book a')" "\<And>i. Get i (app_book a') = Get i (app_book a)"
    and "app_kinds a' = app_kinds a" "app_outbox a' = app_outbox a"
  shows "phased a'"
  using assms by (simp add: phased_def messages_to_def)

interpretation phases: venue_closed L phased "\<lambda>_. True" for L
proof
  fix a a' :: App
  assume "phased a" "book_inv (app_book a')" "\<And>i. Get i (app_book a') = Get i (app_book a)"
    "app_kinds a' = app_kinds a" "app_outbox a' = app_outbox a"
  then show "phased a'" by (rule phased_same)
next
  fix a v
  assume "phased a"
  then show "phased (SetSilenced v a)"
    by (rule phased_same) (use \<open>phased a\<close> in \<open>simp_all add: SetSilenced_def phased_def\<close>)
qed (blast intro: phased_book phased_publish)+

text \<open>
  C9. The statuses a session is sent of one order, in the order they are sent, are a path of the
  order's state machine: each report is of a later phase than all before it, with one exception,
  a further partial fill; so nothing follows a fill, a cancel or a reject, and \<open>new\<close> comes once
  and first. It holds for every session, whatever the venue is commanded to do, with silences in between too.
\<close>

theorem statuses_are_a_path:
  assumes "reachable L a"
  shows "\<exists>ps. phase_trace i (messages_to sid a) = map Some ps \<and> sorted_wrt follows ps"
proof -
  obtain a0 es where a0: "started a0" and run: "venue_run L a0 es a" using assms(1) by (auto simp: reachable_def)
  obtain getenv settings where "LoadKinds getenv settings (New NewBook) = (None, a0)"
    using a0 by (auto simp: started_def)
  from LoadKinds_frame [OF this] have "app_book a0 = NewBook" "app_outbox a0 = []" by (simp_all add: New_def)
  moreover have "book_inv (app_book a0)" "distinct (map fst (app_kinds a0))"
    using reachable_inv [OF started_reachable [OF a0]] by (auto simp: venue_inv_def book_ok_def sent_ok_def)
  moreover have "Get i NewBook = None" for i by (simp add: Get_def NewBook_def)
  ultimately have "phased a0" by (simp add: phased_def messages_to_def phase_trace_def path_to_def)
  then have "phased a" using phases.closed_run [OF run] by simp
  then have "path_to (phase_trace i (messages_to sid a)) (Get i (app_book a))"
    by (simp add: phased_def)
  then show ?thesis by (auto simp: path_to_def split: option.splits)
qed

theorem statuses_are_a_path_witness:
  "\<exists>ps. phase_trace ''C1'' (messages_to demo_dc (run_events demo_lib [EvFromApp (demo_order ''C1'' ''0'') demo_oe,
      EvPartial ''C1'' 30 25, EvSilence True, EvPartial ''C1'' 20 25, EvSilence False, EvFill ''C1'' 26] demo_start))
     = map Some ps \<and> sorted_wrt follows ps \<and> ps = [PhaseNew, PhasePartial, PhaseFilled]"
proof -
  let ?es = "[EvFromApp (demo_order ''C1'' ''0'') demo_oe, EvPartial ''C1'' 30 25, EvSilence True,
    EvPartial ''C1'' 20 25, EvSilence False, EvFill ''C1'' 26]"
  let ?a = "run_events demo_lib ?es demo_start"
  have "reachable demo_lib ?a" by (rule demo_reachable) simp
  then obtain ps where ps: "phase_trace ''C1'' (messages_to demo_dc ?a) = map Some ps" "sorted_wrt follows ps"
    using statuses_are_a_path by blast
  have "phase_trace ''C1'' (messages_to demo_dc ?a) = map Some [PhaseNew, PhasePartial, PhaseFilled]"
    by (simp add: demo_eval SetSilenced_def phase_trace_def messages_to_def buildExecutionReport_def phase_of_def)
  then show ?thesis using ps by auto
qed

end
