(* ===== verification/Teardown.thy ===== *)
theory Teardown
  imports Boot
begin

text \<open>
  The end of the order-entry binary while its watchdog is at work (\<open>cmd/oe-client/main.go\<close>,
  \<open>internal/session/watchdog.go\<close>, \<open>internal/session/supervisor.go\<close>). Three goroutines move:
  the main one runs the deferred calls, \<open>Watchdog.Stop\<close> (its locked region, the closing of
  \<open>stopping\<close>, the wait for \<open>stopped\<close>) and then \<open>Supervisor.Stop\<close>; the watcher selects between
  \<open>stopping\<close> and the ticker, and a tick decides under the watchdog's lock and restarts, without
  it, under the supervisor's; the engine's one notifies the watchdog of application messages.
  A step is one of these regions, and a run is any list of steps that can be taken.
\<close>

datatype main_pc = Serving | ClosingWatch | JoiningWatch | StoppingInitiator | Ended

datatype watcher_pc = Selecting | Restarting | Exited

record ('i, 'e) teardown =
  td_main :: main_pc
  td_watcher :: watcher_pc
  td_closed :: bool
  td_watchdog :: "Watchdog option"
  td_supervisor :: "'i Supervisor"
  td_engine :: 'e

definition teardown_start :: "'i oe_process \<Rightarrow> 'e \<Rightarrow> ('i, 'e) teardown" where
  "teardown_start p e =
     \<lparr>td_main = Serving, td_watcher = (if pr_watchdog p = None then Exited else Selecting),
      td_closed = False, td_watchdog = pr_watchdog p, td_supervisor = pr_supervisor p, td_engine = e\<rparr>"

datatype teardown_step =
    StopWatch
  | CloseStopping
  | WatchStopped
  | StopInitiator
  | WatcherExits
  | Tick_at int
  | RestartNow
  | Message_at int

text \<open>Whether a tick decides to reconnect: what \<open>check\<close> does before it calls \<open>Restart\<close>.\<close>

definition decide :: "int \<Rightarrow> Watchdog \<Rightarrow> Watchdog \<times> bool" where
  "decide now w = (let w1 = fst (check None now w ()) in (w1, Fired w1 \<noteq> Fired w))"

fun teardown_act ::
  "('i, 'e) engine \<Rightarrow> teardown_step \<Rightarrow> ('i, 'e) teardown \<Rightarrow> ('i, 'e) teardown option" where
  "teardown_act E StopWatch s =
     (if td_main s \<noteq> Serving then None
      else case td_watchdog s of
             None \<Rightarrow> Some (s\<lparr>td_main := StoppingInitiator\<rparr>)
           | Some w \<Rightarrow>
               if wd_stopping w = None then Some (s\<lparr>td_main := StoppingInitiator\<rparr>)
               else Some (s\<lparr>td_main := ClosingWatch, td_watchdog := Some (w\<lparr>wd_stopping := None\<rparr>)\<rparr>))"
| "teardown_act E CloseStopping s =
     (if td_main s = ClosingWatch then Some (s\<lparr>td_main := JoiningWatch, td_closed := True\<rparr>) else None)"
| "teardown_act E WatchStopped s =
     (if td_main s = JoiningWatch \<and> td_watcher s = Exited then Some (s\<lparr>td_main := StoppingInitiator\<rparr>) else None)"
| "teardown_act E StopInitiator s =
     (if td_main s = StoppingInitiator
      then case Supervisor_Stop E (td_supervisor s) (td_engine s) of
             (sv, e) \<Rightarrow> Some (s\<lparr>td_main := Ended, td_supervisor := sv, td_engine := e\<rparr>)
      else None)"
| "teardown_act E WatcherExits s =
     (if td_watcher s = Selecting \<and> td_closed s then Some (s\<lparr>td_watcher := Exited\<rparr>) else None)"
| "teardown_act E (Tick_at now) s =
     (case td_watchdog s of
        None \<Rightarrow> None
      | Some w \<Rightarrow>
          if td_watcher s \<noteq> Selecting then None
          else case decide now w of
                 (w1, fires) \<Rightarrow> Some (s\<lparr>td_watchdog := Some w1,
                                         td_watcher := (if fires then Restarting else Selecting)\<rparr>))"
| "teardown_act E RestartNow s =
     (if td_watcher s \<noteq> Restarting then None
      else case Restart E (td_supervisor s) (td_engine s) of
             (_, sv, e) \<Rightarrow> Some (s\<lparr>td_watcher := Selecting, td_supervisor := sv, td_engine := e\<rparr>))"
| "teardown_act E (Message_at now) s = Some (s\<lparr>td_watchdog := map_option (Notify now) (td_watchdog s)\<rparr>)"

fun teardown_run ::
  "('i, 'e) engine \<Rightarrow> teardown_step list \<Rightarrow> ('i, 'e) teardown \<Rightarrow> ('i, 'e) teardown option" where
  "teardown_run E [] s = Some s"
| "teardown_run E (x # xs) s = Option.bind (teardown_act E x s) (teardown_run E xs)"

subsection \<open>The steps and the atomic model\<close>

text \<open>A tick and the restart it decides on are one call of \<open>check\<close>.\<close>

lemma decide_check:
  "check (Some f) now w r = (let (w1, fires) = decide now w in (w1, if fires then snd (f r) else r))"
  by (auto simp: decide_def check_def Fired_def Let_def split: option.split)

text \<open>Left alone, the deferred calls do what \<open>oe_stop\<close> does to the supervisor and the engine.\<close>

lemma teardown_alone:
  assumes "pr_watchdog p = Some w" "wd_stopping w \<noteq> None" "oe_stop E p e = (p', e')"
  shows "teardown_run E [StopWatch, CloseStopping, WatcherExits, WatchStopped, StopInitiator] (teardown_start p e) =
    Some \<lparr>td_main = Ended, td_watcher = Exited, td_closed = True, td_watchdog = Some (w\<lparr>wd_stopping := None\<rparr>),
      td_supervisor = pr_supervisor p', td_engine = e'\<rparr>"
  using assms by (auto simp: teardown_start_def oe_stop_def Let_def split: prod.splits)

subsection \<open>The invariant\<close>

text \<open>
  The supervisor's initiator runs, and nothing else but what a failed start left; once the main goroutine is past its wait the
  watcher has exited; at the end the supervisor holds none.
\<close>

definition teardown_inv :: "('e \<Rightarrow> 'i set) \<Rightarrow> ('e \<Rightarrow> 'i set) \<Rightarrow> ('i, 'e) teardown \<Rightarrow> bool" where
  "teardown_inv running left s \<longleftrightarrow>
     owns running left (td_supervisor s) (td_engine s) \<and>
     (case td_main s of
        Serving \<Rightarrow> (case td_watchdog s of None \<Rightarrow> td_watcher s = Exited | Some w \<Rightarrow> wd_stopping w \<noteq> None)
      | ClosingWatch \<Rightarrow> True
      | JoiningWatch \<Rightarrow> td_closed s
      | StoppingInitiator \<Rightarrow> td_watcher s = Exited
      | Ended \<Rightarrow> td_watcher s = Exited \<and> sv_current (td_supervisor s) = None)"

lemma wd_stopping_kept [simp]:
  "wd_stopping (Notify t w) = wd_stopping w" "wd_stopping (fst (check f t w r)) = wd_stopping w"
  by (auto simp: Notify_def check_fires)

lemma owns_Restart:
  assumes "engine_laws E running left" "owns running left s e"
  shows "owns running left (fst (snd (Restart E s e))) (snd (snd (Restart E s e)))"
  using owns_startLocked [OF assms(1) owns_stopLocked(1) [OF assms]]
  by (simp add: Restart_def case_prod_beta)

lemma teardown_inv_act:
  assumes "engine_laws E running left" "teardown_inv running left s" "teardown_act E x s = Some s'"
  shows "teardown_inv running left s'"
proof (cases x)
  case StopInitiator
  then show ?thesis
    using assms owns_stopLocked [OF assms(1), of "td_supervisor s" "td_engine s"]
    by (auto simp: teardown_inv_def Supervisor_Stop_def split: prod.splits if_splits)
next
  case RestartNow
  have "td_main s \<noteq> StoppingInitiator \<and> td_main s \<noteq> Ended"
    using assms(2,3) RestartNow by (auto simp: teardown_inv_def split: if_splits)
  then show ?thesis
    using assms RestartNow owns_Restart [OF assms(1), of "td_supervisor s" "td_engine s"]
    by (auto simp: teardown_inv_def split: prod.splits if_splits main_pc.splits option.splits)
next
  case StopWatch
  then show ?thesis
    using assms(2,3) by (cases "td_watchdog s") (auto simp: teardown_inv_def split: if_splits)
next
  case CloseStopping
  then show ?thesis using assms(2,3) by (auto simp: teardown_inv_def split: if_splits)
next
  case WatchStopped
  then show ?thesis using assms(2,3) by (auto simp: teardown_inv_def split: if_splits)
next
  case WatcherExits
  then show ?thesis
    using assms(2,3) by (cases "td_main s"; cases "td_watchdog s") (auto simp: teardown_inv_def split: if_splits)
next
  case (Tick_at now)
  then obtain w where w: "td_watchdog s = Some w" "td_watcher s = Selecting"
    using assms(3) by (auto split: option.splits if_splits)
  have "wd_stopping (fst (decide now w)) = wd_stopping w" by (simp add: decide_def Let_def)
  then show ?thesis
    using assms(2,3) Tick_at w by (cases "td_main s") (auto simp: teardown_inv_def split: prod.splits)
next
  case (Message_at now)
  then show ?thesis
    using assms(2,3) by (cases "td_main s"; cases "td_watchdog s") (auto simp: teardown_inv_def)
qed

lemma teardown_inv_run:
  "teardown_run E xs s = Some s' \<Longrightarrow> engine_laws E running left \<Longrightarrow> teardown_inv running left s \<Longrightarrow> teardown_inv running left s'"
proof (induction xs arbitrary: s)
  case (Cons x xs)
  then obtain s1 where "teardown_act E x s = Some s1" "teardown_run E xs s1 = Some s'"
    by (auto split: bind_splits)
  then show ?case using Cons.IH teardown_inv_act [OF Cons.prems(2,3)] Cons.prems(2) by blast
qed simp

lemma teardown_inv_start:
  assumes "owns running left (pr_supervisor p) e" "oe_start L F S OE opts unixNano now e0 = (Inr p, e1)"
  shows "teardown_inv running left (teardown_start p e)"
proof -
  have "pr_watchdog p = (if 0 < op_watchdog opts
      then Some (Watchdog_Start now (new_watchdog (op_watchdog opts) 0 None)) else None)"
    by (rule oe_startE [OF assms(2)])
  then have "case pr_watchdog p of None \<Rightarrow> True | Some w \<Rightarrow> wd_stopping w \<noteq> None"
    by (simp add: Watchdog_Start_def)
  then show ?thesis using assms(1)
    by (cases "pr_watchdog p") (simp_all add: teardown_inv_def teardown_start_def)
qed

lemma teardown_over: "td_main s = Ended \<Longrightarrow> td_watcher s = Exited \<Longrightarrow> teardown_run E ys s = Some s' \<Longrightarrow>
    td_engine s' = td_engine s \<and> td_main s' = Ended \<and> td_watcher s' = Exited"
proof (induction ys arbitrary: s)
  case (Cons y ys)
  then obtain s1 where s1: "teardown_act E y s = Some s1" "teardown_run E ys s1 = Some s'"
    by (auto split: bind_splits)
  have "td_engine s1 = td_engine s \<and> td_main s1 = Ended \<and> td_watcher s1 = Exited"
    using s1(1) Cons.prems(1,2) by (cases y) (auto split: option.splits if_splits)
  then show ?case using Cons.IH [of s1] s1(2) by simp
qed simp

subsection \<open>Properties\<close>

text \<open>
  C22. However the main goroutine, the watcher and the engine interleave, when the process has come
  to its end no initiator runs, but what a failed \<open>Start\<close> of the engine left if there was one, the
  watcher has exited, and no step that remains starts an initiator again: the deferred \<open>Watchdog.Stop\<close> comes first and waits for the watcher, so that no reconnect
  can follow \<open>Supervisor.Stop\<close>.
\<close>

theorem teardown_leaves_nothing:
  assumes "\<And>app cfg. engine_laws (OE app cfg) running left" "running e = {}"
    "oe_start L F S OE opts unixNano now e = (Inr p, e1)"
    "teardown_run (OE app cfg) xs (teardown_start p e1) = Some s" "td_main s = Ended"
    "teardown_run (OE app cfg) ys s = Some s'"
  shows "running (td_engine s') \<subseteq> left (td_engine s') \<and> td_watcher s' = Exited"
proof -
  have "owns running left (pr_supervisor p) e1" by (rule oe_runs(1) [OF assms(1,3,2)])
  then have "teardown_inv running left (teardown_start p e1)"
    by (rule teardown_inv_start [OF _ assms(3)])
  then have "teardown_inv running left s" by (rule teardown_inv_run [OF assms(4,1)])
  then have "td_watcher s = Exited" "running (td_engine s) \<subseteq> left (td_engine s)"
    using assms(5) by (auto simp: teardown_inv_def owns_def)
  then show ?thesis using teardown_over [OF assms(5) _ assms(6)] by simp
qed

text \<open>A process that came up with a watchdog of 30 seconds, and an end in the middle of a reconnect.\<close>

definition watched_options :: options where
  "watched_options = boot_options\<lparr>op_watchdog := 30000000000\<rparr>"

definition demo_process :: "(boot_error + nat oe_process) \<times> nat list" where
  "demo_process = oe_start demo_lib (boot_files [(demo_client, Map.empty)]) demo_settings_api (\<lambda>_ _. boot_engine)
     watched_options 0 0 []"

lemma demo_process_up:
  "\<exists>p. demo_process = (Inr p, [1]) \<and> pr_supervisor p = \<lparr>sv_current = Some 1, sv_starts = 1\<rparr> \<and>
     pr_watchdog p = Some (Watchdog_Start 0 (new_watchdog 30000000000 0 None))"
  by (simp add: demo_process_def oe_start_def read_settings_def boot_files_def OverrideConnectHost_def
      SoleSession_def demo_settings_api_def watched_options_def boot_options_def demo_eval
      Supervisor_Start_def startLocked_def boot_engine_def)

definition demo_end :: "teardown_step list" where
  "demo_end = [Tick_at 30000000000, StopWatch, RestartNow, CloseStopping, WatcherExits, WatchStopped, StopInitiator]"

lemma demo_end_run:
  assumes "pr_supervisor p = \<lparr>sv_current = Some 1, sv_starts = 1\<rparr>"
    "pr_watchdog p = Some (Watchdog_Start 0 (new_watchdog 30000000000 0 None))"
  shows "\<exists>s. teardown_run boot_engine demo_end (teardown_start p [1]) = Some s \<and> td_main s = Ended"
  by (simp add: demo_end_def teardown_start_def assms decide_def check_def Watchdog_Start_def new_watchdog_def
      Fired_def Restart_def stopLocked_def startLocked_def boot_engine_def Supervisor_Stop_def)

theorem teardown_leaves_nothing_witness:
  "\<exists>p s. demo_process = (Inr p, [1]) \<and> teardown_run boot_engine demo_end (teardown_start p [1]) = Some s \<and>
     td_engine s = [] \<and> td_watcher s = Exited"
proof -
  obtain p where p: "demo_process = (Inr p, [1])" "pr_supervisor p = \<lparr>sv_current = Some 1, sv_starts = 1\<rparr>"
    "pr_watchdog p = Some (Watchdog_Start 0 (new_watchdog 30000000000 0 None))"
    using demo_process_up by blast
  obtain s where s: "teardown_run boot_engine demo_end (teardown_start p [1]) = Some s" "td_main s = Ended"
    using demo_end_run [OF p(2,3)] by blast
  have "teardown_run boot_engine [] s = Some s" by simp
  note over = teardown_leaves_nothing [where OE = "\<lambda>_ _. boot_engine" and running = set and left = "\<lambda>_. {}" and e = "[]",
      OF boot_engine_laws _ p(1) [unfolded demo_process_def] s this]
  have "set [] = {}" by simp
  from over [OF this] show ?thesis using p(1) s(1) by (intro exI [of _ p] exI [of _ s]) simp
qed

text \<open>
  C23. The end is never blocked: from wherever the three goroutines are once the main one has begun
  to stop, at most five of their steps, no tick among them, bring the process to its end, even if
  the watcher is in the middle of a reconnect.
\<close>

theorem teardown_can_end:
  assumes "engine_laws E running left" "owns running left (pr_supervisor p) e"
    "oe_start L F S OE opts unixNano now e0 = (Inr p, e1)"
    "teardown_run E xs (teardown_start p e) = Some s" "td_main s \<noteq> Serving"
  shows "\<exists>ys s'. length ys \<le> 5 \<and> teardown_run E ys s = Some s' \<and> td_main s' = Ended \<and>
    list_all (\<lambda>y. case y of Tick_at _ \<Rightarrow> False | Message_at _ \<Rightarrow> False | _ \<Rightarrow> True) ys"
proof -
  have "teardown_inv running left (teardown_start p e)"
    by (rule teardown_inv_start [OF assms(2,3)])
  then have inv: "teardown_inv running left s" by (rule teardown_inv_run [OF assms(4,1)])
  let ?quiet = "list_all (\<lambda>y. case y of Tick_at _ \<Rightarrow> False | Message_at _ \<Rightarrow> False | _ \<Rightarrow> True)"
  have stop: "\<exists>s2. teardown_run E [StopInitiator] s1 = Some s2 \<and> td_main s2 = Ended"
    if "td_main s1 = StoppingInitiator" for s1
    using that by (auto split: prod.split)
  have join: "\<exists>ys s2. length ys \<le> 4 \<and> ?quiet ys \<and> teardown_run E ys s1 = Some s2 \<and> td_main s2 = Ended"
    if "td_main s1 = JoiningWatch" "td_closed s1" for s1
  proof (cases "td_watcher s1")
    case Selecting
    then show ?thesis using that
      by (intro exI [of _ "[WatcherExits, WatchStopped, StopInitiator]"]) (auto split: prod.split)
  next
    case Restarting
    then show ?thesis using that
      by (intro exI [of _ "[RestartNow, WatcherExits, WatchStopped, StopInitiator]"]) (auto split: prod.split)
  next
    case Exited
    then show ?thesis using that
      by (intro exI [of _ "[WatchStopped, StopInitiator]"]) (auto split: prod.split)
  qed
  show ?thesis
  proof (cases "td_main s")
    case ClosingWatch
    let ?s1 = "s\<lparr>td_main := JoiningWatch, td_closed := True\<rparr>"
    have "teardown_act E CloseStopping s = Some ?s1" using ClosingWatch by simp
    moreover obtain ys s2 where "length ys \<le> 4" "?quiet ys" "teardown_run E ys ?s1 = Some s2" "td_main s2 = Ended"
      using join [of ?s1] by auto
    ultimately show ?thesis by (intro exI [of _ "CloseStopping # ys"] exI [of _ s2]) simp
  next
    case JoiningWatch
    then have "td_closed s" using inv by (simp add: teardown_inv_def)
    from join [OF JoiningWatch this] show ?thesis using le_trans [of _ 4 5] by force
  next
    case StoppingInitiator
    then show ?thesis using stop [of s] by (intro exI [of _ "[StopInitiator]"]) auto
  next
    case Ended
    then show ?thesis by (intro exI [of _ "[]"]) simp
  qed (use assms(5) in simp)
qed

theorem teardown_can_end_witness:
  "\<exists>p s ys s'. demo_process = (Inr p, [1]) \<and>
     teardown_run boot_engine [Tick_at 30000000000, StopWatch] (teardown_start p [1]) = Some s \<and>
     teardown_run boot_engine ys s = Some s' \<and> td_main s' = Ended"
proof -
  obtain p where p: "demo_process = (Inr p, [1])" "pr_supervisor p = \<lparr>sv_current = Some 1, sv_starts = 1\<rparr>"
    "pr_watchdog p = Some (Watchdog_Start 0 (new_watchdog 30000000000 0 None))"
    using demo_process_up by blast
  obtain s where s: "teardown_run boot_engine [Tick_at 30000000000, StopWatch] (teardown_start p [1]) = Some s"
    "td_main s = ClosingWatch"
    by (simp add: teardown_start_def p decide_def check_def Watchdog_Start_def new_watchdog_def Fired_def)
  have "owns set (\<lambda>_. {}) (pr_supervisor p) [1]" "td_main s \<noteq> Serving" by (simp_all add: p(2) s(2) owns_def)
  from teardown_can_end [OF boot_engine_laws this(1) p(1) [unfolded demo_process_def] s(1) this(2)]
  show ?thesis using p(1) s(1) by blast
qed

text \<open>
  A reconnect that was decided is made even if an application message arrives before it: the
  decision is taken under the watchdog's lock, the restart after the lock is released.
\<close>

theorem reconnect_despite_message:
  assumes "td_watchdog s = Some w" "td_watcher s = Selecting" "suspicious now w"
    "wd_Timeout w \<le> now - wd_lastApp w"
  shows "\<exists>s'. teardown_run E [Tick_at now, Message_at later, RestartNow] s = Some s' \<and>
    td_supervisor s' = fst (snd (Restart E (td_supervisor s) (td_engine s))) \<and>
    map_option wd_lastApp (td_watchdog s') = Some later"
  using assms by (auto simp: decide_def check_fires Fired_def Notify_def Let_def split: prod.split)

theorem reconnect_despite_message_witness:
  "\<exists>p s. demo_process = (Inr p, [1]) \<and>
     teardown_run boot_engine [Tick_at 30000000000, Message_at 30000000001, RestartNow] (teardown_start p [1]) = Some s \<and>
     sv_starts (td_supervisor s) = 2"
proof -
  obtain p where p: "demo_process = (Inr p, [1])" "pr_supervisor p = \<lparr>sv_current = Some 1, sv_starts = 1\<rparr>"
    "pr_watchdog p = Some (Watchdog_Start 0 (new_watchdog 30000000000 0 None))"
    using demo_process_up by blast
  let ?w = "Watchdog_Start 0 (new_watchdog 30000000000 0 None)"
  let ?s = "teardown_start p [1 :: nat]"
  have "td_watchdog ?s = Some ?w" "td_watcher ?s = Selecting"
    "suspicious 30000000000 ?w" "wd_Timeout ?w \<le> 30000000000 - wd_lastApp ?w"
    by (simp_all add: teardown_start_def p suspicious_def Watchdog_Start_def new_watchdog_def)
  from reconnect_despite_message [OF this, of boot_engine 30000000001] obtain s where
    s: "teardown_run boot_engine [Tick_at 30000000000, Message_at 30000000001, RestartNow] ?s = Some s"
    "td_supervisor s = fst (snd (Restart boot_engine (td_supervisor ?s) (td_engine ?s)))"
    by blast
  have "sv_starts (td_supervisor s) = 2"
    unfolding s(2) by (simp add: teardown_start_def p(2) Restart_def stopLocked_def startLocked_def boot_engine_def)
  then show ?thesis using p(1) s(1) by blast
qed

end
