(* ===== verification/Processes.thy ===== *)
theory Processes
  imports Teardown DropFeed LogonProps
begin

text \<open>
  Whole processes: the binaries from their flags to their exit status (\<open>main\<close> and \<open>run\<close> of
  \<open>cmd/exchange/main.go\<close> and \<open>cmd/dc-client/main.go\<close>, the flags of \<open>cmd/oe-client/main.go\<close>).
  The flags are given by their values; \<open>*_flags\<close> are those without arguments. Between the
  start and the signal the exchange handles what comes in from the engine, the admin API and
  its timers, the drop-copy client what the engine hands it; the goroutine of the HTTP server
  only logs how \<open>ListenAndServe\<close> ended. The rest of the order-entry binary is in \<open>Shutdown\<close>
  and \<open>Teardown\<close>.
\<close>

subsection \<open>The exchange\<close>

text \<open>What comes in, in order; an event that cannot happen in the state it meets is skipped.\<close>

definition serve :: "lib \<Rightarrow> event list \<Rightarrow> App \<Rightarrow> App" where
  "serve L es a = fold (\<lambda>e a. if enabled e a then handle L e a else a) es a"

definition exchange_flags :: "string \<times> string" where
  "exchange_flags = (''config/exchange.cfg'', '':8081'')"

definition exchange_run ::
  "lib \<Rightarrow> ('f, 'cfg) files \<Rightarrow> 'cfg settings_api \<Rightarrow> environment \<Rightarrow> (App \<Rightarrow> 'cfg \<Rightarrow> ('i, 'e) engine)
     \<Rightarrow> string \<Rightarrow> event list \<Rightarrow> string option \<Rightarrow> 'e \<Rightarrow> (boot_error + string option \<times> App) \<times> 'e" where
  "exchange_run L F S getenv E cfgPath es shutdown e =
     (case read_settings F cfgPath of Inl err \<Rightarrow> (Inl err, e) | Inr cfg \<Rightarrow>
      case exchange_start F S getenv E cfgPath e of
        (Inl err, e1) \<Rightarrow> (Inl err, e1)
      | (Inr (app, acceptor), e1) \<Rightarrow>
          let app1 = serve L es app
          in (case exchange_stop (E app cfg) shutdown acceptor e1 of (answer, e2) \<Rightarrow> (Inr (answer, app1), e2)))"

text \<open>\<open>Fatalf\<close> exits with status 1.\<close>

definition exchange_exit :: "(boot_error + string option \<times> App) \<Rightarrow> int" where
  "exchange_exit r = (case r of Inl _ \<Rightarrow> 1 | Inr (answer, _) \<Rightarrow> if answer = None then 0 else 1)"

subsection \<open>The drop-copy client\<close>

definition dc_flags :: "string \<times> string" where
  "dc_flags = (''config/dc-client.cfg'', [])"

text \<open>The result is the two numbers of the last log line.\<close>

definition dc_run ::
  "lib \<Rightarrow> ('f, 'cfg) files \<Rightarrow> 'cfg settings_api \<Rightarrow> ('w DropCopy \<Rightarrow> 'cfg \<Rightarrow> ('i, 'e) engine)
     \<Rightarrow> string \<Rightarrow> string \<Rightarrow> SessionID \<Rightarrow> message list \<Rightarrow> 'w \<Rightarrow> 'e \<Rightarrow> (boot_error + nat \<times> nat) \<times> 'e" where
  "dc_run L F S E cfgPath host sid ms w e =
     (case read_settings F cfgPath of Inl err \<Rightarrow> (Inl err, e) | Inr cfg \<Rightarrow>
      case dc_start F S E cfgPath host e of
        (Inl err, e1) \<Rightarrow> (Inl err, e1)
      | (Inr (app, initiator), e1) \<Rightarrow>
          (case dc_stop (E app (snd (OverrideConnectHost S host cfg))) (fed (dc_feed L sid ms app w)) initiator e1 of
             (reports, duplicates, e2) \<Rightarrow> (Inr (reports, duplicates), e2)))"

definition dc_exit :: "boot_error + nat \<times> nat \<Rightarrow> int" where
  "dc_exit r = (case r of Inl _ \<Rightarrow> 1 | Inr _ \<Rightarrow> 0)"

subsection \<open>The order-entry client\<close>

definition oe_flags :: options where
  "oe_flags = \<lparr>op_config = ''config/oe-client.cfg'', op_host = [], op_symbol = ''PETR4'', op_qty = ''100'',
     op_price = ''25.50'', op_every = 0, op_codType = 0, op_codWindow = 30000, op_watchdog = 0\<rparr>"

text \<open>After a start that did not fail, \<open>run\<close> can only return without an error.\<close>

definition oe_exit :: "boot_error + 'i oe_process \<Rightarrow> int" where
  "oe_exit r = (case r of Inl _ \<Rightarrow> 1 | Inr _ \<Rightarrow> 0)"

subsection \<open>Facts\<close>

lemma serve_run: "\<exists>fs. venue_run L a fs (serve L es a)"
proof (induction es arbitrary: a)
  case Nil
  have "venue_run L a [] (serve L [] a)" by (simp add: serve_def)
  then show ?case by blast
next
  case (Cons e es)
  show ?case
  proof (cases "enabled e a")
    case True
    obtain fs where "venue_run L (handle L e a) fs (serve L es (handle L e a))" using Cons by blast
    with True have "venue_run L a (e # fs) (serve L (e # es) a)" by (simp add: serve_def)
    then show ?thesis by blast
  next
    case False
    then show ?thesis using Cons [of a] by (simp add: serve_def)
  qed
qed

lemma exchange_run_started:
  assumes "exchange_run L F S getenv E path es shutdown e = (Inr (answer, app), e1)"
  obtains app0 i cfg e0 where "started app0" "app = serve L es app0" "answer = shutdown"
    "exchange_start F S getenv E path e = (Inr (app0, i), e0)" "e1 = en_Stop (E app0 cfg) i e0"
proof -
  obtain cfg app0 i e0 where cfg: "read_settings F path = Inr cfg"
    and start: "exchange_start F S getenv E path e = (Inr (app0, i), e0)"
    using assms by (auto simp: exchange_run_def split: sum.splits prod.splits)
  then have "LoadKinds getenv (sa_SessionSettings S cfg) (New NewBook) = (None, app0)"
    by (auto simp: exchange_start_def split: prod.splits sum.splits option.splits)
  then have "started app0" by (auto simp: started_def)
  moreover have "app = serve L es app0" "answer = shutdown" "e1 = en_Stop (E app0 cfg) i e0"
    using assms cfg start by (auto simp: exchange_run_def exchange_stop_def Let_def)
  ultimately show ?thesis using that start by blast
qed

lemma exchange_run_reachable:
  "exchange_run L F S getenv E path es shutdown e = (Inr (answer, app), e1) \<Longrightarrow> reachable L app"
  by (erule exchange_run_started) (metis reachable_run serve_run started_reachable)

subsection \<open>Properties\<close>

text \<open>
  C36. The exchange from its flags to its exit: whether it fails to start or is told to stop after
  any sequence of events, it leaves no acceptor running that it started, but what the engine's
  \<open>Start\<close> left if that is what failed; if it came up, the
  venue it ends with is a reachable one, so every invariant of the venue holds of it to the end,
  and the exit status is zero exactly when the HTTP server shut down without an error.
\<close>

theorem exchange_process:
  assumes "\<And>app cfg. engine_laws (E app cfg) running left" "running e = {}"
    "exchange_run L F S getenv E path es shutdown e = (r, e1)"
  shows "running e1 \<subseteq> left e1 \<and> ((\<forall>x. r \<noteq> Inl (CannotStart x)) \<longrightarrow> running e1 = {}) \<and>
    (case r of
       Inl err \<Rightarrow> exchange_exit r = 1
     | Inr (answer, app) \<Rightarrow> reachable L app \<and> (exchange_exit r = 0 \<longleftrightarrow> shutdown = None))"
proof (cases r)
  case (Inl err)
  have "running e1 \<subseteq> running e \<union> left e1 \<and> ((\<forall>x. err \<noteq> CannotStart x) \<longrightarrow> running e1 = running e)"
    using assms(3) build_and_start_running(2,3) [OF assms(1)] unfolding Inl exchange_run_def
    by (fastforce simp: exchange_start_def Let_def split: prod.splits sum.splits option.splits)
  then show ?thesis using assms(2) Inl by (simp add: exchange_exit_def)
next
  case (Inr x)
  then obtain answer app where r: "r = Inr (answer, app)" by (cases x) simp
  obtain app0 i cfg e0 where started: "started app0" "app = serve L es app0" "answer = shutdown"
    and up: "exchange_start F S getenv E path e = (Inr (app0, i), e0)" and e1: "e1 = en_Stop (E app0 cfg) i e0"
    by (rule exchange_run_started [OF assms(3) [unfolded r]])
  have "running e1 = {}"
    using exchange_runs [OF assms(1) up] assms(2) engine_lawsD(4) [OF assms(1)] by (simp add: e1)
  then show ?thesis
    using exchange_run_reachable [OF assms(3) [unfolded r]] started(3) by (simp add: r exchange_exit_def)
qed

lemma demo_one_acceptor:
  "exchange_start (boot_files demo_settings) demo_settings_api demo_env (\<lambda>_ _. boot_engine) path [] = (Inr (demo_start, 1), [1])"
proof -
  have "read_settings (boot_files demo_settings) path = Inr (Map.empty, demo_settings)"
    by (simp add: read_settings_def boot_files_def)
  moreover have "sa_SessionSettings demo_settings_api (Map.empty, demo_settings) = demo_settings"
    by (simp add: demo_settings_api_def demo_settings_def)
  ultimately show ?thesis by (simp add: exchange_start_def demo_loaded build_and_start_def boot_engine_def)
qed

lemma demo_exchange_run:
  "exchange_run demo_lib (boot_files demo_settings) demo_settings_api demo_env (\<lambda>_ _. boot_engine)
     (fst exchange_flags) es None [] = (Inr (None, serve demo_lib es demo_start), [])"
proof -
  have "read_settings (boot_files demo_settings) (fst exchange_flags) = Inr (Map.empty, demo_settings)"
    by (simp add: read_settings_def boot_files_def)
  then show ?thesis by (simp add: exchange_run_def demo_one_acceptor exchange_stop_def) (simp add: boot_engine_def)
qed

theorem exchange_process_witness:
  "\<exists>app. exchange_run demo_lib (boot_files demo_settings) demo_settings_api demo_env (\<lambda>_ _. boot_engine)
     (fst exchange_flags) [EvFromApp (demo_order ''C1'' ''0'') demo_oe, EvFill ''C1'' 25] None [] = (Inr (None, app), []) \<and>
   reachable demo_lib app"
proof -
  have "set [] = {}" by simp
  from exchange_process [where E = "\<lambda>_ _. boot_engine" and running = set and left = "\<lambda>_. {}", OF boot_engine_laws this demo_exchange_run]
  show ?thesis by (intro exI conjI) (rule demo_exchange_run, simp)
qed

text \<open>
  C35. The last line of the drop-copy client: it came up before the venue sent anything, was handed
  every report the venue's process sent on its session, in order, and then any of them again any
  number of times; it then ends having recorded as many reports as the venue sent, and as many
  duplicates as there were repetitions, with no initiator left running.
\<close>

theorem drop_copy_tally:
  assumes "exchange_run L XF XS getenv XE xpath es shutdown xe = (Inr (answer, app), xe1)"
    and "\<And>app cfg. engine_laws (DE app cfg) running left" "running e = {}"
    and "list_all2 carries ms (messages_to dc app)"
    and "\<forall>z \<in> set zs. \<exists>m \<in> set (messages_to dc app). carries z m"
    and "dc_run L F S DE path host sid (ms @ zs) w e = (Inr (reports, duplicates), e1)"
  shows "reports = length (messages_to dc app) \<and> duplicates = length zs \<and> running e1 = {}"
proof -
  obtain client cfg i e0 where up: "dc_start F S DE path host e = (Inr (client, i), e0)"
    and stop: "dc_stop (DE client cfg) (fed (dc_feed L sid (ms @ zs) client w)) i e0 = (reports, duplicates, e1)"
    using assms(6) by (auto simp: dc_run_def split: sum.splits prod.splits)
  have client: "client = NewDropCopy dc_creds"
    using up by (auto simp: dc_start_def Let_def split: sum.splits prod.splits option.splits)
  have len: "length ms = length (messages_to dc app)" using assms(4) by (rule list_all2_lengthD)
  have "length (Reports (fed (dc_feed L sid (ms @ zs) client w))) = length ms \<and>
      Duplicates (fed (dc_feed L sid (ms @ zs) client w)) = length zs"
    using fed_once [OF exchange_run_reachable [OF assms(1)] assms(4,5), of sid dc_creds w]
    by (auto simp: client split: prod.splits)
  moreover have "running e1 = {}"
    using stop dc_runs [OF assms(2) up] assms(3) engine_lawsD(4) [OF assms(2)] by (auto simp: dc_stop_def)
  ultimately show ?thesis using stop len by (simp add: dc_stop_def)
qed

text \<open>
  The drop-copy client from its flags to its exit: it leaves no initiator running, but what the
  engine's \<open>Start\<close> left if that is what failed, and its status
  is zero exactly when it came up, that is, when its settings name one session, the host could
  be overridden, and its initiator was built and started.
\<close>

theorem drop_copy_process:
  assumes "\<And>app cfg. engine_laws (DE app cfg) running left" "running e = {}"
    and "dc_run L F S DE path host sid ms w e = (r, e1)"
  shows "running e1 \<subseteq> left e1 \<and> ((\<forall>x. r \<noteq> Inl (CannotStart x)) \<longrightarrow> running e1 = {}) \<and> (dc_exit r = 0 \<longleftrightarrow> (\<exists>p. fst (dc_start F S DE path host e) = Inr p)) \<and>
    (dc_exit r = 0 \<longrightarrow> (\<exists>cfg cfg1. read_settings F path = Inr cfg \<and> OverrideConnectHost S host cfg = (None, cfg1) \<and>
       (\<exists>sid. SoleSession S cfg1 = Inr sid)))"
proof (cases "fst (dc_start F S DE path host e)")
  case (Inl err)
  have "running e1 \<subseteq> running e \<union> left e1 \<and> ((\<forall>x. err \<noteq> CannotStart x) \<longrightarrow> running e1 = running e)"
    using assms(3) Inl build_and_start_running [OF assms(1)] engine_lawsD(4) [OF assms(1)] assms(2)
    by (fastforce simp: dc_run_def dc_start_def Let_def split: prod.splits sum.splits option.splits)
  moreover have "r = Inl err"
    using assms(3) Inl by (auto simp: dc_run_def dc_start_def split: prod.splits sum.splits)
  ultimately show ?thesis using assms(2) Inl by (auto simp: dc_exit_def)
next
  case (Inr p)
  obtain app i e0 where up: "dc_start F S DE path host e = (Inr (app, i), e0)"
    using Inr by (metis prod.collapse)
  obtain cfg cfg1 where cfg: "read_settings F path = Inr cfg" "OverrideConnectHost S host cfg = (None, cfg1)"
      "\<exists>sid. SoleSession S cfg1 = Inr sid"
    using up by (auto simp: dc_start_def Let_def split: prod.splits sum.splits option.splits)
  obtain n d where "r = Inr (n, d)" "e1 = en_Stop (DE app cfg1) i e0"
    using assms(3) up cfg(1,2) by (auto simp: dc_run_def dc_stop_def split: prod.splits)
  then show ?thesis
    using cfg Inr dc_runs [OF assms(1) up] engine_lawsD(4) [OF assms(1)] assms(2) by (auto simp: dc_exit_def)
qed

lemma demo_dc_run:
  "\<exists>r d. dc_run demo_lib (boot_files [(demo_dc, Map.empty)]) demo_settings_api (\<lambda>(app :: unit DropCopy) cfg. boot_engine)
     (fst dc_flags) (snd dc_flags) demo_dc ms () [] = (Inr (r, d), [])"
proof -
  let ?cfg = "(Map.empty, [(demo_dc, Map.empty)])"
  have "read_settings (boot_files [(demo_dc, Map.empty)]) (fst dc_flags) = Inr ?cfg"
    by (simp add: read_settings_def boot_files_def)
  moreover have "OverrideConnectHost demo_settings_api (snd dc_flags) ?cfg = (None, ?cfg)"
    by (simp add: OverrideConnectHost_def dc_flags_def)
  moreover have "SoleSession demo_settings_api ?cfg = Inr demo_dc"
    by (simp add: SoleSession_def demo_settings_api_def)
  moreover have "build_and_start boot_engine [] = (Inr 1, [1])" "en_Stop boot_engine 1 [1] = []"
    by (simp_all add: build_and_start_def boot_engine_def)
  ultimately show ?thesis by (simp add: dc_run_def dc_start_def dc_stop_def Let_def)
qed

theorem drop_copy_tally_witness:
  "let app = serve demo_lib [EvFromApp (demo_order ''C1'' ''0'') demo_oe, EvFill ''C1'' 25] demo_start;
       ms = messages_to demo_dc app
   in fst (dc_run demo_lib (boot_files [(demo_dc, Map.empty)]) demo_settings_api (\<lambda>(app :: unit DropCopy) cfg. boot_engine)
        (fst dc_flags) (snd dc_flags) demo_dc (ms @ ms) () []) = Inr (2, 2)"
proof -
  let ?es = "[EvFromApp (demo_order ''C1'' ''0'') demo_oe, EvFill ''C1'' 25]"
  let ?app = "serve demo_lib ?es demo_start"
  let ?ms = "messages_to demo_dc ?app"
  obtain r d where run: "dc_run demo_lib (boot_files [(demo_dc, Map.empty)]) demo_settings_api
      (\<lambda>(app :: unit DropCopy) cfg. boot_engine) (fst dc_flags) (snd dc_flags) demo_dc (?ms @ ?ms) () [] = (Inr (r, d), [])"
    using demo_dc_run by blast
  have again: "\<forall>z \<in> set ?ms. \<exists>m \<in> set ?ms. carries z m" using carries_refl by blast
  have "length ?ms = 2" by (simp add: serve_def demo_eval messages_to_def)
  moreover have "set [] = {}" by simp
  ultimately have "r = 2 \<and> d = 2"
    using drop_copy_tally [where DE = "\<lambda>(app :: unit DropCopy) cfg. boot_engine" and running = set and left = "\<lambda>_. {}",
        OF demo_exchange_run boot_engine_laws _ list.rel_refl [of carries, OF carries_refl] again run]
    by simp
  then show ?thesis by (simp add: run)
qed

text \<open>
  Out of the box nothing is armed: a client started without flags logs on, with a password or
  none, to a venue that has just loaded its settings, and when that session is lost no timer is
  started, whatever window the flag gives; so a disconnect cancels nothing.
\<close>

theorem defaults_arm_nothing:
  assumes "int_roundtrip L" "fresh_logon msg" "msg_header msg tagMsgType = Some ''A''"
    and "LoadKinds venue_env settings (New NewBook) = (None, a)"
  shows "let sent = snd (InjectLogon L client_env msg client (oe_creds oe_flags));
             (answer, a') = FromAdmin L sent sid a
         in app_timers (OnLogout sid a') = app_timers a"
proof -
  let ?creds = "oe_creds oe_flags"
  let ?sent = "snd (InjectLogon L client_env msg client ?creds)"
  have off: "lc_CODType ?creds = CODDisabled" by (simp add: oe_creds_def oe_flags_def CODDisabled_def)
  have "int64 (lc_CODType ?creds)" "int64 (lc_CODTimeoutWindow ?creds)"
    by (simp_all add: oe_creds_def oe_flags_def)
  from ParseLogon_InjectLogon [OF assms(1,2) this, of client_env client sid]
  have parse: "lr_CODType (ParseLogon L ?sent sid) = CODDisabled" by (simp add: off)
  have "msg_header ?sent tagMsgType = Some ''A''"
    using assms(3) by (simp add: InjectLogon_def Let_def split: sum.split)
  note decision = FromAdmin_logon [OF this, of L sid a]
  have "started a" using assms(4) by (auto simp: started_def)
  then have "app_cod a = Map.empty" by (rule started_cod)
  then have "app_timers (OnLogout sid (snd (FromAdmin L ?sent sid a))) = app_timers a"
    using decision parse by (auto simp: OnLogout_def Let_def frame split: if_splits option.split)
  then show ?thesis by (simp add: Let_def case_prod_beta)
qed

theorem defaults_arm_nothing_witness:
  "app_timers (OnLogout demo_oe (snd (FromAdmin demo_lib (snd (InjectLogon demo_lib demo_env
     \<lparr>msg_header = [tagMsgType \<mapsto> ''A''], msg_body = Map.empty\<rparr> demo_client (oe_creds oe_flags))) demo_oe demo_start))) = []"
proof -
  let ?msg = "\<lparr>msg_header = [tagMsgType \<mapsto> ''A''], msg_body = Map.empty\<rparr>"
  have "fresh_logon ?msg" "msg_header ?msg tagMsgType = Some ''A''" by (simp_all add: fresh_logon_def)
  from defaults_arm_nothing [OF demo_int_roundtrip this demo_loaded, where client_env = demo_env
      and client = demo_client and sid = demo_oe]
  show ?thesis by (simp add: Let_def case_prod_beta demo_start_def New_def)
qed

end
