(* ===== verification/Narration.thy ===== *)
theory Narration
  imports Admin
begin

text \<open>
  What the venue prints (\<open>a.log\<close> in \<open>internal/exchange\<close>). A \<open>line\<close> is one call of \<open>Printf\<close> with
  the values it formats, in the order of the format; each handler has a function that gives its
  lines in order, on the state it is called in. \<open>narration\<close> is the log of a run. The line
  \<open>send to ... failed\<close> is left out: the engine accepts every report here.
\<close>

datatype line =
    SaysCreated SessionID Kind
  | SaysLogon SessionID Kind
  | SaysLogout SessionID Kind
  | SaysRefused SessionID string
  | SaysArmed SessionID int int
  | SaysRejectFrom SessionID string
  | SaysAccepted string string rat rat string
  | SaysDropped string string
  | SaysLost SessionID int
  | SaysStandsDown SessionID
  | SaysCancelFailed string venue_error
  | SaysCanceled nat string
  | SaysAdvanced SessionID int int

subsection \<open>Reports and commands\<close>

definition publish_lines :: "report \<Rightarrow> App \<Rightarrow> line list" where
  "publish_lines r a =
     (if app_silenced a then [SaysDropped (rp_execType r) (os_ClOrdID (rp_order r))] else [])"

text \<open>A command that updates one order prints what the publication of its report does.\<close>

definition update_lines :: "string \<Rightarrow> order_update \<Rightarrow> string \<Rightarrow> App \<Rightarrow> line list" where
  "update_lines i fn t a =
     (case fst (Update i fn (app_book a)) of
        Inl err \<Rightarrow> []
      | Inr updated \<Rightarrow> publish_lines (mk_report updated t) a)"

definition Partial_lines :: "lib \<Rightarrow> string \<Rightarrow> rat \<Rightarrow> rat \<Rightarrow> App \<Rightarrow> line list" where
  "Partial_lines L i q p a = (if q \<le> 0 then [] else update_lines i (apply_fill L i q p) ExecTypeTrade a)"

definition Fill_lines :: "lib \<Rightarrow> string \<Rightarrow> rat \<Rightarrow> App \<Rightarrow> line list" where
  "Fill_lines L i p a =
     (case Get i (app_book a) of None \<Rightarrow> [] | Some ord \<Rightarrow> Partial_lines L i (LeavesQty ord) p a)"

definition Cancel_lines :: "string \<Rightarrow> App \<Rightarrow> line list" where
  "Cancel_lines i a = update_lines i (apply_cancel i) ExecTypeCanceled a"

definition Reject_lines :: "string \<Rightarrow> App \<Rightarrow> line list" where
  "Reject_lines i a = update_lines i (apply_reject i) ExecTypeRejected a"

text \<open>The mass cancel: the lines of each order on the state the ones before it left.\<close>

fun cancel_loop_lines :: "lib \<Rightarrow> string \<Rightarrow> OrderState list \<Rightarrow> App \<Rightarrow> line list" where
  "cancel_loop_lines L reason [] a = []"
| "cancel_loop_lines L reason (ord # rest) a =
     (case Update (os_ClOrdID ord) set_canceled (app_book a) of
        (Inl err, b) \<Rightarrow>
          SaysCancelFailed (os_ClOrdID ord) err # cancel_loop_lines L reason rest (a\<lparr>app_book := b\<rparr>)
      | (Inr updated, b) \<Rightarrow>
          publish_lines (mk_report updated ExecTypeCanceled) a @
          cancel_loop_lines L reason rest
            (publish L ((mk_report updated ExecTypeCanceled)
                         \<lparr>rp_text := reason, rp_restatement := RestatementCancelOnDisconnect\<rparr>)
               (a\<lparr>app_book := b\<rparr>)))"

definition CancelAll_lines :: "lib \<Rightarrow> string \<Rightarrow> App \<Rightarrow> line list" where
  "CancelAll_lines L reason a =
     (let orders = OpenDayOrders (app_book a)
      in cancel_loop_lines L reason orders a @ [SaysCanceled (length orders) reason])"

definition Advance_lines ::
  "nat \<Rightarrow> ('e \<Rightarrow> SessionID \<Rightarrow> string + int) \<Rightarrow> ('e \<Rightarrow> SessionID \<Rightarrow> int \<Rightarrow> string + 'e)
     \<Rightarrow> Kind \<Rightarrow> int \<Rightarrow> App \<Rightarrow> 'e \<Rightarrow> line list" where
  "Advance_lines n0 get_num set_num kind n a e =
     (case fst (AdvanceSeqNum n0 get_num set_num kind n a e) of
        Inl err \<Rightarrow> []
      | Inr nxt \<Rightarrow>
          let sid = (case sessionOf n0 kind a of Some i \<Rightarrow> i | None \<Rightarrow> zero_SessionID)
          in (case get_num e sid of Inl err \<Rightarrow> [] | Inr current \<Rightarrow> [SaysAdvanced sid current nxt]))"

subsection \<open>Callbacks and timers\<close>

definition OnCreate_lines :: "SessionID \<Rightarrow> App \<Rightarrow> line list" where
  "OnCreate_lines sid a = [SaysCreated sid (kindOf sid a)]"

definition OnLogon_lines :: "SessionID \<Rightarrow> App \<Rightarrow> line list" where
  "OnLogon_lines sid a = [SaysLogon sid (kindOf sid a)]"

definition onSessionLost_lines :: "SessionID \<Rightarrow> LogonRequest \<Rightarrow> line list" where
  "onSessionLost_lines sid req = [SaysLost sid (cod_window (lr_CODTimeoutWindow req))]"

definition OnLogout_lines :: "SessionID \<Rightarrow> App \<Rightarrow> line list" where
  "OnLogout_lines sid a =
     SaysLogout sid (kindOf sid a) #
     (case app_cod a sid of
        None \<Rightarrow> []
      | Some req \<Rightarrow> if lr_CODType req \<noteq> CODDisabled then onSessionLost_lines sid req else [])"

definition cod_expire_lines :: "lib \<Rightarrow> SessionID \<Rightarrow> App \<Rightarrow> line list" where
  "cod_expire_lines L sid a =
     (if app_loggedOn a sid then [SaysStandsDown sid] else CancelAll_lines L (cod_reason L sid) a)"

definition FromAdmin_lines :: "lib \<Rightarrow> message \<Rightarrow> SessionID \<Rightarrow> App \<Rightarrow> line list" where
  "FromAdmin_lines L msg sid a =
     (case GetString (msg_header msg) tagMsgType of
        Inl err \<Rightarrow> []
      | Inr msgType \<Rightarrow>
          if msgType \<noteq> ''A'' then []
          else if app_rejectLogons a \<noteq> [] then [SaysRefused sid (app_rejectLogons a)]
          else
            let req = ParseLogon L msg sid
            in case checkPassword sid (lr_Password req) a of
                 Some err \<Rightarrow> [SaysRefused sid err]
               | None \<Rightarrow>
                   if lr_CODType req \<noteq> CODDisabled
                   then [SaysArmed sid (lr_CODType req) (lr_CODTimeoutWindow req)] else [])"

definition rejectText :: "message \<Rightarrow> string" where
  "rejectText msg = (case GetString (msg_body msg) tagText of Inl err \<Rightarrow> ''(no Text)'' | Inr s \<Rightarrow> s)"

definition NewOrder_lines :: "lib \<Rightarrow> message \<Rightarrow> App \<Rightarrow> line list" where
  "NewOrder_lines L msg a =
     (case build_order L (msg_body msg) of
        Inl e \<Rightarrow> []
      | Inr ord \<Rightarrow>
          let (p, b1) = alloc ord (app_book a)
          in case Insert p b1 of
               (Some err, b2) \<Rightarrow> []
             | (None, b2) \<Rightarrow>
                 SaysAccepted (os_ClOrdID ord) (os_Side ord) (os_OrderQty ord) (os_Price ord) (os_Symbol ord) #
                 publish_lines (mk_report (deref b2 p) ExecTypeNew) (a\<lparr>app_book := b2\<rparr>))"

definition FromApp_lines :: "lib \<Rightarrow> message \<Rightarrow> SessionID \<Rightarrow> App \<Rightarrow> line list" where
  "FromApp_lines L msg sid a =
     (if kindOf sid a = KindDropCopy then []
      else case GetString (msg_header msg) tagMsgType of
             Inl err \<Rightarrow> []
           | Inr msgType \<Rightarrow>
               if msgType = ''D'' then NewOrder_lines L msg a
               else if msgType = ''j'' \<or> msgType = ''3'' then [SaysRejectFrom sid (rejectText msg)]
               else [])"

lemma NewOrder_lines_cong:
  "app_book a = app_book a' \<Longrightarrow> app_silenced a = app_silenced a' \<Longrightarrow> NewOrder_lines L msg a = NewOrder_lines L msg a'"
  by (simp add: NewOrder_lines_def publish_lines_def split: sum.split prod.split option.split)

fun narrate :: "lib \<Rightarrow> event \<Rightarrow> App \<Rightarrow> line list" where
  "narrate L (EvLogon sid) a = OnLogon_lines sid a"
| "narrate L (EvLogout sid) a = OnLogout_lines sid a"
| "narrate L (EvFromAdmin msg sid) a = FromAdmin_lines L msg sid a"
| "narrate L (EvFromApp msg sid) a = FromApp_lines L msg sid a"
| "narrate L (EvFill i p) a = Fill_lines L i p a"
| "narrate L (EvPartial i q p) a = Partial_lines L i q p a"
| "narrate L (EvCancel i t) a = Cancel_lines i a"
| "narrate L (EvReject i t) a = Reject_lines i a"
| "narrate L (EvCancelAll t) a = CancelAll_lines L t a"
| "narrate L (EvExpire k) a =
     (let tm = app_timers a ! k
      in cod_expire_lines L (tm_session tm)
           (a\<lparr>app_timers := take k (app_timers a) @ drop (Suc k) (app_timers a)\<rparr>))"
| "narrate L (Tick d) a = []"
| "narrate L (EvToAdmin msg sid) a = []"
| "narrate L (EvToApp msg sid) a = []"
| "narrate L (EvSilence v) a = []"
| "narrate L (EvRejectLogons t) a = []"

text \<open>The log of a run.\<close>

fun narration :: "lib \<Rightarrow> event list \<Rightarrow> App \<Rightarrow> line list" where
  "narration L [] a = []"
| "narration L (e # es) a = narrate L e a @ narration L es (handle L e a)"

subsection \<open>Nothing is dropped in silence\<close>

text \<open>The lines that say a report is dropped.\<close>

fun is_drop :: "line \<Rightarrow> bool" where
  "is_drop (SaysDropped t i) = True"
| "is_drop l = False"

definition drops :: "line list \<Rightarrow> line list" where
  "drops ls = filter is_drop ls"

lemma drops_simps [simp]:
  "drops [] = []" "drops (ls @ ls') = drops ls @ drops ls'"
  "drops (l # ls) = (if is_drop l then [l] else []) @ drops ls"
  by (simp_all add: drops_def)

text \<open>What became of an ExecID that was drawn: a message to the session, or a line.\<close>

type_synonym fate = "message + line"

definition messages_in :: "fate list \<Rightarrow> message list" where
  "messages_in fs = [m. Inl m \<leftarrow> fs]"

definition lines_in :: "fate list \<Rightarrow> line list" where
  "lines_in fs = [l. Inr l \<leftarrow> fs]"

lemma fate_simps [simp]:
  "messages_in [] = []" "messages_in (fs @ gs) = messages_in fs @ messages_in gs"
  "messages_in (Inl m # fs) = m # messages_in fs" "messages_in (Inr l # fs) = messages_in fs"
  "lines_in [] = []" "lines_in (fs @ gs) = lines_in fs @ lines_in gs"
  "lines_in (Inl m # fs) = lines_in fs" "lines_in (Inr l # fs) = l # lines_in fs"
  by (simp_all add: messages_in_def lines_in_def)

lemma length_fates: "length fs = length (messages_in fs) + length (lines_in fs)"
proof (induction fs)
  case (Cons f fs)
  then show ?case by (cases f) simp_all
qed simp

text \<open>The fates of the ExecIDs after the first \<open>n\<close>: each message bears the one it stands for.\<close>

fun bears :: "fate \<Rightarrow> string \<Rightarrow> bool" where
  "bears (Inl m) x \<longleftrightarrow> msg_body m tagExecID = Some x"
| "bears (Inr l) x \<longleftrightarrow> True"

fun numbered :: "nat \<Rightarrow> fate list \<Rightarrow> bool" where
  "numbered n [] \<longleftrightarrow> True"
| "numbered n (f # fs) \<longleftrightarrow> bears f (exec_name (Suc n)) \<and> numbered (Suc n) fs"

lemma numbered_append: "numbered n (fs @ gs) \<longleftrightarrow> numbered n fs \<and> numbered (n + length fs) gs"
  by (induction n fs rule: numbered.induct) auto

lemma numbered_nth: "numbered n fs \<Longrightarrow> k < length fs \<Longrightarrow> bears (fs ! k) (exec_name (n + k + 1))"
proof (induction n fs arbitrary: k rule: numbered.induct)
  case (2 n f fs)
  then show ?case by (cases k) auto
qed simp

text \<open>
  From \<open>a\<close> to \<open>a'\<close>, every ExecID drawn is on a message sent to \<open>sid\<close> or accounts for a line, in
  the order in which they were drawn, if that session is alone in its role.
\<close>

definition accounts :: "SessionID \<Rightarrow> App \<Rightarrow> line list \<Rightarrow> App \<Rightarrow> bool" where
  "accounts sid a ls a' \<longleftrightarrow>
     (distinct (map fst (app_kinds a)) \<and> has_role sid a \<longrightarrow>
      app_kinds a' = app_kinds a \<and>
      (\<exists>fs. numbered (bk_execSeq (app_book a)) fs \<and>
         bk_execSeq (app_book a') = bk_execSeq (app_book a) + length fs \<and>
         messages_to sid a' = messages_to sid a @ messages_in fs \<and> drops ls = lines_in fs))"

lemma accounts_trans:
  assumes "accounts sid a ls b" "accounts sid b ls' c"
  shows "accounts sid a (ls @ ls') c"
  unfolding accounts_def
proof (intro impI)
  assume a: "distinct (map fst (app_kinds a)) \<and> has_role sid a"
  with assms(1) obtain fs where kinds: "app_kinds b = app_kinds a"
    and fs: "numbered (bk_execSeq (app_book a)) fs" "bk_execSeq (app_book b) = bk_execSeq (app_book a) + length fs"
      "messages_to sid b = messages_to sid a @ messages_in fs" "drops ls = lines_in fs"
    unfolding accounts_def by blast
  have "distinct (map fst (app_kinds b)) \<and> has_role sid b" using a kinds by (simp add: has_role_def sole_def)
  with assms(2) obtain gs where "app_kinds c = app_kinds b"
    and "numbered (bk_execSeq (app_book b)) gs" "bk_execSeq (app_book c) = bk_execSeq (app_book b) + length gs"
      "messages_to sid c = messages_to sid b @ messages_in gs" "drops ls' = lines_in gs"
    unfolding accounts_def by blast
  with kinds fs show "app_kinds c = app_kinds a \<and> (\<exists>fs. numbered (bk_execSeq (app_book a)) fs \<and>
      bk_execSeq (app_book c) = bk_execSeq (app_book a) + length fs \<and>
      messages_to sid c = messages_to sid a @ messages_in fs \<and> drops (ls @ ls') = lines_in fs)"
    by (intro conjI exI [of _ "fs @ gs"]) (simp_all add: numbered_append)
qed

lemma accounts_same:
  "app_kinds a' = app_kinds a \<Longrightarrow> bk_execSeq (app_book a') = bk_execSeq (app_book a) \<Longrightarrow>
     app_outbox a' = app_outbox a \<Longrightarrow> drops ls = [] \<Longrightarrow> accounts sid a ls a'"
  unfolding accounts_def by (intro impI conjI exI [of _ "[]"]) (simp_all add: messages_to_def)

lemma accounts_publish:
  assumes "bk_execSeq b = bk_execSeq (app_book a)" "rp_execType r' = rp_execType r" "rp_order r' = rp_order r"
  shows "accounts sid a (publish_lines r a) (publish L r' (a\<lparr>app_book := b\<rparr>))"
  unfolding accounts_def
proof (intro impI)
  let ?a = "a\<lparr>app_book := b\<rparr>"
  let ?fs = "if app_silenced a then [Inr (SaysDropped (rp_execType r') (os_ClOrdID (rp_order r')))]
    else [Inl (next_message L r' ?a)]"
  assume a: "distinct (map fst (app_kinds a)) \<and> has_role sid a"
  then have "messages_to sid (publish L r' ?a) = messages_to sid a @ (if app_silenced a then [] else [next_message L r' ?a])"
    using messages_to_publish_sole [of ?a sid L r'] by (simp add: has_role_def)
  then show "app_kinds (publish L r' ?a) = app_kinds a \<and> (\<exists>fs. numbered (bk_execSeq (app_book a)) fs \<and>
      bk_execSeq (app_book (publish L r' ?a)) = bk_execSeq (app_book a) + length fs \<and>
      messages_to sid (publish L r' ?a) = messages_to sid a @ messages_in fs \<and>
      drops (publish_lines r a) = lines_in fs)"
    using assms
    by (intro conjI exI [of _ ?fs])
       (simp_all add: exec_ids.draw_count exec_ids.draw_id next_message_def build_body publish_lines_def)
qed

lemma accounts_update:
  "(\<And>u. rp_execType (rp u) = t \<and> rp_order (rp u) = u) \<Longrightarrow> accounts sid a (update_lines i fn t a)
     (case fst (Update i fn (app_book a)) of
        Inl err \<Rightarrow> a\<lparr>app_book := snd (Update i fn (app_book a))\<rparr>
      | Inr u \<Rightarrow> publish L (rp u) (a\<lparr>app_book := snd (Update i fn (app_book a))\<rparr>))"
  by (auto simp: update_lines_def mk_report_def split: sum.split intro: accounts_publish accounts_same)

lemma accounts_Partial: "accounts sid a (Partial_lines L i q p a) (snd (Partial L i q p a))"
  using accounts_update [of "\<lambda>u. (mk_report u ExecTypeTrade)\<lparr>rp_lastQty := q, rp_lastPx := p\<rparr>"
      ExecTypeTrade sid a i "apply_fill L i q p" L]
  by (auto simp: Partial_lines_def Partial_unfold Let_def mk_report_def intro: accounts_same split: sum.splits)

lemma accounts_Fill: "accounts sid a (Fill_lines L i p a) (snd (Fill L i p a))"
  by (simp add: Fill_lines_def Fill_def accounts_Partial accounts_same split: option.split)

lemma accounts_Cancel: "accounts sid a (Cancel_lines i a) (snd (Cancel L i t a))"
  using accounts_update [of "\<lambda>u. (mk_report u ExecTypeCanceled)\<lparr>rp_text := t\<rparr>"
      ExecTypeCanceled sid a i "apply_cancel i" L]
  by (auto simp: Cancel_lines_def Cancel_def mk_report_def case_prod_beta split: sum.splits)

lemma accounts_Reject: "accounts sid a (Reject_lines i a) (snd (Reject L i t a))"
  using accounts_update [of "\<lambda>u. (mk_report u ExecTypeRejected)\<lparr>rp_text := t\<rparr>"
      ExecTypeRejected sid a i "apply_reject i" L]
  by (auto simp: Reject_lines_def Reject_def mk_report_def case_prod_beta split: sum.splits)

lemma accounts_cancel_loop: "accounts sid a (cancel_loop_lines L t xs a) (cancel_loop L t xs a)"
proof (induction xs arbitrary: a)
  case (Cons ord xs)
  obtain u b where u: "Update (os_ClOrdID ord) set_canceled (app_book a) = (u, b)" by force
  have seq: "bk_execSeq b = bk_execSeq (app_book a)"
    using execSeq_frame(2) [of "os_ClOrdID ord" set_canceled "app_book a"] u by simp
  show ?case
  proof (cases u)
    case (Inl err)
    have "accounts sid a [SaysCancelFailed (os_ClOrdID ord) err] (a\<lparr>app_book := b\<rparr>)"
      using seq by (intro accounts_same) simp_all
    from accounts_trans [OF this Cons.IH] show ?thesis using u Inl by simp
  next
    case (Inr updated)
    from accounts_trans [OF accounts_publish [OF seq] Cons.IH] show ?thesis using u Inr by simp
  qed
qed (simp add: accounts_same)

lemma accounts_CancelAll: "accounts sid a (CancelAll_lines L t a) (snd (CancelAllOpenDay L t a))"
proof -
  have "accounts sid b [SaysCanceled n t] b" for b n by (rule accounts_same) simp_all
  from accounts_trans [OF accounts_cancel_loop this] show ?thesis
    by (simp add: CancelAll_lines_def CancelAllOpenDay_def Let_def)
qed

lemma accounts_NewOrder: "accounts sid a (NewOrder_lines L msg a) (snd (onNewOrderSingle L msg peer a))"
proof (cases "build_order L (msg_body msg)")
  case (Inr ord)
  obtain p b1 where al: "alloc ord (app_book a) = (p, b1)" by force
  obtain r b2 where ins: "Insert p b1 = (r, b2)" by force
  have seq: "bk_execSeq b2 = bk_execSeq (app_book a)"
    using execSeq_frame(1) [of ord "app_book a"] al ins by (simp add: insert_new_def)
  show ?thesis
  proof (cases r)
    case None
    have "accounts sid a [SaysAccepted (os_ClOrdID ord) (os_Side ord) (os_OrderQty ord) (os_Price ord) (os_Symbol ord)] a"
      by (rule accounts_same) simp_all
    from accounts_trans [OF this accounts_publish [OF seq]] show ?thesis
      using Inr al ins None
      by (simp add: NewOrder_lines_def onNewOrderSingle_def publish_lines_def)
  qed (use Inr al ins seq in \<open>simp add: NewOrder_lines_def onNewOrderSingle_def accounts_same\<close>)
qed (simp add: NewOrder_lines_def onNewOrderSingle_def accounts_same)

text \<open>An event that draws no ExecID and sends nothing.\<close>

lemma accounts_quiet:
  "app_kinds (handle L e a) = app_kinds a \<Longrightarrow> app_book (handle L e a) = app_book a \<Longrightarrow>
     app_outbox (handle L e a) = app_outbox a \<Longrightarrow> drops (narrate L e a) = [] \<Longrightarrow>
     accounts sid a (narrate L e a) (handle L e a)"
  by (rule accounts_same) simp_all

lemma accounts_handle: "accounts sid a (narrate L e a) (handle L e a)"
proof (cases e)
  case (EvFromApp msg peer)
  let ?a = "noteReceived L msg peer a"
  have same: "accounts sid a [] ?a" by (rule accounts_same) (simp_all add: note_frame)
  have "NewOrder_lines L msg a = NewOrder_lines L msg ?a" by (rule NewOrder_lines_cong) (simp_all add: note_frame)
  then have new: "accounts sid a (NewOrder_lines L msg a) (snd (onNewOrderSingle L msg peer ?a))"
    using accounts_trans [OF same accounts_NewOrder] by simp
  have other: "drops ls = [] \<Longrightarrow> accounts sid a ls ?a" for ls by (rule accounts_same) (simp_all add: note_frame)
  show ?thesis
    using EvFromApp new other
    by (auto simp: FromApp_lines_def FromApp_def kindOf_def note_frame Let_def split: sum.split)
next
  case (EvExpire k)
  let ?a = "a\<lparr>app_timers := take k (app_timers a) @ drop (Suc k) (app_timers a)\<rparr>"
  have same: "accounts sid a [] ?a" by (rule accounts_same) simp_all
  have "accounts sid ?a (cod_expire_lines L peer ?a) (cod_expire L peer ?a)" for peer
    by (auto simp: cod_expire_lines_def cod_expire_def Let_def intro: accounts_CancelAll accounts_same)
  from accounts_trans [OF same this] show ?thesis
    using EvExpire by (simp add: run_timer_def Let_def)
next
  case (EvFromAdmin msg peer)
  have "drops (FromAdmin_lines L msg peer a) = []"
    by (simp add: FromAdmin_lines_def Let_def split: sum.split option.split)
  then show ?thesis unfolding EvFromAdmin by (intro accounts_quiet) (simp_all add: frame)
next
  case (EvLogout peer)
  have "drops (OnLogout_lines peer a) = []"
    by (simp add: OnLogout_lines_def onSessionLost_lines_def split: option.split)
  then show ?thesis unfolding EvLogout by (intro accounts_quiet) (simp_all add: frame)
qed (use accounts_Partial accounts_Fill accounts_Cancel accounts_Reject accounts_CancelAll in
     \<open>auto intro!: accounts_same simp: frame OnLogon_lines_def SetSilenced_def SetRejectLogons_def\<close>)

lemma accounts_run: "venue_run L a es a' \<Longrightarrow> accounts sid a (narration L es a) a'"
proof (induction rule: venue_run.induct)
  case (run_Nil a)
  show ?case by (rule accounts_same) simp_all
next
  case (run_Cons e a es a')
  then show ?case using accounts_trans [OF accounts_handle] by simp
qed

text \<open>
  C38. No report is lost without a line. After any run of a venue that started, however often it
  was silenced, take a session that is alone in its role, and the ExecIDs the venue has drawn, in
  order. Each of them has one fate: a message to that session that bears this ExecID, or a line
  that says a report of some type and order is dropped. The messages among the fates are exactly
  those the session was sent, the lines exactly those of the log that drop a report, both in
  their order. So the ExecIDs that never reached the session are as many as those lines.
\<close>

theorem drops_are_narrated:
  assumes "started a" "venue_run L a es a'" "has_role sid a"
  shows "\<exists>fates. length fates = bk_execSeq (app_book a') \<and>
    (\<forall>k < length fates. bears (fates ! k) (exec_name (k + 1))) \<and>
    messages_in fates = messages_to sid a' \<and> lines_in fates = drops (narration L es a) \<and>
    bk_execSeq (app_book a') = length (messages_to sid a') + length (drops (narration L es a))"
proof -
  obtain getenv settings where load: "LoadKinds getenv settings (New NewBook) = (None, a)"
    using assms(1) by (auto simp: started_def)
  have "app_book a = NewBook" "app_outbox a = []" using LoadKinds_frame [OF load] by (simp_all add: New_def)
  moreover have "venue_inv a" using assms(1) by (rule started_inv)
  then have keys: "distinct (map fst (app_kinds a))" by (simp add: venue_inv_def sent_ok_def)
  ultimately obtain fates where fates: "numbered 0 fates" "bk_execSeq (app_book a') = length fates"
      "messages_to sid a' = messages_in fates" "drops (narration L es a) = lines_in fates"
    using accounts_run [OF assms(2), of sid] assms(3) by (auto simp: accounts_def messages_to_def NewBook_def)
  from fates show ?thesis
    using numbered_nth [OF fates(1)] length_fates [of fates] by (intro exI [of _ fates]) simp
qed

theorem drops_are_narrated_witness:
  "bk_execSeq (app_book (run_events demo_lib [EvFromApp (demo_order ''C1'' ''0'') demo_oe, EvSilence True,
     EvPartial ''C1'' 20 25, EvSilence False, EvFill ''C1'' 26] demo_start)) = 3"
proof -
  let ?es = "[EvFromApp (demo_order ''C1'' ''0'') demo_oe, EvSilence True, EvPartial ''C1'' 20 25,
    EvSilence False, EvFill ''C1'' 26]"
  let ?a = "run_events demo_lib ?es demo_start"
  have "venue_run demo_lib demo_start ?es ?a" by (rule venue_run_events) simp
  moreover have "has_role demo_dc demo_start" using demo_roles(2) [of demo_start] by (simp add: has_role_def)
  moreover have "length (messages_to demo_dc ?a) = 2"
    by (simp add: demo_eval SetSilenced_def messages_to_def)
  moreover have "length (drops (narration demo_lib ?es demo_start)) = 1"
    by (simp add: demo_eval SetSilenced_def FromApp_lines_def NewOrder_lines_def publish_lines_def
        Partial_lines_def Fill_lines_def update_lines_def)
  ultimately show ?thesis using drops_are_narrated [OF demo_started] by fastforce
qed

end
