(* ===== verification/Secrecy.thy ===== *)
theory Secrecy
  imports Narration LogonProps Client
begin

text \<open>
  What the venue lets a reader see of its passwords: nothing but its verdicts on the Logons.
  \<open>public\<close> erases the secrets from a state, the passwords captured at the start
  (\<open>LoadKinds\<close> of \<open>internal/exchange/exchange.go\<close>) and those of the requests that are armed.
  Every handler but that of a Logon works on the erased state as it does on the state itself;
  a Logon is answered by a verdict and by what it carries apart from its password. So two
  venues that differ in passwords alone, and judge the Logons alike, print, send and answer
  the same.
\<close>

subsection \<open>States without their secrets\<close>

definition no_password :: "LogonRequest \<Rightarrow> LogonRequest" where
  "no_password req = req\<lparr>lr_Password := []\<rparr>"

definition public :: "App \<Rightarrow> App" where
  "public a = a\<lparr>app_expect := Map.empty, app_cod := map_option no_password \<circ> app_cod a\<rparr>"

lemma no_password_simps [simp]:
  "lr_CODType (no_password req) = lr_CODType req"
  "lr_CODTimeoutWindow (no_password req) = lr_CODTimeoutWindow req"
  by (simp_all add: no_password_def)

lemma public_select [simp]:
  "app_book (public a) = app_book a" "app_kinds (public a) = app_kinds a"
  "app_loggedOn (public a) = app_loggedOn a" "app_seqnums (public a) = app_seqnums a"
  "app_rejectLogons (public a) = app_rejectLogons a" "app_silenced (public a) = app_silenced a"
  "app_now (public a) = app_now a" "app_outbox (public a) = app_outbox a"
  "app_timers (public a) = app_timers a" "app_cod (public a) sid = map_option no_password (app_cod a sid)"
  "kindOf sid (public a) = kindOf sid a" "sessionOf n0 k (public a) = sessionOf n0 k a"
  "Orders (public a) = Orders a"
  by (simp_all add: public_def kindOf_def sessionOf_def Orders_def)

lemma public_write [simp]:
  "(public a)\<lparr>app_book := b\<rparr> = public (a\<lparr>app_book := b\<rparr>)"
  "(public a)\<lparr>app_loggedOn := up\<rparr> = public (a\<lparr>app_loggedOn := up\<rparr>)"
  "(public a)\<lparr>app_seqnums := ns\<rparr> = public (a\<lparr>app_seqnums := ns\<rparr>)"
  "(public a)\<lparr>app_rejectLogons := t\<rparr> = public (a\<lparr>app_rejectLogons := t\<rparr>)"
  "(public a)\<lparr>app_silenced := v\<rparr> = public (a\<lparr>app_silenced := v\<rparr>)"
  "(public a)\<lparr>app_now := now\<rparr> = public (a\<lparr>app_now := now\<rparr>)"
  "(public a)\<lparr>app_outbox := out\<rparr> = public (a\<lparr>app_outbox := out\<rparr>)"
  "(public a)\<lparr>app_timers := ts\<rparr> = public (a\<lparr>app_timers := ts\<rparr>)"
  by (simp_all add: public_def)

subsection \<open>Handlers on states without secrets\<close>

lemma public_publish [simp]: "publish L r (public a) = public (publish L r a)"
  by (simp add: publish_def send_def Let_def split: prod.split option.split)

lemma public_lines [simp]:
  "publish_lines r (public a) = publish_lines r a" "update_lines i fn t (public a) = update_lines i fn t a"
  by (simp_all add: publish_lines_def update_lines_def split: sum.split)

lemma public_Partial [simp]: "Partial L i q p (public a) = apsnd public (Partial L i q p a)"
  by (simp add: Partial_def split: prod.split sum.split)

lemma public_Fill [simp]: "Fill L i p (public a) = apsnd public (Fill L i p a)"
  by (simp add: Fill_def split: option.split)

lemma public_Cancel [simp]: "Cancel L i t (public a) = apsnd public (Cancel L i t a)"
  by (simp add: Cancel_def split: prod.split sum.split)

lemma public_Reject [simp]: "Reject L i t (public a) = apsnd public (Reject L i t a)"
  by (simp add: Reject_def split: prod.split sum.split)

lemma public_cancel_loop [simp]:
  "cancel_loop L t xs (public a) = public (cancel_loop L t xs a)"
  "cancel_loop_lines L t xs (public a) = cancel_loop_lines L t xs a"
  by (induction xs arbitrary: a) (simp_all split: prod.split sum.split)

lemma public_CancelAll [simp]:
  "CancelAllOpenDay L t (public a) = apsnd public (CancelAllOpenDay L t a)"
  "CancelAll_lines L t (public a) = CancelAll_lines L t a"
  by (simp_all add: CancelAllOpenDay_def CancelAll_lines_def Let_def)

lemma public_new_order [simp]:
  "onNewOrderSingle L msg sid (public a) = apsnd public (onNewOrderSingle L msg sid a)"
  "NewOrder_lines L msg (public a) = NewOrder_lines L msg a"
  by (simp_all add: onNewOrderSingle_def NewOrder_lines_def Let_def split: sum.split prod.split option.split)

lemma public_notes [simp]:
  "noteReceived L msg sid (public a) = public (noteReceived L msg sid a)"
  "noteSent L msg sid (public a) = public (noteSent L msg sid a)"
  by (simp_all add: noteReceived_def noteSent_def split: sum.split)

lemma public_FromApp [simp]:
  "FromApp L msg sid (public a) = apsnd public (FromApp L msg sid a)"
  "FromApp_lines L msg sid (public a) = FromApp_lines L msg sid a"
  by (simp_all add: FromApp_def FromApp_lines_def Let_def split: sum.split)

lemma public_logout [simp]:
  "OnLogout sid (public a) = public (OnLogout sid a)" "OnLogout_lines sid (public a) = OnLogout_lines sid a"
  by (simp_all add: OnLogout_def OnLogout_lines_def onSessionLost_def onSessionLost_lines_def Let_def
      split: option.split)

lemma public_expire [simp]:
  "cod_expire L sid (public a) = public (cod_expire L sid a)"
  "cod_expire_lines L sid (public a) = cod_expire_lines L sid a"
  by (simp_all add: cod_expire_def cod_expire_lines_def Let_def)

text \<open>A Logon is the one event that reads a secret.\<close>

fun reads_no_secret :: "event \<Rightarrow> bool" where
  "reads_no_secret (EvFromAdmin msg sid) = False"
| "reads_no_secret _ = True"

lemma handle_public:
  assumes "reads_no_secret e"
  shows "handle L e (public a) = public (handle L e a)" "narrate L e (public a) = narrate L e a"
proof -
  show "handle L e (public a) = public (handle L e a)"
    using assms
    by (cases e) (simp_all add: OnLogon_def ToAdmin_def ToApp_def SetSilenced_def SetRejectLogons_def run_timer_def)
  show "narrate L e (public a) = narrate L e a"
    using assms
    by (cases e) (simp_all add: OnLogon_lines_def Fill_lines_def Partial_lines_def Cancel_lines_def
        Reject_lines_def Let_def split: option.split)
qed

subsection \<open>Logons\<close>

text \<open>The message without its password: RawData and the length it gives away.\<close>

definition mask_logon :: "message \<Rightarrow> message" where
  "mask_logon msg = msg\<lparr>msg_body := (msg_body msg)(tagRawData := None, tagRawDataLength := None)\<rparr>"

lemma ParseLogon_mask: "ParseLogon L (mask_logon msg) sid = no_password (ParseLogon L msg sid)"
  by (simp add: ParseLogon_def mask_logon_def no_password_def getter_defs tag_defs)

lemma mask_header: "msg_header (mask_logon msg) = msg_header msg"
  by (simp add: mask_logon_def)

text \<open>The state and the lines after an admin message, from the verdict and the masked message.\<close>

definition admin_state :: "lib \<Rightarrow> message \<Rightarrow> SessionID \<Rightarrow> bool \<Rightarrow> App \<Rightarrow> App" where
  "admin_state L msg sid ok a =
     (let a1 = noteReceived L msg sid a
      in if msg_header msg tagMsgType = Some ''A'' \<and> ok
         then a1\<lparr>app_cod := (app_cod a1)(sid \<mapsto> ParseLogon L msg sid)\<rparr> else a1)"

definition admin_lines :: "lib \<Rightarrow> message \<Rightarrow> SessionID \<Rightarrow> bool \<Rightarrow> string \<Rightarrow> line list" where
  "admin_lines L msg sid ok refusal =
     (let req = ParseLogon L msg sid
      in if msg_header msg tagMsgType \<noteq> Some ''A'' then []
         else if \<not> ok then [SaysRefused sid (if refusal \<noteq> [] then refusal else ''invalid credentials'')]
         else if lr_CODType req \<noteq> CODDisabled
         then [SaysArmed sid (lr_CODType req) (lr_CODTimeoutWindow req)] else [])"

lemma noteReceived_header:
  "msg_header m = msg_header m' \<Longrightarrow> noteReceived L m sid a = noteReceived L m' sid a"
  by (simp add: noteReceived_def)

lemma FromAdmin_masked:
  "public (snd (FromAdmin L msg sid a)) =
     admin_state L (mask_logon msg) sid (fst (FromAdmin L msg sid a) = None) (public a)"
  "FromAdmin_lines L msg sid a =
     admin_lines L (mask_logon msg) sid (fst (FromAdmin L msg sid a) = None) (app_rejectLogons a)"
proof -
  have seen: "noteReceived L (mask_logon msg) sid a = noteReceived L msg sid a"
    by (rule noteReceived_header) (rule mask_header)
  have arm: "public (b\<lparr>app_cod := (app_cod b)(sid \<mapsto> req)\<rparr>) =
      (public b)\<lparr>app_cod := (app_cod (public b))(sid \<mapsto> no_password req)\<rparr>" for b req
    by (auto simp: public_def fun_eq_iff)
  show "public (snd (FromAdmin L msg sid a)) =
     admin_state L (mask_logon msg) sid (fst (FromAdmin L msg sid a) = None) (public a)"
    by (auto simp: FromAdmin_def admin_state_def mask_header ParseLogon_mask seen arm Let_def
        getter_defs simp del: public_select split: sum.split option.split)
  show "FromAdmin_lines L msg sid a =
     admin_lines L (mask_logon msg) sid (fst (FromAdmin L msg sid a) = None) (app_rejectLogons a)"
    by (auto simp: FromAdmin_def FromAdmin_lines_def admin_lines_def mask_header ParseLogon_mask
        checkPassword_def note_frame getter_defs Let_def split: sum.split option.split)
qed

subsection \<open>Two runs\<close>

text \<open>Events that differ in passwords alone, and the venue's verdicts on the Logons of a run.\<close>

fun same_but_password :: "event \<Rightarrow> event \<Rightarrow> bool" where
  "same_but_password (EvFromAdmin msg sid) f =
     (case f of EvFromAdmin msg' sid' \<Rightarrow> sid' = sid \<and> mask_logon msg' = mask_logon msg | _ \<Rightarrow> False)"
| "same_but_password e f = (f = e)"

fun verdicts :: "lib \<Rightarrow> event list \<Rightarrow> App \<Rightarrow> bool list" where
  "verdicts L [] a = []"
| "verdicts L (EvFromAdmin msg sid # es) a =
     (fst (FromAdmin L msg sid a) = None) # verdicts L es (snd (FromAdmin L msg sid a))"
| "verdicts L (e # es) a = verdicts L es (handle L e a)"

lemma same_secretless:
  assumes "same_but_password e f" "reads_no_secret e"
  shows "f = e"
  using assms by (cases e) simp_all

lemma same_step:
  assumes "same_but_password e f" "public a = public b"
    and "verdicts L (e # es) a = verdicts L (f # fs) b"
  shows "public (handle L e a) = public (handle L f b)" "narrate L e a = narrate L f b"
    "verdicts L es (handle L e a) = verdicts L fs (handle L f b)"
proof -
  have "public (handle L e a) = public (handle L f b) \<and> narrate L e a = narrate L f b \<and>
      verdicts L es (handle L e a) = verdicts L fs (handle L f b)"
  proof (cases "reads_no_secret e")
    case True
    have "verdicts L (e # gs) c = verdicts L gs (handle L e c)" for gs c using True by (cases e) simp_all
    then show ?thesis
      using assms handle_public [OF True, of L] same_secretless [OF assms(1) True] by metis
  next
    case False
    then obtain msg sid where e: "e = EvFromAdmin msg sid" by (cases e) simp_all
    then obtain msg' where f: "f = EvFromAdmin msg' sid" and mask: "mask_logon msg' = mask_logon msg"
      using assms(1) by (auto split: event.splits)
    have ok: "(fst (FromAdmin L msg sid a) = None) = (fst (FromAdmin L msg' sid b) = None)"
      and rest: "verdicts L es (handle L e a) = verdicts L fs (handle L f b)"
      using assms(3) by (simp_all add: e f)
    have "app_rejectLogons a = app_rejectLogons b" using assms(2) by (metis public_select(5))
    then have "narrate L e a = narrate L f b"
      by (simp add: e f FromAdmin_masked(2) [of L msg] FromAdmin_masked(2) [of L msg'] mask ok)
    moreover have "public (handle L e a) = public (handle L f b)"
      by (simp add: e f FromAdmin_masked(1) mask ok assms(2))
    ultimately show ?thesis using rest by blast
  qed
  then show "public (handle L e a) = public (handle L f b)" "narrate L e a = narrate L f b"
    "verdicts L es (handle L e a) = verdicts L fs (handle L f b)" by blast+
qed

lemma same_runs:
  assumes "venue_run L a es a'" "venue_run L b fs b'" "list_all2 same_but_password es fs"
    and "verdicts L es a = verdicts L fs b" "public a = public b"
  shows "public a' = public b' \<and> narration L es a = narration L fs b"
  using assms
proof (induction arbitrary: b fs rule: venue_run.induct)
  case (run_Nil a)
  then show ?case by simp
next
  case (run_Cons e a es a')
  obtain f gs where fs: "fs = f # gs" "same_but_password e f" "list_all2 same_but_password es gs"
    using run_Cons.prems(2) by (auto simp: list_all2_Cons1)
  note step = same_step [OF fs(2) run_Cons.prems(4) run_Cons.prems(3) [unfolded fs(1)]]
  have "venue_run L (handle L f b) gs b'" using run_Cons.prems(1) fs(1) by simp
  from run_Cons.IH [OF this fs(3) step(3,1)] show ?case by (simp add: fs(1) step(2))
qed

subsection \<open>Where the runs begin and what they end in\<close>

lemma LoadKinds_public:
  "LoadKinds getenv settings a = (r, a') \<Longrightarrow> LoadKinds (\<lambda>_. []) settings (public a) = (r, public a')"
proof (induction settings arbitrary: a)
  case (Cons x rest)
  obtain sid s where x: "x = (sid, s)" by force
  have "capture_password (\<lambda>_. []) sid (RegisterKind sid k (public a)) =
      public (capture_password getenv sid (RegisterKind sid k a))" for k
    by (simp add: capture_password_def Password_def RegisterKind_def public_def Let_def)
  then show ?case using Cons by (auto simp: x Let_def split: option.splits if_splits)
qed simp

text \<open>What a request to the control plane is answered, and what it does to the engine.\<close>

definition answer_of :: "(response \<times> App \<times> 'e) option \<Rightarrow> (response \<times> 'e) option" where
  "answer_of = map_option (\<lambda>(r, a, e). (r, e))"

lemma answer_of_simps [simp]: "answer_of None = None" "answer_of (Some (r, a, e)) = Some (r, e)"
  by (simp_all add: answer_of_def)

lemma fst_answers:
  "fst (admin_fill L q (public a)) = fst (admin_fill L q a)"
  "fst (admin_partial L q (public a)) = fst (admin_partial L q a)"
  "fst (admin_cancel L q (public a)) = fst (admin_cancel L q a)"
  "fst (admin_reject L q (public a)) = fst (admin_reject L q a)"
  "fst (admin_cancelAll L q (public a)) = fst (admin_cancelAll L q a)"
  "fst (admin_sessions L q (public a)) = fst (admin_sessions L q a)"
  "admin_gap n0 get_num set_num q (public a) e = admin_gap n0 get_num set_num q a e"
proof -
  have "session_status L (public a) = session_status L a"
    by (auto simp: session_status_def fun_eq_iff split: option.split)
  then show "fst (admin_sessions L q (public a)) = fst (admin_sessions L q a)"
    by (simp add: admin_sessions_def Sessions_def)
  show "admin_gap n0 get_num set_num q (public a) e = admin_gap n0 get_num set_num q a e"
    by (simp add: admin_gap_def AdvanceSeqNum_def Let_def split: sum.split)
qed (simp_all add: admin_fill_def admin_partial_def admin_cancel_def admin_reject_def admin_cancelAll_def
    split: sum.split prod.split option.split)

lemma Handler_public:
  "answer_of (Handler L n0 get_num set_num pattern q (public a) e) =
   answer_of (Handler L n0 get_num set_num pattern q a e)"
proof -
  have on_app: "answer_of (case x of (r, a1) \<Rightarrow> Some (r, a1, e)) = Some (fst x, e)" for x :: "response \<times> App"
    by (simp split: prod.split)
  have gap: "answer_of (case x of (r, e1) \<Rightarrow> Some (r, c, e1)) = Some x" for x c
    by (simp split: prod.split)
  show ?thesis
    by (simp add: Handler_def Let_def on_app gap fst_answers admin_orders_def admin_silence_def admin_rejectLogon_def)
qed

text \<open>A client's Logon shows its password in RawData and RawDataLength only.\<close>

lemma client_logon_masked:
  "mask_logon (Client_ToAdmin L getenv msg sid c) = mask_logon (Client_ToAdmin L getenv' msg sid c)"
  by (auto simp: Client_ToAdmin_def InjectLogon_def mask_logon_def tag_defs fun_eq_iff Let_def split: sum.split)

text \<open>
  C30. A venue shows nothing of its passwords but its verdicts on Logons. Two venues are started
  from the same settings, in environments that may hold different passwords, and see the same
  events, but that the Logons may carry different passwords; if each Logon is accepted by both
  or refused by both, then they print the same lines, hand the same messages to the engine for
  the same sessions in the same order, and answer every request to the control plane alike.
\<close>

theorem passwords_do_not_show:
  assumes "LoadKinds getenv settings (New NewBook) = (None, a)"
    and "LoadKinds getenv' settings (New NewBook) = (None, b)"
    and "venue_run L a es a'" "venue_run L b fs b'" "list_all2 same_but_password es fs"
    and "verdicts L es a = verdicts L fs b"
  shows "narration L es a = narration L fs b \<and> app_outbox a' = app_outbox b' \<and>
    answer_of (Handler L n0 get_num set_num pattern q a' e) = answer_of (Handler L n0 get_num set_num pattern q b' e)"
proof -
  have "public a = public b" using LoadKinds_public [OF assms(1)] LoadKinds_public [OF assms(2)] by simp
  from same_runs [OF assms(3-6) this] have same: "public a' = public b'" "narration L es a = narration L fs b"
    by simp_all
  from same(1) have "app_outbox a' = app_outbox b'" by (metis public_select(8))
  moreover have "answer_of (Handler L n0 get_num set_num pattern q a' e) =
      answer_of (Handler L n0 get_num set_num pattern q b' e)"
    using same(1) by (metis Handler_public)
  ultimately show ?thesis using same(2) by simp
qed

definition demo_env2 :: environment where
  "demo_env2 v = (if v = ''FIXLAB_OECLIENT_PASSWORD'' then ''tiger'' else [])"

definition demo_logon2 :: message where
  "demo_logon2 = demo_logon\<lparr>msg_body := (msg_body demo_logon)(tagRawData \<mapsto> ''tiger'')\<rparr>"

lemma demo_loaded2:
  "LoadKinds demo_env2 demo_settings (New NewBook) = (None, demo_start\<lparr>app_expect := [''OECLIENT'' \<mapsto> ''tiger'']\<rparr>)"
  by (simp add: demo_settings_def demo_start_def demo_env2_def demo_oe_def demo_dc_def
        venue_consts TrimSpace_def is_space_def ToUpperChar_def New_def RegisterKind_def
        capture_password_def Password_def PasswordEnvVar_def Let_def char_of_def)

theorem passwords_do_not_show_witness:
  "narration demo_lib [EvFromAdmin demo_logon demo_oe, EvLogon demo_oe, EvLogout demo_oe] demo_start =
   narration demo_lib [EvFromAdmin demo_logon2 demo_oe, EvLogon demo_oe, EvLogout demo_oe]
     (demo_start\<lparr>app_expect := [''OECLIENT'' \<mapsto> ''tiger'']\<rparr>)"
proof -
  let ?b = "demo_start\<lparr>app_expect := [''OECLIENT'' \<mapsto> ''tiger'']\<rparr>"
  let ?es = "[EvFromAdmin demo_logon demo_oe, EvLogon demo_oe, EvLogout demo_oe]"
  let ?fs = "[EvFromAdmin demo_logon2 demo_oe, EvLogon demo_oe, EvLogout demo_oe]"
  have runs: "venue_run demo_lib demo_start ?es (run_events demo_lib ?es demo_start)"
    "venue_run demo_lib ?b ?fs (run_events demo_lib ?fs ?b)"
    by (intro venue_run_events, simp)+
  have "mask_logon demo_logon2 = mask_logon demo_logon"
    by (simp add: demo_logon2_def mask_logon_def)
  then have same: "list_all2 same_but_password ?es ?fs" by simp
  have "verdicts demo_lib ?es demo_start = [True]" "verdicts demo_lib ?fs ?b = [True]"
    by (simp_all add: demo_eval demo_logon2_def)
  then have "verdicts demo_lib ?es demo_start = verdicts demo_lib ?fs ?b" by simp
  from passwords_do_not_show [OF demo_loaded demo_loaded2 runs same this, THEN conjunct1] show ?thesis .
qed

end
