(* ===== verification/ClientLog.thy ===== *)
theory ClientLog
  imports DropFeed
begin

text \<open>
  What the clients print (\<open>Log\<close> in \<open>internal/session/client.go\<close>, \<open>internal/client/oe.go\<close> and
  \<open>internal/client/dc.go\<close>). As in \<open>Narration\<close>, a line is one call of \<open>Printf\<close> with the values it
  formats. The console of a client is the list of its lines, and it is as good as its state.
\<close>

datatype client_line =
    PrintsCreated SessionID
  | PrintsLogon SessionID
  | PrintsLogout SessionID
  | PrintsNoCredentials SessionID credential_error
  | PrintsReport string string string rat rat string
  | PrintsReject string
  | PrintsSent string string rat string rat
  | PrintsIgnored string
  | PrintsDuplicate string
  | PrintsRecorded string string string string string

subsection \<open>Every client\<close>

definition Client_OnCreate_lines :: "SessionID \<Rightarrow> client_line list" where
  "Client_OnCreate_lines sid = [PrintsCreated sid]"

definition Client_OnLogon_lines :: "SessionID \<Rightarrow> client_line list" where
  "Client_OnLogon_lines sid = [PrintsLogon sid]"

definition Client_OnLogout_lines :: "SessionID \<Rightarrow> client_line list" where
  "Client_OnLogout_lines sid = [PrintsLogout sid]"

definition Client_ToAdmin_lines ::
  "lib \<Rightarrow> environment \<Rightarrow> message \<Rightarrow> SessionID \<Rightarrow> 'w Client \<Rightarrow> client_line list" where
  "Client_ToAdmin_lines L getenv msg sid c =
     (case GetString (msg_header msg) tagMsgType of
        Inl err \<Rightarrow> []
      | Inr msgType \<Rightarrow>
          if msgType \<noteq> ''A'' then []
          else case fst (InjectLogon L getenv msg sid (cl_Creds c)) of
                 Some err \<Rightarrow> [PrintsNoCredentials sid err]
               | None \<Rightarrow> [])"

subsection \<open>The order-entry client\<close>

definition client_rejectText :: "message \<Rightarrow> string" where
  "client_rejectText msg = (case GetString (msg_body msg) tagText of Inl err \<Rightarrow> ''(no Text)'' | Inr s \<Rightarrow> s)"

text \<open>The dash of the source is three bytes of UTF-8.\<close>

definition replayNote :: "bool \<Rightarrow> string" where
  "replayNote replayed =
     (if replayed
      then ''  [43=Y replay '' @ [CHR 0xE2, CHR 0x80, CHR 0x94] @ '' assign, do not accumulate]'' else [])"

definition OE_onExecutionReport_lines :: "lib \<Rightarrow> message \<Rightarrow> client_line list" where
  "OE_onExecutionReport_lines L er =
     (case read_view L (msg_body er) of
        Inl e \<Rightarrow> []
      | Inr v \<Rightarrow>
          [PrintsReport (ov_ClOrdID v) (get_or (GetString (msg_body er) tagExecType) []) (ov_OrdStatus v)
             (ov_CumQty v) (ov_LeavesQty v) (replayNote (poss_dup L er))])"

definition OE_FromApp_lines :: "lib \<Rightarrow> message \<Rightarrow> client_line list" where
  "OE_FromApp_lines L msg =
     (case GetString (msg_header msg) tagMsgType of
        Inl err \<Rightarrow> []
      | Inr msgType \<Rightarrow>
          if msgType = msgTypeExecutionReport then OE_onExecutionReport_lines L msg
          else if msgType = msgTypeBusinessReject then [PrintsReject (client_rejectText msg)] else [])"

definition Send_lines ::
  "lib \<Rightarrow> (message \<Rightarrow> SessionID \<Rightarrow> 'e \<Rightarrow> string option \<times> 'e) \<Rightarrow> int \<Rightarrow> SessionID \<Rightarrow> NewOrder
     \<Rightarrow> 'w OrderEntry \<Rightarrow> 'e \<Rightarrow> client_line list" where
  "Send_lines L SendToTarget now sid ord c e =
     (case fst (Send L SendToTarget now sid ord c e) of
        Inl err \<Rightarrow> []
      | Inr clOrdID \<Rightarrow> [PrintsSent clOrdID (no_Side ord) (no_OrderQty ord) (no_Symbol ord) (no_Price ord)])"

fun oe_console :: "lib \<Rightarrow> message list \<Rightarrow> client_line list" where
  "oe_console L [] = []"
| "oe_console L (m # ms) = OE_FromApp_lines L m @ oe_console L ms"

subsection \<open>The drop-copy client\<close>

definition DC_onExecutionReport_lines :: "lib \<Rightarrow> message \<Rightarrow> 'w DropCopy \<Rightarrow> client_line list" where
  "DC_onExecutionReport_lines L er c =
     (case read_report L er of
        Inl e \<Rightarrow> []
      | Inr r \<Rightarrow>
          if rr_ExecID r \<in> dc_seen c then [PrintsDuplicate (rr_ExecID r)]
          else [PrintsRecorded (rr_ExecID r) (rr_ClOrdID r) (rr_ExecType r) (rr_OrdStatus r)
                  (replayNote (rr_Replayed r))])"

definition DC_FromApp_lines :: "lib \<Rightarrow> message \<Rightarrow> 'w DropCopy \<Rightarrow> client_line list" where
  "DC_FromApp_lines L msg c =
     (case GetString (msg_header msg) tagMsgType of
        Inl err \<Rightarrow> []
      | Inr msgType \<Rightarrow>
          if msgType \<noteq> ''8'' then [PrintsIgnored msgType] else DC_onExecutionReport_lines L msg c)"

fun dc_console :: "lib \<Rightarrow> SessionID \<Rightarrow> message list \<Rightarrow> 'w DropCopy \<Rightarrow> 'w \<Rightarrow> client_line list" where
  "dc_console L sid [] c w = []"
| "dc_console L sid (m # ms) c w =
     DC_FromApp_lines L m c @
     (case DC_FromApp L m sid c w of (r, c1, w1) \<Rightarrow> dc_console L sid ms c1 w1)"

subsection \<open>Reading a console\<close>

text \<open>The order a line reports, its replays, the records and the duplicates.\<close>

fun shown_order :: "client_line \<Rightarrow> (string \<times> string \<times> rat \<times> rat) option" where
  "shown_order (PrintsReport i t s cum leaves note') = Some (i, s, cum, leaves)"
| "shown_order _ = None"

fun is_replay :: "client_line \<Rightarrow> bool" where
  "is_replay (PrintsReport i t s cum leaves note') = (note' \<noteq> [])"
| "is_replay _ = False"

fun is_duplicate :: "client_line \<Rightarrow> bool" where
  "is_duplicate (PrintsDuplicate i) = True"
| "is_duplicate _ = False"

fun is_record :: "client_line \<Rightarrow> bool" where
  "is_record (PrintsRecorded e i t s note') = True"
| "is_record _ = False"

definition view_of_order :: "OrderView \<Rightarrow> string \<times> rat \<times> rat" where
  "view_of_order v = (ov_OrdStatus v, ov_CumQty v, ov_LeavesQty v)"

definition record_line :: "Report \<Rightarrow> client_line" where
  "record_line r =
     PrintsRecorded (rr_ExecID r) (rr_ClOrdID r) (rr_ExecType r) (rr_OrdStatus r) (replayNote (rr_Replayed r))"

text \<open>The last line of each order.\<close>

definition last_shown :: "client_line list \<Rightarrow> string \<rightharpoonup> string \<times> rat \<times> rat" where
  "last_shown ls = map_of (rev (List.map_filter shown_order ls))"

lemma last_shown_simps [simp]:
  "last_shown [] = Map.empty" "last_shown (ls @ ls') = last_shown ls ++ last_shown ls'"
  by (simp_all add: last_shown_def map_filter_def)

lemma oe_step_console:
  assumes "OE_FromApp L m sid c w = (r, c1, w1)"
  shows "map_option view_of_order \<circ> oe_orders c1 =
      (map_option view_of_order \<circ> oe_orders c) ++ last_shown (OE_FromApp_lines L m)"
    "oe_replays c1 = oe_replays c + length (filter is_replay (OE_FromApp_lines L m))"
  using assms
  by (auto simp: OE_FromApp_def OE_FromApp_lines_def OE_onExecutionReport_def OE_onExecutionReport_lines_def
      last_shown_def map_filter_def view_of_order_def replayNote_def Let_def fun_eq_iff map_add_def
      split: sum.splits if_splits)

lemma dc_step_console:
  assumes "DC_FromApp L m sid c w = (r, c1, w1)"
  shows "map record_line (dc_reports c1) = map record_line (dc_reports c) @ filter is_record (DC_FromApp_lines L m c)"
    "dc_dupes c1 = dc_dupes c + length (filter is_duplicate (DC_FromApp_lines L m c))"
  using assms
  by (auto simp: DC_FromApp_def DC_FromApp_lines_def DC_onExecutionReport_def DC_onExecutionReport_lines_def
      record_line_def Let_def split: sum.splits if_splits)

subsection \<open>The console and the state\<close>

text \<open>
  The console of the order-entry client can stand for its state: whatever messages it is
  delivered, readable or not, the last line that reports an order shows the status and the
  quantities the client holds for it, an order without a line is one the client does not know,
  and the lines marked as replays are the replays it counts.
\<close>

theorem order_console_is_view:
  "map_option view_of_order (OE_Order i (fst (oe_feed L sid ms (NewOrderEntry creds) w))) =
     last_shown (oe_console L ms) i \<and>
   ReplayCount (fst (oe_feed L sid ms (NewOrderEntry creds) w)) = length (filter is_replay (oe_console L ms))"
proof -
  have "map_option view_of_order \<circ> oe_orders (fst (oe_feed L sid ms c w)) =
      (map_option view_of_order \<circ> oe_orders c) ++ last_shown (oe_console L ms) \<and>
    oe_replays (fst (oe_feed L sid ms c w)) = oe_replays c + length (filter is_replay (oe_console L ms))" for c
  proof (induction ms arbitrary: c w)
    case (Cons m ms)
    obtain r c1 w1 where step: "OE_FromApp L m sid c w = (r, c1, w1)" by (cases "OE_FromApp L m sid c w") auto
    show ?case using Cons [of c1 w1] oe_step_console [OF step] by (simp add: step o_def)
  qed simp
  from this [of "NewOrderEntry creds"] show ?thesis
    by (auto simp: NewOrderEntry_def OE_Order_def ReplayCount_def fun_eq_iff map_add_def)
qed

text \<open>
  The console of the drop-copy client is its journal: whatever messages it is delivered, the
  lines of recorded reports are its reports in order, and there is one line for every duplicate.
\<close>

theorem copy_console_is_journal:
  "filter is_record (dc_console L sid ms (NewDropCopy creds) w) =
     map record_line (Reports (fed (dc_feed L sid ms (NewDropCopy creds) w))) \<and>
   length (filter is_duplicate (dc_console L sid ms (NewDropCopy creds) w)) =
     Duplicates (fed (dc_feed L sid ms (NewDropCopy creds) w))"
proof -
  have "map record_line (dc_reports (fed (dc_feed L sid ms c w))) =
      map record_line (dc_reports c) @ filter is_record (dc_console L sid ms c w) \<and>
    dc_dupes (fed (dc_feed L sid ms c w)) = dc_dupes c + length (filter is_duplicate (dc_console L sid ms c w))" for c
  proof (induction ms arbitrary: c w)
    case (Cons m ms)
    obtain r c1 w1 where step: "DC_FromApp L m sid c w = (r, c1, w1)" by (cases "DC_FromApp L m sid c w") auto
    obtain rs c2 w2 where rest: "dc_feed L sid ms c1 w1 = (rs, c2, w2)" by (cases "dc_feed L sid ms c1 w1") auto
    show ?case using Cons [of c1 w1] dc_step_console [OF step] by (simp add: step rest)
  qed simp
  from this [of "NewDropCopy creds"] show ?thesis
    by (simp add: NewDropCopy_def Reports_def Duplicates_def)
qed

end
