(* ===== verification/WatchLog.thy ===== *)
theory WatchLog
  imports WatchProps
begin

text \<open>
  What the watchdog and the supervisor print (\<open>Log\<close> in \<open>internal/session/watchdog.go\<close> and
  \<open>supervisor.go\<close>), on the one console the order-entry binary gives to both. A line is one call of
  \<open>Printf\<close> with the values it formats; the field \<open>Log\<close> is only asked whether it is set. The
  console accounts for every reconnect: which it was, whether it worked, and so what the
  supervisor holds.
\<close>

datatype watch_line =
    PrintsForcing int nat
  | PrintsReconnectFailed string
  | PrintsRebuilding

definition logf :: "bool \<Rightarrow> watch_line \<Rightarrow> watch_line list" where
  "logf logs l = (if logs then [l] else [])"

text \<open>\<open>Round(time.Millisecond)\<close>: half away from zero, kept within 64 bits.\<close>

definition round_ms :: "int \<Rightarrow> int" where
  "round_ms d =
     (let r = \<bar>d\<bar> mod 1000000
      in if d < 0
         then (if r + r < 1000000 then d + r else max (- (2 ^ 63)) (d - 1000000 + r))
         else (if r + r < 1000000 then d - r else min (2 ^ 63 - 1) (d + 1000000 - r)))"

text \<open>The lines of a tick. \<open>says\<close> is what the closure \<open>Restart\<close> prints.\<close>

definition check_lines ::
  "bool \<Rightarrow> watch_line list \<Rightarrow> ('r \<Rightarrow> string option \<times> 'r) option \<Rightarrow> int \<Rightarrow> Watchdog \<Rightarrow> 'r \<Rightarrow> watch_line list" where
  "check_lines logs says restart now w r =
     (if (case wd_Active w of None \<Rightarrow> False | Some active \<Rightarrow> \<not> active now) then []
      else
        let silent = now - wd_lastApp w
        in if silent < wd_Timeout w then []
           else
             logf logs (PrintsForcing (round_ms silent) (wd_fired w + 1)) @
             (case restart of
                None \<Rightarrow> []
              | Some f \<Rightarrow>
                  says @ (case fst (f r) of None \<Rightarrow> [] | Some err \<Rightarrow> logf logs (PrintsReconnectFailed err))))"

definition Restart_lines :: "bool \<Rightarrow> watch_line list" where
  "Restart_lines logs = (if logs then [PrintsRebuilding] else [])"

fun supervisor_text :: "supervisor_error \<Rightarrow> string" where
  "supervisor_text AlreadyRunning = ''initiator already running''"
| "supervisor_text (BuildInitiator err) = ''build initiator: '' @ err"
| "supervisor_text (StartInitiator err) = ''start initiator: '' @ err"

text \<open>\<open>supervisor.Restart\<close> as the field of the watchdog.\<close>

definition restarts_with :: "('i, 'e) engine \<Rightarrow> 'i Supervisor \<times> 'e \<Rightarrow> string option \<times> 'i Supervisor \<times> 'e" where
  "restarts_with E = (\<lambda>(s, e). case Restart E s e of (answer, s', e') \<Rightarrow> (map_option supervisor_text answer, (s', e')))"

subsection \<open>The console of a run\<close>

type_synonym ('i, 'e) watch_state = "(int \<times> Watchdog) OrderEntry \<times> Watchdog \<times> 'i Supervisor \<times> 'e"

definition event_lines :: "bool \<Rightarrow> ('i, 'e) engine \<Rightarrow> watch_event \<Rightarrow> ('i, 'e) watch_state \<Rightarrow> watch_line list" where
  "event_lines logs E ev = (\<lambda>(c, w, r).
     (case ev of
        WTick t \<Rightarrow> check_lines logs (Restart_lines logs) (Some (restarts_with E)) t w r
      | _ \<Rightarrow> []))"

fun watch_run ::
  "lib \<Rightarrow> SessionID \<Rightarrow> bool \<Rightarrow> ('i, 'e) engine \<Rightarrow> watch_event list \<Rightarrow> ('i, 'e) watch_state
     \<Rightarrow> watch_line list \<times> ('i, 'e) watch_state" where
  "watch_run L sid logs E [] s = ([], s)"
| "watch_run L sid logs E (ev # evs) s =
     (case watch_run L sid logs E evs (watch_step L sid (Some (restarts_with E)) ev s) of
        (out, s') \<Rightarrow> (event_lines logs E ev s @ out, s'))"

subsection \<open>Reading it\<close>

fun forced :: "watch_line list \<Rightarrow> nat list" where
  "forced [] = []"
| "forced (PrintsForcing d n # ls) = n # forced ls"
| "forced (_ # ls) = forced ls"

fun failed :: "watch_line list \<Rightarrow> nat" where
  "failed [] = 0"
| "failed (PrintsReconnectFailed err # ls) = Suc (failed ls)"
| "failed (_ # ls) = failed ls"

definition ends_failed :: "watch_line list \<Rightarrow> bool" where
  "ends_failed ls \<longleftrightarrow> ls \<noteq> [] \<and> (case last ls of PrintsReconnectFailed err \<Rightarrow> True | _ \<Rightarrow> False)"

lemma forced_append [simp]: "forced (xs @ ys) = forced xs @ forced ys"
  by (induction xs rule: forced.induct) auto

lemma failed_append [simp]: "failed (xs @ ys) = failed xs + failed ys"
  by (induction xs rule: failed.induct) auto

lemma round_ms_near:
  assumes "0 \<le> d" "d < 2 ^ 63"
  shows "\<bar>round_ms d - d\<bar> \<le> 500000"
proof -
  let ?r = "d mod 1000000"
  have r: "0 \<le> ?r" "?r < 1000000" by simp_all
  show ?thesis using assms r by (auto simp: round_ms_def Let_def min_def)
qed

lemma round_ms_below:
  assumes "0 \<le> t" "t < 2 ^ 63" "t \<le> d"
  shows "t - 500000 \<le> round_ms d"
proof -
  have "0 \<le> d mod 1000000" "d mod 1000000 < 1000000" by simp_all
  then show ?thesis using assms by (auto simp: round_ms_def Let_def min_def)
qed

text \<open>The account of one tick; the rest of a run adds up.\<close>

definition balances ::
  "Watchdog \<Rightarrow> 'i Supervisor \<Rightarrow> watch_line list \<Rightarrow> Watchdog \<Rightarrow> 'i Supervisor \<Rightarrow> bool" where
  "balances w s out w' s' \<longleftrightarrow>
     Fired w \<le> Fired w' \<and> wd_Timeout w' = wd_Timeout w \<and>
     forced out = map Suc [Fired w ..< Fired w'] \<and>
     count_list out PrintsRebuilding = Fired w' - Fired w \<and>
     Starts s' + failed out = Starts s + (Fired w' - Fired w) \<and>
     (if out = [] then s' = s else sv_current s' = None \<longleftrightarrow> ends_failed out) \<and>
     (\<forall>d n. PrintsForcing d n \<in> set out \<and> 0 \<le> wd_Timeout w \<and> wd_Timeout w < 2 ^ 63 \<longrightarrow> wd_Timeout w - 500000 \<le> d)"

lemma balances_none: "wd_Timeout w' = wd_Timeout w \<Longrightarrow> Fired w' = Fired w \<Longrightarrow> balances w s [] w' s"
  by (simp add: balances_def)

lemma balances_append:
  assumes "balances w s out w1 s1" "balances w1 s1 out' w' s'"
  shows "balances w s (out @ out') w' s'"
proof -
  have "map Suc [Fired w ..< Fired w'] = map Suc [Fired w ..< Fired w1] @ map Suc [Fired w1 ..< Fired w']"
    using assms upt_add_eq_append [of "Fired w" "Fired w1" "Fired w' - Fired w1"] by (simp add: balances_def)
  moreover have "ends_failed (out @ out') = (if out' = [] then ends_failed out else ends_failed out')"
    by (simp add: ends_failed_def)
  ultimately show ?thesis
    using assms by (auto simp: balances_def split: if_splits)
qed

lemma balances_tick:
  "balances w (fst r) (check_lines True (Restart_lines True) (Some (restarts_with E)) t w r)
     (fst (check (Some (restarts_with E)) t w r)) (fst (snd (check (Some (restarts_with E)) t w r)))"
proof -
  obtain s e where r: "r = (s, e)" by (cases r)
  obtain answer s' e' where restart: "Restart E s e = (answer, s', e')" by (metis surj_pair)
  have held: "if answer = None then sv_current s' \<noteq> None \<and> Starts s' = Starts s + 1
      else sv_current s' = None \<and> Starts s' = Starts s"
    using restart by (auto simp: Restart_def stopLocked_def startLocked_def Starts_def
        split: option.splits prod.splits sum.splits)
  show ?thesis
  proof (cases "suspicious t w \<and> wd_Timeout w \<le> t - wd_lastApp w")
    case False
    then have "check (Some (restarts_with E)) t w r = (w, r)"
      "check_lines True (Restart_lines True) (Some (restarts_with E)) t w r = []"
      by (auto simp: check_def check_lines_def suspicious_def Let_def split: option.split)
    then show ?thesis by (simp add: balances_none)
  next
    case True
    then have fires: "\<not> (case wd_Active w of None \<Rightarrow> False | Some active \<Rightarrow> \<not> active t)" "\<not> t - wd_lastApp w < wd_Timeout w"
      by (auto simp: suspicious_def split: option.splits)
    then have "check (Some (restarts_with E)) t w r = (w\<lparr>wd_lastApp := t, wd_fired := wd_fired w + 1\<rparr>, (s', e'))"
      "check_lines True (Restart_lines True) (Some (restarts_with E)) t w r =
         [PrintsForcing (round_ms (t - wd_lastApp w)) (wd_fired w + 1), PrintsRebuilding] @
         (case answer of None \<Rightarrow> [] | Some err \<Rightarrow> [PrintsReconnectFailed (supervisor_text err)])"
      by (simp_all add: check_def check_lines_def restarts_with_def r restart logf_def Restart_lines_def Let_def
          split: option.split)
    then show ?thesis
      using held True round_ms_below [of "wd_Timeout w" "t - wd_lastApp w"]
      by (auto simp: balances_def Fired_def r ends_failed_def split: option.split)
  qed
qed

lemma balances_event:
  assumes "watched c" "watch_step L sid (Some (restarts_with E)) ev (c, w, r) = (c1, w1, r1)"
  shows "balances w (fst r) (event_lines True E ev (c, w, r)) w1 (fst r1)"
proof (cases ev)
  case (WTick t)
  then show ?thesis using assms(2) balances_tick [of w r E t] by (simp add: watch_step_def event_lines_def)
next
  case (WApp m t)
  then have "w1 = Notify t w" using assms watch_step_watchdog [OF assms(1), of L sid "Some (restarts_with E)" ev w r] by simp
  moreover have "r1 = r" using assms(2) WApp by (auto simp: watch_step_def split: prod.splits)
  ultimately show ?thesis using WApp by (simp add: event_lines_def balances_none)
next
  case (WAdmin m t)
  then have "w1 = w" using assms watch_step_watchdog [OF assms(1), of L sid "Some (restarts_with E)" ev w r] by simp
  moreover have "r1 = r" using assms(2) WAdmin by (auto simp: watch_step_def split: prod.splits)
  ultimately show ?thesis using WAdmin by (simp add: event_lines_def balances_none)
qed

lemma balances_run:
  "watched c \<Longrightarrow> watch_run L sid True E evs (c, w, r) = (out, c', w', r') \<Longrightarrow> balances w (fst r) out w' (fst r')"
proof (induction evs arbitrary: c w r out)
  case Nil
  then show ?case by (simp add: balances_none)
next
  case (Cons ev evs)
  obtain c1 w1 r1 where step: "watch_step L sid (Some (restarts_with E)) ev (c, w, r) = (c1, w1, r1)"
    by (metis surj_pair)
  have c1: "watched c1"
    using watch_step_watched [OF Cons.prems(1), of L sid "Some (restarts_with E)" ev w r] by (simp add: step)
  obtain out1 where run: "watch_run L sid True E evs (c1, w1, r1) = (out1, c', w', r')"
    and out: "out = event_lines True E ev (c, w, r) @ out1"
    using Cons.prems(2) by (auto simp: step split: prod.splits)
  show ?case
    unfolding out by (rule balances_append [OF balances_event [OF Cons.prems(1) step] Cons.IH [OF c1 run]])
qed

subsection \<open>Properties\<close>

text \<open>
  C20. The console accounts for every reconnect: whatever messages and ticks come, the lines that
  announce one are numbered without a gap up to \<open>Fired\<close>, each names a silence of no less than
  \<open>Timeout\<close> (to the half millisecond), each is followed by one rebuilding, and the rebuildings
  less the failures are the initiators the supervisor counted; it holds none exactly when the
  last line is a failure.
\<close>

theorem console_accounts:
  assumes "watched c" "watch_run L sid True E evs (c, w, s, e) = (out, c', w', s', e')"
    and "0 \<le> wd_Timeout w" "wd_Timeout w < 2 ^ 63"
  shows "forced out = map Suc [Fired w ..< Fired w'] \<and>
    count_list out PrintsRebuilding = Fired w' - Fired w \<and>
    Starts s' + failed out = Starts s + count_list out PrintsRebuilding \<and>
    (out \<noteq> [] \<longrightarrow> (sv_current s' = None \<longleftrightarrow> ends_failed out)) \<and>
    (\<forall>d n. PrintsForcing d n \<in> set out \<longrightarrow> wd_Timeout w - 500000 \<le> d)"
  using balances_run [OF assms(1,2)] assms(3,4) by (simp add: balances_def split: if_splits)

theorem console_accounts_witness:
  "\<exists>out c' w' s' e'.
     watch_run demo_lib demo_client True demo_engine [WTick 5, WAdmin demo_logon 8, WTick 12, WTick 30, WTick 60]
       (demo_watched, new_watchdog 10 5 None, \<lparr>sv_current = Some 0, sv_starts = 1\<rparr>, (1, {0})) = (out, c', w', s', e') \<and>
     forced out = [1, 2, 3] \<and> failed out = 1 \<and> Starts s' = 3 \<and> sv_current s' = Some 3"
proof -
  let ?evs = "[WTick 5, WAdmin demo_logon 8, WTick 12, WTick 30, WTick 60]"
  let ?s = "(demo_watched, new_watchdog 10 5 None, \<lparr>sv_current = Some 0, sv_starts = 1\<rparr>, (1, {0}))"
  obtain out c' w' s' e' where run: "watch_run demo_lib demo_client True demo_engine ?evs ?s = (out, c', w', s', e')"
    by (metis surj_pair)
  then have out: "count_list out PrintsRebuilding = 3" "Fired w' = 3" "Starts s' = 3" "sv_current s' = Some 3"
    by (auto simp: watch_step_def check_def event_lines_def check_lines_def restarts_with_def Restart_def
        Restart_lines_def logf_def stopLocked_def startLocked_def demo_engine_def new_watchdog_def
        watched_admin [OF demo_watched] Fired_def Starts_def Let_def)
  from console_accounts [OF demo_watched run] out
  have "forced out = map Suc [0 ..< 3]" "failed out = 1"
    by (simp_all add: new_watchdog_def Fired_def Starts_def)
  then show ?thesis using run out by (auto simp: upt_rec)
qed

end
