(* ===== verification/Lab.thy ===== *)
theory Lab
  imports Lifecycle DropFeed LogonProps
begin

text \<open>
  The lab as one system: the venue (\<open>internal/exchange\<close>), the order-entry client
  (\<open>internal/client/oe.go\<close>) and the drop-copy client (\<open>internal/client/dc.go\<close>), joined by the
  engine. Three streams of messages flow: orders to the venue, reports to each client. What a
  party has handed to the engine is a list that only grows (\<open>lab_sent\<close>, and the venue's outbox);
  a pointer per stream says what is delivered next. The engine delivers in order and loses
  nothing, but it may go back at any time and deliver again from an earlier message, as it
  does after a resend request. Between deliveries the venue sees any other event (commands,
  timers, logons, the clock). In a silence it drops reports on purpose, so the state remembers
  whether there ever was one (\<open>lab_muted\<close>): what the client knows of an order depends on it.
\<close>

subsection \<open>The system\<close>

text \<open>The sessions: two of the venue, and the two of the clients.\<close>

record wiring =
  wi_oe :: SessionID
  wi_dc :: SessionID
  wi_client :: SessionID
  wi_copy :: SessionID

record 'w lab =
  lab_venue :: App
  lab_muted :: bool
  lab_oe :: "'w OrderEntry"
  lab_dc :: "'w DropCopy"
  lab_world :: 'w
  lab_sent :: "message list"
  lab_up :: nat
  lab_down :: nat
  lab_copied :: nat

abbreviation to_client :: "wiring \<Rightarrow> 'w lab \<Rightarrow> message list" where
  "to_client W c \<equiv> messages_to (wi_oe W) (lab_venue c)"

abbreviation to_copy :: "wiring \<Rightarrow> 'w lab \<Rightarrow> message list" where
  "to_copy W c \<equiv> messages_to (wi_dc W) (lab_venue c)"

datatype lab_step =
    SendsOrder int NewOrder
  | SendFails int NewOrder string
  | VenueTakes message
  | VenueSees event
  | ClientTakes message
  | CopyTakes message
  | ResendUp nat
  | ResendDown nat
  | ResendCopy nat

text \<open>The engine on the client's side: it takes a message, or answers an error.\<close>

definition engine_takes :: "message \<Rightarrow> SessionID \<Rightarrow> message list \<Rightarrow> string option \<times> message list" where
  "engine_takes m sid sent = (None, sent @ [m])"

definition engine_refuses :: "string \<Rightarrow> message \<Rightarrow> SessionID \<Rightarrow> message list \<Rightarrow> string option \<times> message list" where
  "engine_refuses err m sid sent = (Some err, sent)"

fun other_event :: "event \<Rightarrow> bool" where
  "other_event (EvFromApp msg sid) = False"
| "other_event _ = True"

text \<open>The next message of a stream, as the engine delivers it.\<close>

definition next_of :: "message list \<Rightarrow> nat \<Rightarrow> message \<Rightarrow> bool" where
  "next_of ms k m \<longleftrightarrow> k < length ms \<and> carries m (ms ! k)"

fun lab_act :: "lib \<Rightarrow> wiring \<Rightarrow> lab_step \<Rightarrow> 'w lab \<Rightarrow> 'w lab option" where
  "lab_act L W (SendsOrder now ord) c =
     (case Send L engine_takes now (wi_client W) ord (lab_oe c) (lab_sent c) of
        (answer, oe, sent) \<Rightarrow> Some (c\<lparr>lab_oe := oe, lab_sent := sent\<rparr>))"
| "lab_act L W (SendFails now ord err) c =
     (case Send L (engine_refuses err) now (wi_client W) ord (lab_oe c) (lab_sent c) of
        (answer, oe, sent) \<Rightarrow> Some (c\<lparr>lab_oe := oe, lab_sent := sent\<rparr>))"
| "lab_act L W (VenueTakes m) c =
     (if next_of (lab_sent c) (lab_up c) m
      then Some (c\<lparr>lab_venue := handle L (EvFromApp m (wi_oe W)) (lab_venue c), lab_up := Suc (lab_up c)\<rparr>)
      else None)"
| "lab_act L W (VenueSees e) c =
     (if other_event e \<and> enabled e (lab_venue c)
      then Some (c\<lparr>lab_venue := handle L e (lab_venue c), lab_muted := (lab_muted c \<or> e = EvSilence True)\<rparr>) else None)"
| "lab_act L W (ClientTakes m) c =
     (if next_of (to_client W c) (lab_down c) m
      then case OE_FromApp L m (wi_client W) (lab_oe c) (lab_world c) of
             (answer, oe, w) \<Rightarrow> Some (c\<lparr>lab_oe := oe, lab_world := w, lab_down := Suc (lab_down c)\<rparr>)
      else None)"
| "lab_act L W (CopyTakes m) c =
     (if next_of (to_copy W c) (lab_copied c) m
      then case DC_FromApp L m (wi_copy W) (lab_dc c) (lab_world c) of
             (answer, dc, w) \<Rightarrow> Some (c\<lparr>lab_dc := dc, lab_world := w, lab_copied := Suc (lab_copied c)\<rparr>)
      else None)"
| "lab_act L W (ResendUp k) c = (if k \<le> lab_up c then Some (c\<lparr>lab_up := k\<rparr>) else None)"
| "lab_act L W (ResendDown k) c = (if k \<le> lab_down c then Some (c\<lparr>lab_down := k\<rparr>) else None)"
| "lab_act L W (ResendCopy k) c = (if k \<le> lab_copied c then Some (c\<lparr>lab_copied := k\<rparr>) else None)"

fun lab_run :: "lib \<Rightarrow> wiring \<Rightarrow> lab_step list \<Rightarrow> 'w lab \<Rightarrow> 'w lab option" where
  "lab_run L W [] c = Some c"
| "lab_run L W (x # xs) c = Option.bind (lab_act L W x c) (lab_run L W xs)"

text \<open>The lab as it starts: settings loaded, two new clients, nothing sent.\<close>

definition lab_start :: "wiring \<Rightarrow> LogonCredentials \<Rightarrow> string \<Rightarrow> LogonCredentials \<Rightarrow> 'w \<Rightarrow> App \<Rightarrow> 'w lab" where
  "lab_start W creds prefix copy_creds w a =
     \<lparr>lab_venue = a, lab_muted = False, lab_oe = SetClOrdIDPrefix prefix (NewOrderEntry creds), lab_dc = NewDropCopy copy_creds,
      lab_world = w, lab_sent = [], lab_up = 0, lab_down = 0, lab_copied = 0\<rparr>"

definition wired :: "wiring \<Rightarrow> App \<Rightarrow> bool" where
  "wired W a \<longleftrightarrow> sole KindOrderEntry a (wi_oe W) \<and> sole KindDropCopy a (wi_dc W)"

definition lab_reachable :: "lib \<Rightarrow> wiring \<Rightarrow> 'w lab \<Rightarrow> bool" where
  "lab_reachable L W c \<longleftrightarrow>
     (\<exists>creds prefix copy_creds w a xs. started a \<and> wired W a \<and>
        lab_run L W xs (lab_start W creds prefix copy_creds w a) = Some c)"

subsection \<open>What an event leaves of the venue\<close>

text \<open>The outbox only grows and the roles stay: an interpretation of the handlers' interface.\<close>

definition later_than :: "App \<Rightarrow> App \<Rightarrow> bool" where
  "later_than a0 a \<longleftrightarrow> book_inv (app_book a) \<and> app_kinds a = app_kinds a0 \<and> (\<exists>new. app_outbox a = app_outbox a0 @ new)"

lemma publish_outbox: "\<exists>new. app_outbox (publish L r a) = app_outbox a @ new"
  by (auto simp: publish_def send_def NextExecID_def Let_def split: option.split)

lemma later_publish: "later_than a0 a \<Longrightarrow> book_inv b \<Longrightarrow> later_than a0 (publish L r (a\<lparr>app_book := b\<rparr>))"
  using publish_outbox [of L r "a\<lparr>app_book := b\<rparr>"] by (auto simp: later_than_def)

interpretation later: venue_closed L "later_than a0" "\<lambda>_. True" for L a0
  by unfold_locales (auto simp: later_publish, auto simp: later_than_def SetSilenced_def)

lemma handle_later:
  assumes "reachable L a"
  shows "later_than a (handle L e a)"
  using later.closed_handle [of a a e L] venue_inv_book [OF reachable_inv [OF assms]] by (simp add: later_than_def)

lemma outbox_grows:
  assumes "reachable L a"
  obtains new where "messages_to sid (handle L e a) = messages_to sid a @ new"
  using handle_later [OF assms, of e] that by (auto simp: later_than_def messages_to_def)

lemma wired_handle: "reachable L a \<Longrightarrow> wired W a \<Longrightarrow> wired W (handle L e a)"
  using handle_later [of L a e] by (simp add: wired_def later_than_def sole_def)

lemma sequence_frame [simp]:
  "bk_sequence (snd (Update i fn b)) = bk_sequence b" "bk_sequence (snd (NextExecID b)) = bk_sequence b"
  by (auto simp: Update_def store_def NextExecID_def Let_def split: option.splits prod.splits)

lemma sequence_publish [simp]: "bk_sequence (app_book (publish L r a)) = bk_sequence (app_book a)"
  by (simp add: publish_def send_def Let_def case_prod_beta split: option.split)

lemma sequence_updated:
  assumes "Update i fn b = (r, b')"
  shows "bk_sequence b' = bk_sequence b"
  using sequence_frame(1) [of i fn b] assms by simp

lemma sequence_cancel_loop: "bk_sequence (app_book (cancel_loop L t xs a)) = bk_sequence (app_book a)"
  by (induction L t xs a rule: cancel_loop.induct) (auto simp: sequence_updated split: prod.split sum.split)

text \<open>Only a NewOrderSingle inserts an order.\<close>

lemma other_event_sequence:
  assumes "other_event e"
  shows "bk_sequence (app_book (handle L e a)) = bk_sequence (app_book a)"
proof -
  have partial: "bk_sequence (app_book (snd (Partial L i q p a))) = bk_sequence (app_book a)" for i q p
    by (auto simp: Partial_def sequence_updated split: prod.split sum.split)
  have cancel: "bk_sequence (app_book (snd (CancelAllOpenDay L t b))) = bk_sequence (app_book b)" for t b
    by (simp add: CancelAllOpenDay_def sequence_cancel_loop Let_def)
  show ?thesis
    using assms partial cancel
    by (cases e) (auto simp: frame SetSilenced_def SetRejectLogons_def Fill_def Cancel_def Reject_def
        run_timer_def cod_expire_def sequence_updated Let_def split: prod.split sum.split option.split)
qed

lemma other_event_orders:
  assumes "venue_inv a" "other_event e"
  shows "list_all2 order_step (Orders a) (Orders (handle L e a))"
proof -
  obtain mid new where new: "Orders (handle L e a) = mid @ new" "list_all2 order_step (Orders a) mid"
    using handle_good [OF assms(1), of L e] by (auto simp: extends_def)
  have "length (Orders (handle L e a)) = length (Orders a)"
    using other_event_sequence [OF assms(2), of L a] by (simp add: Orders_def All_orders_def)
  with new have "new = []" by (auto dest: list_all2_lengthD)
  with new show ?thesis by simp
qed


subsection \<open>The invariant\<close>

text \<open>
  The order a message asked for, as the venue keeps it: with the client's terms, its quantity as
  the wire carries it without decimals and its price with two, which are the ones asked for if
  they have no more places.
\<close>

definition order_of :: "lib \<Rightarrow> OrderState \<Rightarrow> message \<Rightarrow> bool" where
  "order_of L ord m \<longleftrightarrow>
     (\<exists>now asked. m = new_order_message L now (os_ClOrdID ord) asked \<and>
        os_Symbol ord = no_Symbol asked \<and> os_Side ord = no_Side asked \<and> os_Account ord = no_Account asked \<and>
        os_OrderQty ord = carried L 0 (no_OrderQty asked) \<and> os_Price ord = carried L 2 (no_Price asked) \<and>
        (has_scale 0 (no_OrderQty asked) \<longrightarrow> os_OrderQty ord = no_OrderQty asked) \<and>
        (has_scale 2 (no_Price asked) \<longrightarrow> os_Price ord = no_Price asked) \<and>
        os_OrdType ord = ''2'' \<and> os_TimeInForce ord = TIFDay)"

lemma order_of_step: "order_of L ord m \<Longrightarrow> order_step ord ord' \<Longrightarrow> order_of L ord' m"
  by (auto simp: order_of_def order_step_def same_terms_def)

definition asked_as :: "lib \<Rightarrow> string \<Rightarrow> nat \<Rightarrow> message \<Rightarrow> bool" where
  "asked_as L prefix n m \<longleftrightarrow> (\<exists>now asked. m = new_order_message L now (clordid prefix n) asked)"

text \<open>What the client sent: its own numbers, in rising order.\<close>

definition numbered_orders :: "lib \<Rightarrow> message list \<Rightarrow> 'w OrderEntry \<Rightarrow> bool" where
  "numbered_orders L sent oe \<longleftrightarrow>
     (\<exists>ns. sorted_wrt (<) ns \<and> (\<forall>n \<in> set ns. n \<le> oe_seq oe) \<and> list_all2 (asked_as L (oe_prefix oe)) ns sent)"

text \<open>The book is a beginning of what was sent, at least all that was delivered.\<close>

definition orders_follow :: "lib \<Rightarrow> message list \<Rightarrow> nat \<Rightarrow> OrderState list \<Rightarrow> bool" where
  "orders_follow L sent k ords \<longleftrightarrow>
     k \<le> length ords \<and> length ords \<le> length sent \<and> list_all2 (order_of L) ords (take (length ords) sent)"

text \<open>Where no report is on its way, the client has the last one.\<close>

definition client_follows :: "lib \<Rightarrow> message list \<Rightarrow> nat \<Rightarrow> 'w OrderEntry \<Rightarrow> bool" where
  "client_follows L ms k oe \<longleftrightarrow> k \<le> length ms \<and>
     (\<forall>i. last_for i (drop k ms) = None \<longrightarrow> oe_orders oe i = map_option (view_in L) (last_for i ms))"

text \<open>The records are a beginning of what the venue sent, at least all that was delivered.\<close>

definition copy_follows :: "lib \<Rightarrow> message list \<Rightarrow> nat \<Rightarrow> 'w DropCopy \<Rightarrow> bool" where
  "copy_follows L ms k dc \<longleftrightarrow>
     k \<le> length (Reports dc) \<and> length (Reports dc) \<le> length ms \<and> dc_seen dc = rr_ExecID ` set (Reports dc) \<and>
     list_all2 (\<lambda>r m. \<exists>m'. carries m' m \<and> r = record_in L m') (Reports dc) (take (length (Reports dc)) ms)"

definition lab_inv :: "lib \<Rightarrow> wiring \<Rightarrow> 'w lab \<Rightarrow> bool" where
  "lab_inv L W c \<longleftrightarrow>
     reachable L (lab_venue c) \<and> wired W (lab_venue c) \<and> kindOf (wi_oe W) (lab_venue c) = KindOrderEntry \<and>
     (\<not> lab_muted c \<longrightarrow> shown L (wi_oe W) (lab_venue c)) \<and>
     numbered_orders L (lab_sent c) (lab_oe c) \<and>
     orders_follow L (lab_sent c) (lab_up c) (Orders (lab_venue c)) \<and>
     client_follows L (to_client W c) (lab_down c) (lab_oe c) \<and>
     copy_follows L (to_copy W c) (lab_copied c) (lab_dc c)"

lemma client_follows_grow: "client_follows L ms k oe \<Longrightarrow> client_follows L (ms @ new) k oe"
  by (auto simp: client_follows_def last_for_append split: option.splits)

lemma copy_follows_grow: "copy_follows L ms k dc \<Longrightarrow> copy_follows L (ms @ new) k dc"
  by (auto simp: copy_follows_def)

lemma numbered_grow:
  assumes "numbered_orders L sent oe" "asked_as L (oe_prefix oe) (oe_seq oe + 1) m"
  shows "numbered_orders L (sent @ [m]) (oe\<lparr>oe_seq := oe_seq oe + 1\<rparr>)"
proof -
  obtain ns where ns: "sorted_wrt (<) ns" "\<forall>n \<in> set ns. n \<le> oe_seq oe" "list_all2 (asked_as L (oe_prefix oe)) ns sent"
    using assms(1) by (auto simp: numbered_orders_def)
  show ?thesis
    unfolding numbered_orders_def
    by (rule exI [of _ "ns @ [oe_seq oe + 1]"])
      (use ns assms(2) in \<open>auto simp: sorted_wrt_append intro!: list_all2_appendI\<close>)
qed

lemma client_follows_back:
  assumes "client_follows L ms n oe" "k \<le> n"
  shows "client_follows L ms k oe"
proof -
  have "drop k ms = take (n - k) (drop k ms) @ drop n ms"
    using assms(2) by (metis append_take_drop_id drop_drop le_add_diff_inverse2)
  then have "last_for i (drop n ms) = None" if "last_for i (drop k ms) = None" for i
    using that last_for_append [of i "take (n - k) (drop k ms)" "drop n ms"] by (auto split: option.splits)
  then show ?thesis using assms by (auto simp: client_follows_def)
qed

lemma client_follows_take:
  assumes "client_follows L ms k oe" "next_of ms k m" "\<forall>m \<in> set ms. readable L m"
    and "OE_FromApp L m sid oe w = (answer, oe', w')"
  shows "client_follows L ms (Suc k) oe'" "oe_seq oe' = oe_seq oe" "oe_prefix oe' = oe_prefix oe"
proof -
  have k: "k < length ms" "carries m (ms ! k)" using assms(2) by (simp_all add: next_of_def)
  then have "readable L (ms ! k)" using assms(3) by simp
  then have "readable L m" using k(2) readable_carries by blast
  note view = readable_view [OF this]
  have oe': "oe' = oe\<lparr>oe_orders := (oe_orders oe)(ov_ClOrdID (view_in L m) \<mapsto> view_in L m),
      oe_replays := oe_replays oe + (if poss_dup L m then 1 else 0)\<rparr>"
    using OE_FromApp_readable [OF view(1,2), of sid oe w] assms(4) by simp
  then show "oe_seq oe' = oe_seq oe" "oe_prefix oe' = oe_prefix oe" by simp_all
  have m: "view_in L m = view_in L (ms ! k)" "msg_body (ms ! k) tagClOrdID = Some (ov_ClOrdID (view_in L m))"
    using view_carries [OF k(2)] view(3) k(2) unfolding carries_def by metis+
  have split: "drop k ms = ms ! k # drop (Suc k) ms" using k(1) by (simp add: Cons_nth_drop_Suc)
  have "oe_orders oe' i = map_option (view_in L) (last_for i ms)" if "last_for i (drop (Suc k) ms) = None" for i
  proof (cases "i = ov_ClOrdID (view_in L m)")
    case True
    have "last_for i ms = last_for i (take k ms @ ms ! k # drop (Suc k) ms)" by (simp flip: split)
    also have "\<dots> = Some (ms ! k)" using that True m(2) by (simp add: last_for_append)
    finally show ?thesis using True m(1) by (simp add: oe')
  next
    case False
    then have "last_for i (drop k ms) = None" using that m(2) by (simp add: split)
    then have "oe_orders oe i = map_option (view_in L) (last_for i ms)"
      using assms(1) by (simp add: client_follows_def)
    then show ?thesis using False by (simp add: oe')
  qed
  then show "client_follows L ms (Suc k) oe'" using k(1) by (simp add: client_follows_def)
qed

text \<open>What a record says of the message it was made from.\<close>

definition record_of :: "Report \<Rightarrow> message \<Rightarrow> bool" where
  "record_of r m \<longleftrightarrow> rr_ExecID r = exec_id m \<and> msg_body m tagClOrdID = Some (rr_ClOrdID r) \<and>
     msg_body m tagOrderID = Some (rr_OrderID r) \<and> msg_body m tagExecType = Some (rr_ExecType r) \<and>
     msg_body m tagOrdStatus = Some (rr_OrdStatus r)"

lemma built_record_of:
  assumes "carries m' (buildExecutionReport L now r)"
  shows "record_of (record_in L m') (buildExecutionReport L now r)"
proof -
  have "msg_body m' = msg_body (buildExecutionReport L now r)" using assms by (simp add: carries_def)
  then show ?thesis
    by (simp add: record_of_def record_in_def read_report_def exec_id_def build_body Let_def)
qed

lemma copy_records:
  assumes "copy_follows L ms k dc" "\<forall>m \<in> set ms. \<exists>now r. m = buildExecutionReport L now r"
  shows "list_all2 record_of (Reports dc) (take (length (Reports dc)) ms)"
proof -
  have "list_all2 (\<lambda>r m. (\<exists>m'. carries m' m \<and> r = record_in L m') \<and> m \<in> set ms)
      (Reports dc) (take (length (Reports dc)) ms)"
    using assms(1) by (auto simp: copy_follows_def list_all2_conv_all_nth)
  then show ?thesis
    by (rule list_all2_mono) (metis assms(2) built_record_of)
qed

lemma record_ids: "list_all2 record_of rs ms \<Longrightarrow> map rr_ExecID rs = map exec_id ms"
  by (auto simp: list_all2_conv_all_nth record_of_def intro!: nth_equalityI)

lemma copy_follows_take:
  assumes "copy_follows L ms k dc" "next_of ms k m" "\<forall>m \<in> set ms. \<exists>now r. m = buildExecutionReport L now r"
    and "distinct (map exec_id ms)" "DC_FromApp L m sid dc w = (answer, dc', w')"
  shows "copy_follows L ms (Suc k) dc'"
proof -
  let ?n = "length (Reports dc)"
  have n: "k \<le> ?n" "?n \<le> length ms" and seen: "dc_seen dc = rr_ExecID ` set (Reports dc)"
    and rec: "list_all2 (\<lambda>r m. \<exists>m'. carries m' m \<and> r = record_in L m') (Reports dc) (take ?n ms)"
    using assms(1) by (auto simp: copy_follows_def)
  have k: "k < length ms" "carries m (ms ! k)" using assms(2) by (simp_all add: next_of_def)
  obtain now r where r: "ms ! k = buildExecutionReport L now r" using assms(3) k(1) by (metis nth_mem)
  have id: "recordable L m" "rr_ExecID (record_in L m) = exec_id (ms ! k)"
    using built_record [of m L now r] k(2) by (simp_all add: r exec_id_def build_body)
  have ids: "rr_ExecID ` set (Reports dc) = exec_id ` set (take ?n ms)"
    using record_ids [OF copy_records [OF assms(1,3)]] by (metis list.set_map)
  have dc': "dc' = (if exec_id (ms ! k) \<in> dc_seen dc then dc\<lparr>dc_dupes := dc_dupes dc + 1\<rparr>
      else dc\<lparr>dc_seen := insert (exec_id (ms ! k)) (dc_seen dc), dc_reports := dc_reports dc @ [record_in L m]\<rparr>)"
    using DC_FromApp_recordable [OF id(1), of sid dc w] assms(5) id(2) by (simp split: if_splits)
  show ?thesis
  proof (cases "k < ?n")
    case True
    then have "exec_id (ms ! k) \<in> exec_id ` set (take ?n ms)"
      using k(1) by (auto simp: in_set_conv_nth intro!: imageI exI [of _ k])
    then have "dc' = dc\<lparr>dc_dupes := dc_dupes dc + 1\<rparr>" using dc' seen ids by simp
    then show ?thesis using True n seen rec by (simp add: copy_follows_def Reports_def)
  next
    case False
    with n have kn: "k = ?n" by simp
    have "exec_id (ms ! k) \<notin> exec_id ` set (take k ms)"
      using assms(4) k(1) by (auto simp: distinct_conv_nth in_set_conv_nth)
    then have d: "dc' = dc\<lparr>dc_seen := insert (exec_id (ms ! k)) (dc_seen dc), dc_reports := dc_reports dc @ [record_in L m]\<rparr>"
      using dc' seen ids kn by simp
    have "take (Suc k) ms = take k ms @ [ms ! k]" using k(1) by (rule take_Suc_conv_app_nth)
    then show ?thesis
      using d k seen rec kn id(2)
      by (auto simp: copy_follows_def Reports_def intro!: list_all2_appendI)
  qed
qed

subsection \<open>Every step keeps it\<close>

lemma sent_ids:
  assumes "numbered_orders L sent oe"
  shows "distinct (map (\<lambda>m. msg_body m tagClOrdID) sent)"
proof -
  obtain ns where ns: "sorted_wrt (<) ns" "list_all2 (asked_as L (oe_prefix oe)) ns sent"
    using assms by (auto simp: numbered_orders_def)
  have "msg_body m tagClOrdID = Some (clordid (oe_prefix oe) n)" if "asked_as L (oe_prefix oe) n m" for n m
    using that by (auto simp: asked_as_def new_order_message_def tag_defs Let_def)
  with ns(2) have "map (\<lambda>m. msg_body m tagClOrdID) sent = map (Some \<circ> clordid (oe_prefix oe)) ns"
    by (auto simp: list_all2_conv_all_nth intro!: nth_equalityI)
  moreover have "distinct ns" using ns(1) strict_sorted_iff by blast
  ultimately show ?thesis by (simp add: distinct_map inj_on_def clordid_inj)
qed

lemma order_of_id: "order_of L ord m \<Longrightarrow> msg_body m tagClOrdID = Some (os_ClOrdID ord)"
  by (auto simp: order_of_def new_order_message_def tag_defs Let_def)

text \<open>A message the client sent reaches the venue: a new order, or a duplicate it refuses.\<close>

lemma duplicate_changes_nothing:
  assumes "book_inv (app_book a)" "build_order L (msg_body m) = Inr ord" "Get (os_ClOrdID ord) (app_book a) \<noteq> None"
  shows "Orders (snd (onNewOrderSingle L m sid a)) = Orders a"
  using assms insert_new_dup [OF assms(3)] All_orders_alloc [OF assms(1), of "[ord]"]
  by (simp add: onNewOrderSingle_eq Orders_def)

lemma orders_follow_take:
  assumes "dec_roundtrip L" "dec_reads L" "reachable L a" "kindOf sid a \<noteq> KindDropCopy"
    and "numbered_orders L sent oe" "orders_follow L sent k (Orders a)" "next_of sent k m"
  shows "orders_follow L sent (Suc k) (Orders (handle L (EvFromApp m sid) a))"
proof -
  have inv: "book_inv (app_book a)" using venue_inv_book [OF reachable_inv [OF assms(3)]] .
  let ?n = "length (Orders a)"
  have k: "k < length sent" "carries m (sent ! k)" using assms(7) by (simp_all add: next_of_def)
  have n: "k \<le> ?n" "?n \<le> length sent" and ords: "list_all2 (order_of L) (Orders a) (take ?n sent)"
    using assms(6) by (auto simp: orders_follow_def)
  obtain i now asked where asked: "sent ! k = new_order_message L now i asked"
    using assms(5) k(1) by (auto simp: numbered_orders_def asked_as_def list_all2_conv_all_nth)
  have m: "msg_body m = msg_body (new_order_message L now i asked)"
    "msg_header m tagMsgType = msg_header (new_order_message L now i asked) tagMsgType"
    using k(2) asked by (simp_all add: carries_def)
  have id: "msg_body (sent ! k) tagClOrdID = Some i"
    by (simp add: asked new_order_message_def tag_defs Let_def)
  have ids: "map (\<lambda>m. msg_body m tagClOrdID) (take ?n sent) = map (Some \<circ> os_ClOrdID) (Orders a)"
    using ords by (auto simp: list_all2_conv_all_nth order_of_id intro!: nth_equalityI)
  have known: "i \<in> os_ClOrdID ` set (Orders a) \<longleftrightarrow> k < ?n"
  proof -
    have "i \<in> os_ClOrdID ` set (Orders a) \<longleftrightarrow> Some i \<in> set (map (Some \<circ> os_ClOrdID) (Orders a))" by auto
    also have "\<dots> \<longleftrightarrow> (\<exists>j < ?n. msg_body (sent ! j) tagClOrdID = msg_body (sent ! k) tagClOrdID)"
      unfolding ids [symmetric] id [symmetric] in_set_conv_nth using n by auto
    also have "\<dots> \<longleftrightarrow> k < ?n"
      using sent_ids [OF assms(5)] k(1) n(2) by (auto simp: distinct_conv_nth) (metis order_less_le_trans)
    finally show ?thesis .
  qed
  have get: "Get i (app_book a) = None \<longleftrightarrow> i \<notin> os_ClOrdID ` set (Orders a)"
    by (simp add: book_Get [OF inv] log_get_None Orders_def)
  show ?thesis
  proof (cases "k < ?n")
    case True
    let ?a = "noteReceived L m sid a"
    have "msg_header m tagMsgType = Some ''D''" using m(2) by (simp add: new_order_message_def Let_def)
    note app = FromApp_order [OF this assms(4), of L]
    have a: "app_book ?a = app_book a" "Orders ?a = Orders a" by (simp_all add: note_frame Orders_def)
    obtain ord where ord: "build_order L (msg_body m) = Inr ord" "os_ClOrdID ord = i"
      using build_order_message [OF assms(2), of now i asked] m(1) by simp
    have "Get (os_ClOrdID ord) (app_book ?a) \<noteq> None" using get known True by (simp add: ord(2) a)
    from duplicate_changes_nothing [OF _ ord(1) this] inv
    have "Orders (snd (onNewOrderSingle L m sid ?a)) = Orders ?a" by (simp add: a)
    then show ?thesis using assms(6) True by (simp add: app a orders_follow_def)
  next
    case False
    with n have kn: "k = ?n" by simp
    have "Get i (app_book a) = None" using False get known by simp
    note arrived = order_arrives [OF assms(2-4) this m]
    then obtain new where new: "Orders (snd (FromApp L m sid a)) = Orders a @ [new]" and same:
        "os_ClOrdID new = i" "os_Symbol new = no_Symbol asked" "os_Side new = no_Side asked"
        "os_Account new = no_Account asked" "os_OrderQty new = carried L 0 (no_OrderQty asked)" "os_Price new = carried L 2 (no_Price asked)"
        "os_OrdType new = ''2''" "os_TimeInForce new = TIFDay"
      by auto
    have "order_of L new (sent ! k)"
      unfolding order_of_def using asked same carried_exact [OF assms(1)] by (intro exI [of _ now] exI [of _ asked]) simp
    moreover have "take (Suc ?n) sent = take ?n sent @ [sent ! k]" using k(1) by (simp add: kn take_Suc_conv_app_nth)
    ultimately show ?thesis
      using ords k(1) kn by (auto simp: orders_follow_def new intro!: list_all2_appendI)
  qed
qed

lemma kindOf_wired:
  assumes "shown L oe a" "sole KindOrderEntry a oe"
  shows "kindOf oe a = KindOrderEntry"
proof -
  have "(oe, KindOrderEntry) \<in> set (app_kinds a)" using assms(2) by (simp add: sole_def)
  then have "map_of (app_kinds a) oe = Some KindOrderEntry" using assms(1) by (simp add: shown_def)
  then show ?thesis by (simp add: kindOf_def venue_consts)
qed

text \<open>A venue event keeps all that is not its own: the views, and the streams it feeds.\<close>

lemma venue_event_inv:
  assumes "lab_inv L W c" "enabled e (lab_venue c)" "\<not> muted \<Longrightarrow> \<not> lab_muted c \<and> e \<noteq> EvSilence True"
    and "orders_follow L (lab_sent c) k (Orders (handle L e (lab_venue c)))"
  shows "lab_inv L W (c\<lparr>lab_venue := handle L e (lab_venue c), lab_muted := muted, lab_up := k\<rparr>)"
proof -
  let ?a = "lab_venue c"
  have inv: "reachable L ?a" "wired W ?a" "kindOf (wi_oe W) ?a = KindOrderEntry"
    using assms(1) by (simp_all add: lab_inv_def)
  have "reachable L (handle L e ?a)" by (rule reachable_run [OF inv(1), of "[e]"]) (simp add: assms(2))
  moreover have "\<not> muted \<longrightarrow> shown L (wi_oe W) (handle L e ?a)"
    using assms(1,3) shown_handle unfolding lab_inv_def by blast
  moreover have "wired W (handle L e ?a)" by (rule wired_handle [OF inv(1,2)])
  moreover have "kindOf (wi_oe W) (handle L e ?a) = KindOrderEntry"
    using handle_later [OF inv(1), of e] inv(3) by (simp add: later_than_def kindOf_def)
  moreover have "client_follows L (messages_to (wi_oe W) (handle L e ?a)) (lab_down c) (lab_oe c)"
    using assms(1) outbox_grows [OF inv(1), of "wi_oe W" e] client_follows_grow unfolding lab_inv_def by metis
  moreover have "copy_follows L (messages_to (wi_dc W) (handle L e ?a)) (lab_copied c) (lab_dc c)"
    using assms(1) outbox_grows [OF inv(1), of "wi_dc W" e] copy_follows_grow unfolding lab_inv_def by metis
  ultimately show ?thesis using assms(1,4) by (simp add: lab_inv_def)
qed

text \<open>All that a reachable venue ever sends can be read.\<close>

lemma sent_readable:
  assumes "dec_reads L" "reachable L a"
  shows "\<forall>m \<in> set (messages_to sid a). readable L m"
  using reachable_built [OF assms(2)] build_readable [OF assms(1)]
  by (fastforce simp: outbox_built_def messages_to_def)

lemma orders_follow_step:
  "orders_follow L sent k ords \<Longrightarrow> list_all2 order_step ords ords' \<Longrightarrow> orders_follow L sent k ords'"
  by (auto simp: orders_follow_def list_all2_conv_all_nth intro: order_of_step)

lemma Send_taken:
  "Send L engine_takes now sid ord oe sent =
     (Inr (clordid (oe_prefix oe) (oe_seq oe + 1)), oe\<lparr>oe_seq := oe_seq oe + 1\<rparr>,
      sent @ [new_order_message L now (clordid (oe_prefix oe) (oe_seq oe + 1)) ord])"
  by (simp add: Send_def next_ClOrdID_eq engine_takes_def Let_def)

lemma Send_refused:
  "Send L (engine_refuses err) now sid ord oe sent = (Inl err, oe\<lparr>oe_seq := oe_seq oe + 1\<rparr>, sent)"
  by (simp add: Send_def next_ClOrdID_eq engine_refuses_def Let_def)

lemma client_follows_cong: "oe_orders oe' = oe_orders oe \<Longrightarrow> client_follows L ms k oe' = client_follows L ms k oe"
  by (simp add: client_follows_def)

lemma numbered_cong:
  "oe_prefix oe' = oe_prefix oe \<Longrightarrow> oe_seq oe \<le> oe_seq oe' \<Longrightarrow> numbered_orders L sent oe \<Longrightarrow> numbered_orders L sent oe'"
  by (fastforce simp: numbered_orders_def)

lemma lab_inv_act:
  assumes "dec_roundtrip L" "dec_reads L" "lab_inv L W c" "lab_act L W x c = Some c'"
  shows "lab_inv L W c'"
proof -
  have venue: "reachable L (lab_venue c)" "wired W (lab_venue c)" "kindOf (wi_oe W) (lab_venue c) = KindOrderEntry"
      "\<not> lab_muted c \<longrightarrow> shown L (wi_oe W) (lab_venue c)"
    and sent: "numbered_orders L (lab_sent c) (lab_oe c)"
    and ords: "orders_follow L (lab_sent c) (lab_up c) (Orders (lab_venue c))"
    and client: "client_follows L (to_client W c) (lab_down c) (lab_oe c)"
    and copy: "copy_follows L (to_copy W c) (lab_copied c) (lab_dc c)"
    using assms(3) by (simp_all add: lab_inv_def)
  show ?thesis
  proof (cases x)
    case (SendsOrder now ord)
    let ?m = "new_order_message L now (clordid (oe_prefix (lab_oe c)) (oe_seq (lab_oe c) + 1)) ord"
    have "asked_as L (oe_prefix (lab_oe c)) (oe_seq (lab_oe c) + 1) ?m" by (auto simp: asked_as_def)
    note more = numbered_grow [OF sent this]
    have "orders_follow L (lab_sent c @ [?m]) (lab_up c) (Orders (lab_venue c))"
      using ords by (auto simp: orders_follow_def)
    moreover have "c' = c\<lparr>lab_oe := (lab_oe c)\<lparr>oe_seq := oe_seq (lab_oe c) + 1\<rparr>, lab_sent := lab_sent c @ [?m]\<rparr>"
      using assms(4) SendsOrder by (simp add: Send_taken)
    ultimately show ?thesis
      using more venue client copy by (simp add: lab_inv_def client_follows_def)
  next
    case (SendFails now ord err)
    then have "c' = c\<lparr>lab_oe := (lab_oe c)\<lparr>oe_seq := oe_seq (lab_oe c) + 1\<rparr>\<rparr>"
      using assms(4) by (simp add: Send_refused)
    then show ?thesis
      using venue ords copy client numbered_cong [OF _ _ sent, of "(lab_oe c)\<lparr>oe_seq := oe_seq (lab_oe c) + 1\<rparr>"]
      by (simp add: lab_inv_def client_follows_def)
  next
    case (VenueTakes m)
    then have m: "next_of (lab_sent c) (lab_up c) m"
      and c': "c' = c\<lparr>lab_venue := handle L (EvFromApp m (wi_oe W)) (lab_venue c), lab_up := Suc (lab_up c)\<rparr>"
      using assms(4) by (simp_all split: if_splits)
    have "kindOf (wi_oe W) (lab_venue c) \<noteq> KindDropCopy" using venue(3) by (simp add: venue_consts)
    from venue_event_inv [OF assms(3) _ _ orders_follow_take [OF assms(1,2) venue(1) this sent ords m], of "lab_muted c"]
    show ?thesis by (simp add: c')
  next
    case (VenueSees e)
    then have e: "other_event e" "enabled e (lab_venue c)"
      and c': "c' = c\<lparr>lab_venue := handle L e (lab_venue c), lab_muted := (lab_muted c \<or> e = EvSilence True)\<rparr>"
      using assms(4) by (simp_all split: if_splits)
    have "orders_follow L (lab_sent c) (lab_up c) (Orders (handle L e (lab_venue c)))"
      using ords orders_follow_step other_event_orders [OF reachable_inv [OF venue(1)] e(1)] by blast
    from venue_event_inv [OF assms(3) e(2) _ this, of "lab_muted c \<or> e = EvSilence True"]
    show ?thesis by (simp add: c')
  next
    case (ClientTakes m)
    obtain answer oe w where oe: "OE_FromApp L m (wi_client W) (lab_oe c) (lab_world c) = (answer, oe, w)"
      by (cases "OE_FromApp L m (wi_client W) (lab_oe c) (lab_world c)") auto
    have m: "next_of (to_client W c) (lab_down c) m"
      and c': "c' = c\<lparr>lab_oe := oe, lab_world := w, lab_down := Suc (lab_down c)\<rparr>"
      using assms(4) oe ClientTakes by (simp_all split: if_splits)
    note taken = client_follows_take [OF client m sent_readable [OF assms(2) venue(1)] oe]
    show ?thesis
      using venue ords copy taken numbered_cong [OF taken(3) _ sent] by (simp add: lab_inv_def c')
  next
    case (CopyTakes m)
    obtain answer dc w where dc: "DC_FromApp L m (wi_copy W) (lab_dc c) (lab_world c) = (answer, dc, w)"
      by (cases "DC_FromApp L m (wi_copy W) (lab_dc c) (lab_world c)") auto
    have m: "next_of (to_copy W c) (lab_copied c) m"
      and c': "c' = c\<lparr>lab_dc := dc, lab_world := w, lab_copied := Suc (lab_copied c)\<rparr>"
      using assms(4) dc CopyTakes by (simp_all split: if_splits)
    have "\<forall>m \<in> set (to_copy W c). \<exists>now r. m = buildExecutionReport L now r"
      using reachable_built [OF venue(1)] by (fastforce simp: outbox_built_def messages_to_def)
    moreover have "distinct (map exec_id (to_copy W c))"
      using reachable_inv [OF venue(1)] by (auto simp: venue_inv_def sent_ok_def drawn_log_def)
    ultimately have "copy_follows L (to_copy W c) (Suc (lab_copied c)) dc"
      using copy_follows_take [OF copy m _ _ dc] by blast
    then show ?thesis using venue sent ords client by (simp add: lab_inv_def c')
  next
    case (ResendUp k)
    then show ?thesis
      using assms(4) venue sent ords client copy by (auto simp: lab_inv_def orders_follow_def split: if_splits)
  next
    case (ResendDown k)
    then have k: "k \<le> lab_down c" and c': "c' = c\<lparr>lab_down := k\<rparr>" using assms(4) by (simp_all split: if_splits)
    have "client_follows L (to_client W c) k (lab_oe c)"
      using client k client_follows_back by blast
    then show ?thesis using venue sent ords copy by (simp add: lab_inv_def c')
  next
    case (ResendCopy k)
    then show ?thesis
      using assms(4) venue sent ords client copy by (auto simp: lab_inv_def copy_follows_def split: if_splits)
  qed
qed

end
