(* ===== verification/LabProps.thy ===== *)
theory LabProps
  imports Lab
begin

text \<open>
  What the three programs guarantee together, in a lab with one session per role, whatever they
  and the engine do in between: the
  book and the client agree on every order no report of which is on its way; the book has what
  the client sent, once; the drop copy has what the venue sent, once; and once all is delivered
  every order sent is in the book and every client up to date.
\<close>

lemma lab_start_inv:
  assumes "started a" "wired W a"
  shows "lab_inv L W (lab_start W creds prefix copy_creds w a)"
proof -
  obtain getenv settings where load: "LoadKinds getenv settings (New NewBook) = (None, a)"
    using assms(1) by (auto simp: started_def)
  have "app_outbox a = []" "Orders a = []"
    using LoadKinds_frame [OF load] by (simp_all add: New_def Orders_def All_orders_def NewBook_def)
  moreover have "numbered_orders L [] oe" for oe :: "'a OrderEntry" by (simp add: numbered_orders_def)
  ultimately show ?thesis
    using assms started_reachable [OF assms(1)] shown_started [OF assms(1), of "wi_oe W" L] kindOf_wired [of L "wi_oe W" a]
    by (simp add: lab_inv_def lab_start_def wired_def messages_to_def orders_follow_def client_follows_def
        copy_follows_def SetClOrdIDPrefix_def NewOrderEntry_def NewDropCopy_def Reports_def)
qed

lemma lab_inv_run:
  "lab_run L W xs c = Some c' \<Longrightarrow> lab_inv L W c \<Longrightarrow> dec_roundtrip L \<Longrightarrow> dec_reads L \<Longrightarrow> lab_inv L W c'"
proof (induction xs arbitrary: c)
  case (Cons x xs)
  then show ?case using lab_inv_act by (fastforce simp: bind_eq_Some_conv)
qed simp

lemma lab_reachable_inv:
  assumes "dec_roundtrip L" "dec_reads L" "lab_reachable L W c"
  shows "lab_inv L W c"
proof -
  obtain creds prefix copy_creds w a xs where start: "started a" "wired W a"
    and run: "lab_run L W xs (lab_start W creds prefix copy_creds w a) = Some c"
    using assms(3) by (auto simp: lab_reachable_def)
  show ?thesis by (rule lab_inv_run [OF run lab_start_inv [OF start] assms(1,2)])
qed

lemma lab_invD:
  assumes "lab_inv L W c"
  shows "reachable L (lab_venue c)" "\<not> lab_muted c \<Longrightarrow> shown L (wi_oe W) (lab_venue c)" "wired W (lab_venue c)"
    "numbered_orders L (lab_sent c) (lab_oe c)"
    "orders_follow L (lab_sent c) (lab_up c) (Orders (lab_venue c))"
    "client_follows L (to_client W c) (lab_down c) (lab_oe c)"
    "copy_follows L (to_copy W c) (lab_copied c) (lab_dc c)"
  using assms by (simp_all add: lab_inv_def)

lemma inv_client_fits:
  assumes "dec_roundtrip L" "dec_reads L" "lab_inv L W c" "\<not> lab_muted c"
    and "last_for i (drop (lab_down c) (to_client W c)) = None"
  shows "view_fits i (Get i (app_book (lab_venue c))) (OE_Order i (lab_oe c))"
  using last_report_fits [OF assms(1,2) lab_invD(2) [OF assms(3,4)], of i] lab_invD(6) [OF assms(3)] assms(5)
  by (simp add: client_follows_def OE_Order_def)

text \<open>Both streams of the venue carry the same messages.\<close>

lemma same_streams:
  assumes "lab_inv L W c"
  shows "to_copy W c = to_client W c"
  using reachable_inv [OF lab_invD(1) [OF assms]] lab_invD(3) [OF assms]
  by (auto simp: venue_inv_def sent_ok_def wired_def)

subsection \<open>Settling\<close>

fun delivery :: "lab_step \<Rightarrow> bool" where
  "delivery (VenueTakes m) = True"
| "delivery (ClientTakes m) = True"
| "delivery (CopyTakes m) = True"
| "delivery _ = False"

definition settled :: "wiring \<Rightarrow> 'w lab \<Rightarrow> bool" where
  "settled W c \<longleftrightarrow> lab_up c = length (lab_sent c) \<and> lab_down c = length (to_client W c) \<and>
     lab_copied c = length (to_copy W c)"

text \<open>What is left to deliver: first to the venue, whose answers then add to the rest.\<close>

definition undelivered_up :: "'w lab \<Rightarrow> nat" where
  "undelivered_up c = length (lab_sent c) - lab_up c"

definition undelivered_down :: "wiring \<Rightarrow> 'w lab \<Rightarrow> nat" where
  "undelivered_down W c = (length (to_client W c) - lab_down c) + (length (to_copy W c) - lab_copied c)"

lemma deliver_one:
  assumes "lab_inv L W c" "\<not> settled W c"
  obtains x c' where "delivery x" "lab_act L W x c = Some c'" "lab_sent c' = lab_sent c" "lab_muted c' = lab_muted c"
    "(c', c) \<in> measures [undelivered_up, undelivered_down W]"
proof -
  note inv = lab_invD [OF assms(1)]
  have bounds: "lab_up c \<le> length (lab_sent c)" "lab_down c \<le> length (to_client W c)" "lab_copied c \<le> length (to_copy W c)"
    using inv(5-7) by (auto simp: orders_follow_def client_follows_def copy_follows_def)
  with assms(2) consider "lab_up c < length (lab_sent c)" | "lab_down c < length (to_client W c)"
    | "lab_copied c < length (to_copy W c)"
    by (fastforce simp: settled_def)
  then show ?thesis
  proof cases
    case 1
    show ?thesis
    proof (rule that)
      show "lab_act L W (VenueTakes (lab_sent c ! lab_up c)) c =
          Some (c\<lparr>lab_venue := handle L (EvFromApp (lab_sent c ! lab_up c) (wi_oe W)) (lab_venue c),
                  lab_up := Suc (lab_up c)\<rparr>)"
        using 1 by (simp add: next_of_def)
    qed (use 1 in \<open>auto simp: undelivered_up_def\<close>)
  next
    case 2
    let ?m = "to_client W c ! lab_down c"
    obtain answer oe w where oe: "OE_FromApp L ?m (wi_client W) (lab_oe c) (lab_world c) = (answer, oe, w)"
      by (cases "OE_FromApp L ?m (wi_client W) (lab_oe c) (lab_world c)") auto
    show ?thesis
    proof (rule that)
      show "lab_act L W (ClientTakes ?m) c = Some (c\<lparr>lab_oe := oe, lab_world := w, lab_down := Suc (lab_down c)\<rparr>)"
        using 2 oe by (simp add: next_of_def)
    qed (use 2 in \<open>auto simp: undelivered_up_def undelivered_down_def\<close>)
  next
    case 3
    let ?m = "to_copy W c ! lab_copied c"
    obtain answer dc w where dc: "DC_FromApp L ?m (wi_copy W) (lab_dc c) (lab_world c) = (answer, dc, w)"
      by (cases "DC_FromApp L ?m (wi_copy W) (lab_dc c) (lab_world c)") auto
    show ?thesis
    proof (rule that)
      show "lab_act L W (CopyTakes ?m) c = Some (c\<lparr>lab_dc := dc, lab_world := w, lab_copied := Suc (lab_copied c)\<rparr>)"
        using 3 dc by (simp add: next_of_def)
    qed (use 3 in \<open>auto simp: undelivered_up_def undelivered_down_def\<close>)
  qed
qed

lemma can_settle:
  assumes "dec_roundtrip L" "dec_reads L" "lab_inv L W c"
  shows "\<exists>xs c'. (\<forall>x \<in> set xs. delivery x) \<and> lab_run L W xs c = Some c' \<and> lab_inv L W c' \<and>
    settled W c' \<and> lab_sent c' = lab_sent c \<and> lab_muted c' = lab_muted c"
  using assms(3)
proof (induction c rule: wf_induct_rule [OF wf_measures [of "[undelivered_up, undelivered_down W]"]])
  case (1 c)
  show ?case
  proof (cases "settled W c")
    case True
    then show ?thesis using 1(2) by (intro exI [of _ "[]"]) simp
  next
    case False
    obtain x c1 where x: "delivery x" "lab_act L W x c = Some c1" "lab_sent c1 = lab_sent c" "lab_muted c1 = lab_muted c"
      "(c1, c) \<in> measures [undelivered_up, undelivered_down W]"
      by (rule deliver_one [OF 1(2) False])
    from 1(1) [OF x(5) lab_inv_act [OF assms(1,2) 1(2) x(2)]]
    obtain xs c' where "\<forall>x \<in> set xs. delivery x" "lab_run L W xs c1 = Some c'" "lab_inv L W c'"
      "settled W c'" "lab_sent c' = lab_sent c1" "lab_muted c' = lab_muted c1" by blast
    with x show ?thesis by (intro exI [of _ "x # xs"] exI [of _ c']) simp
  qed
qed

subsection \<open>A lab that runs\<close>

definition demo_wiring :: wiring where
  "demo_wiring = \<lparr>wi_oe = demo_oe, wi_dc = demo_dc, wi_client = demo_client, wi_copy = demo_client\<rparr>"

definition demo_id :: string where "demo_id = clordid ''x'' (Suc 0)"

definition demo_lab :: "unit lab" where
  "demo_lab = lab_start demo_wiring demo_creds ''x'' demo_creds () demo_start"

lemma demo_wired: "wired demo_wiring demo_start"
  by (simp add: wired_def demo_wiring_def demo_roles)

lemma demo_lab_run:
  "lab_run demo_lib demo_wiring xs demo_lab = Some c \<Longrightarrow> lab_reachable demo_lib demo_wiring c"
  unfolding lab_reachable_def demo_lab_def using demo_started demo_wired by blast

lemma lab_run_append: "lab_run L W (xs @ ys) c = Option.bind (lab_run L W xs c) (lab_run L W ys)"
  by (induction xs arbitrary: c) (simp_all split: bind_splits)

abbreviation demo_message :: message where
  "demo_message \<equiv> new_order_message demo_lib 0 demo_id demo_new_order"

text \<open>An order that is sent, delivered, and delivered again.\<close>

definition demo_twice :: "lab_step list" where
  "demo_twice = [SendsOrder 0 demo_new_order, VenueTakes demo_message, ResendUp 0, VenueTakes demo_message]"

lemma demo_twice_run:
  obtains c where "lab_run demo_lib demo_wiring demo_twice demo_lab = Some c" "lab_up c = 1" "lab_sent c = [demo_message]"
    "\<not> lab_muted c"
proof -
  let ?step = "\<lambda>a. handle demo_lib (EvFromApp demo_message demo_oe) a"
  have "lab_run demo_lib demo_wiring demo_twice demo_lab =
    Some (demo_lab\<lparr>lab_venue := ?step (?step demo_start), lab_oe := (lab_oe demo_lab)\<lparr>oe_seq := 1\<rparr>,
      lab_sent := [demo_message], lab_up := 1\<rparr>)"
    by (simp add: demo_twice_def Send_taken demo_lab_def lab_start_def next_of_def demo_id_def
        SetClOrdIDPrefix_def NewOrderEntry_def demo_wiring_def del: handle.simps)
  then show ?thesis by (rule that) (simp_all add: demo_lab_def lab_start_def)
qed

lemma demo_settled:
  obtains c :: "unit lab" where "lab_reachable demo_lib demo_wiring c" "settled demo_wiring c" "lab_sent c = [demo_message]"
    "\<not> lab_muted c" "map os_ClOrdID (Orders (lab_venue c)) = [demo_id]"
proof -
  obtain c where c: "lab_run demo_lib demo_wiring demo_twice demo_lab = Some c" "lab_sent c = [demo_message]"
      "\<not> lab_muted c"
    by (rule demo_twice_run)
  note inv = lab_reachable_inv [OF demo_dec_roundtrip demo_dec_reads demo_lab_run [OF c(1)]]
  obtain xs c' where xs: "lab_run demo_lib demo_wiring xs c = Some c'" and inv': "lab_inv demo_lib demo_wiring c'"
    and ready: "settled demo_wiring c'" "lab_sent c' = lab_sent c" "lab_muted c' = lab_muted c"
    using can_settle [OF demo_dec_roundtrip demo_dec_reads inv] by blast
  have "list_all2 (order_of demo_lib) (Orders (lab_venue c')) [demo_message]"
    using lab_invD(5) [OF inv'] ready c(2) le_antisym by (fastforce simp: orders_follow_def settled_def)
  then obtain ord where ord: "Orders (lab_venue c') = [ord]" "order_of demo_lib ord demo_message"
    by (auto simp: list_all2_Cons2)
  have "msg_body demo_message tagClOrdID = Some demo_id" by (simp add: new_order_message_def tag_defs Let_def)
  then have "os_ClOrdID ord = demo_id" using order_of_id [OF ord(2)] by simp
  moreover have "lab_run demo_lib demo_wiring (demo_twice @ xs) demo_lab = Some c'"
    using c(1) xs by (simp add: lab_run_append)
  ultimately show ?thesis using that [of c', OF demo_lab_run ready(1)] ready(2,3) c(2,3) ord(1) by simp
qed

subsection \<open>Properties\<close>

text \<open>
  C6. At every moment, in a lab with one session per role whose venue was never silenced, client
  and venue agree on every order no report of which is on its way: the client has a view exactly
  when the book has the order, with its present status, with its executed and remaining quantity
  if they are whole numbers, and with its average price if that has at most two decimals.
  Whatever was commanded, delivered, delivered again or refused by the engine before.
\<close>

theorem client_and_book_agree:
  assumes "dec_roundtrip L" "dec_reads L" "lab_reachable L W c" "\<not> lab_muted c"
    and "last_for i (drop (lab_down c) (to_client W c)) = None"
  shows "case Get i (app_book (lab_venue c)) of
      None \<Rightarrow> OE_Order i (lab_oe c) = None
    | Some ord \<Rightarrow> \<exists>v. OE_Order i (lab_oe c) = Some v \<and> ov_ClOrdID v = i \<and> ov_OrdStatus v = os_Status ord \<and>
        (has_scale 0 (os_CumQty ord) \<longrightarrow> ov_CumQty v = os_CumQty ord) \<and>
        (has_scale 0 (LeavesQty ord) \<longrightarrow> ov_LeavesQty v = LeavesQty ord) \<and>
        (has_scale 2 (os_AvgPx ord) \<longrightarrow> ov_AvgPx v = os_AvgPx ord)"
  using inv_client_fits [OF assms(1,2) lab_reachable_inv [OF assms(1-3)] assms(4,5)] by (simp add: view_fits_def)

theorem client_and_book_agree_witness:
  "\<exists>(c :: unit lab) v. lab_reachable demo_lib demo_wiring c \<and> OE_Order demo_id (lab_oe c) = Some v \<and> ov_ClOrdID v = demo_id"
proof -
  obtain c :: "unit lab" where c: "lab_reachable demo_lib demo_wiring c" "settled demo_wiring c"
      "\<not> lab_muted c" "map os_ClOrdID (Orders (lab_venue c)) = [demo_id]"
    by (rule demo_settled)
  have "last_for demo_id (drop (lab_down c) (to_client demo_wiring c)) = None"
    using c(2) by (simp add: settled_def)
  note agree = client_and_book_agree [OF demo_dec_roundtrip demo_dec_reads c(1,3) this]
  have book: "book_inv (app_book (lab_venue c))"
    using venue_inv_book [OF reachable_inv [OF lab_invD(1) [OF lab_reachable_inv [OF demo_dec_roundtrip demo_dec_reads c(1)]]]] .
  have "demo_id \<in> os_ClOrdID ` set (Orders (lab_venue c))"
    using c(4) by (metis list.set_intros(1) list.set_map)
  then have "Get demo_id (app_book (lab_venue c)) \<noteq> None"
    by (simp add: book_Get [OF book] log_get_None Orders_def)
  with agree obtain v where "OE_Order demo_id (lab_oe c) = Some v" "ov_ClOrdID v = demo_id"
    by (fastforce split: option.splits)
  with c(1) show ?thesis by blast
qed

text \<open>
  C5. No order is invented, lost or doubled on its way: the book holds the first orders the
  client sent, each of them once, in the order they were sent, with the symbol, side and account
  that were asked for and the quantity and price that \<open>Send\<close> wrote: without decimals and with
  two, which are those asked for if they have no more places. These are at least all that were
  delivered, and it stays so when the engine delivers any of them again. (One session per role.)
\<close>

theorem orders_exactly_once:
  assumes "dec_roundtrip L" "dec_reads L" "lab_reachable L W c"
  shows "let n = length (Orders (lab_venue c))
         in lab_up c \<le> n \<and> n \<le> length (lab_sent c) \<and>
            list_all2 (order_of L) (Orders (lab_venue c)) (take n (lab_sent c)) \<and>
            distinct (map os_ClOrdID (Orders (lab_venue c)))"
proof -
  note inv = lab_reachable_inv [OF assms]
  show ?thesis
    using lab_invD(5) [OF inv] book_distinct_ids [OF venue_inv_book [OF reachable_inv [OF lab_invD(1) [OF inv]]]]
    by (simp add: orders_follow_def Orders_def Let_def)
qed

theorem orders_exactly_once_witness:
  "\<exists>c. lab_run demo_lib demo_wiring demo_twice demo_lab = Some c \<and> length (Orders (lab_venue c)) = 1"
proof -
  obtain c where c: "lab_run demo_lib demo_wiring demo_twice demo_lab = Some c" "lab_up c = 1"
    "lab_sent c = [demo_message]"
    by (rule demo_twice_run)
  then show ?thesis
    using orders_exactly_once [OF demo_dec_roundtrip demo_dec_reads demo_lab_run [OF c(1)]] by (simp add: Let_def)
qed

text \<open>
  C7. The drop copy is a beginning of the execution log: at every moment its records are those
  of the first reports the venue sent, to the order-entry client as well, each once and in
  order, at least of all that were delivered to it; whatever was delivered again.
\<close>

theorem copy_is_beginning:
  assumes "dec_roundtrip L" "dec_reads L" "lab_reachable L W c"
  shows "let n = length (Reports (lab_dc c))
         in lab_copied c \<le> n \<and> n \<le> length (to_client W c) \<and>
            list_all2 record_of (Reports (lab_dc c)) (take n (to_client W c))"
proof -
  note inv = lab_reachable_inv [OF assms]
  have "\<forall>m \<in> set (to_copy W c). \<exists>now r. m = buildExecutionReport L now r"
    using reachable_built [OF lab_invD(1) [OF inv]] by (fastforce simp: outbox_built_def messages_to_def)
  from copy_records [OF lab_invD(7) [OF inv] this] show ?thesis
    using lab_invD(7) [OF inv] by (simp add: copy_follows_def same_streams [OF inv] Let_def)
qed

theorem copy_is_beginning_witness:
  "\<exists>c :: unit lab. lab_reachable demo_lib demo_wiring c \<and> lab_sent c = [demo_message] \<and>
     list_all2 record_of (Reports (lab_dc c)) (to_client demo_wiring c)"
proof -
  obtain c :: "unit lab" where c: "lab_reachable demo_lib demo_wiring c" "settled demo_wiring c" "lab_sent c = [demo_message]"
    by (rule demo_settled)
  have "lab_copied c = length (to_client demo_wiring c)"
    using c(2) same_streams [OF lab_reachable_inv [OF demo_dec_roundtrip demo_dec_reads c(1)]]
    by (simp add: settled_def)
  then have "list_all2 record_of (Reports (lab_dc c)) (to_client demo_wiring c)"
    using copy_is_beginning [OF demo_dec_roundtrip demo_dec_reads c(1)] le_antisym by (fastforce simp: Let_def)
  with c show ?thesis by blast
qed

text \<open>
  C8. From every state the lab can settle by deliveries alone, with no new command or order and
  no resend; then the book holds every order the client ever sent, with the terms the wire
  carried, the drop copy has recorded every report the venue sent, and, if the venue was never
  silenced, the client sees each order with its present status. (One session per role.)
\<close>

theorem lab_settles:
  assumes "dec_roundtrip L" "dec_reads L" "lab_reachable L W c"
  shows "\<exists>xs c'. (\<forall>x \<in> set xs. delivery x) \<and> lab_run L W xs c = Some c' \<and>
    list_all2 (order_of L) (Orders (lab_venue c')) (lab_sent c) \<and>
    (\<not> lab_muted c \<longrightarrow> (\<forall>ord \<in> set (Orders (lab_venue c')). \<exists>v. OE_Order (os_ClOrdID ord) (lab_oe c') = Some v \<and>
       ov_OrdStatus v = os_Status ord)) \<and>
    list_all2 record_of (Reports (lab_dc c')) (to_client W c')"
proof -
  obtain xs c' where xs: "\<forall>x \<in> set xs. delivery x" "lab_run L W xs c = Some c'"
    and inv: "lab_inv L W c'" and settled: "settled W c'"
    and sent: "lab_sent c' = lab_sent c" and muted: "lab_muted c' = lab_muted c"
    using can_settle [OF assms(1,2) lab_reachable_inv [OF assms]] by blast
  have book: "book_inv (app_book (lab_venue c'))" using venue_inv_book [OF reachable_inv [OF lab_invD(1) [OF inv]]] .
  have "list_all2 (order_of L) (Orders (lab_venue c')) (lab_sent c)"
    using lab_invD(5) [OF inv] settled le_antisym by (fastforce simp: orders_follow_def settled_def sent)
  moreover have "\<exists>v. OE_Order (os_ClOrdID ord) (lab_oe c') = Some v \<and> ov_OrdStatus v = os_Status ord"
    if "\<not> lab_muted c" "ord \<in> set (Orders (lab_venue c'))" for ord
  proof -
    have "Get (os_ClOrdID ord) (app_book (lab_venue c')) = Some ord"
      using that(2) log_get_iff [OF book_distinct_ids [OF book]] by (simp add: book_Get [OF book] Orders_def)
    moreover have "last_for (os_ClOrdID ord) (drop (lab_down c') (to_client W c')) = None"
      using settled by (simp add: settled_def)
    ultimately show ?thesis
      using that(1) muted inv_client_fits [OF assms(1,2) inv, of "os_ClOrdID ord"] by (auto simp: view_fits_def)
  qed
  moreover have "list_all2 record_of (Reports (lab_dc c')) (to_client W c')"
  proof -
    have "\<forall>m \<in> set (to_copy W c'). \<exists>now r. m = buildExecutionReport L now r"
      using reachable_built [OF lab_invD(1) [OF inv]] by (fastforce simp: outbox_built_def messages_to_def)
    from copy_records [OF lab_invD(7) [OF inv] this] show ?thesis
      using lab_invD(7) [OF inv] settled by (simp add: copy_follows_def settled_def same_streams [OF inv])
  qed
  ultimately show ?thesis using xs by blast
qed

theorem lab_settles_witness:
  "\<exists>xs c. lab_run demo_lib demo_wiring (SendsOrder 0 demo_new_order # xs) demo_lab = Some c \<and>
     length (Orders (lab_venue c)) = 1"
proof -
  obtain c where c: "lab_run demo_lib demo_wiring [SendsOrder 0 demo_new_order] demo_lab = Some c"
    "lab_sent c = [demo_message]"
    by (simp add: Send_taken demo_lab_def lab_start_def demo_id_def SetClOrdIDPrefix_def NewOrderEntry_def)
  obtain xs c' where "lab_run demo_lib demo_wiring xs c = Some c'"
    "list_all2 (order_of demo_lib) (Orders (lab_venue c')) (lab_sent c)"
    using lab_settles [OF demo_dec_roundtrip demo_dec_reads demo_lab_run [OF c(1)]] by blast
  then have "lab_run demo_lib demo_wiring (SendsOrder 0 demo_new_order # xs) demo_lab = Some c'"
    "length (Orders (lab_venue c')) = 1"
    using c lab_run_append [of demo_lib demo_wiring "[SendsOrder 0 demo_new_order]" xs demo_lab]
    by (auto dest: list_all2_lengthD)
  then show ?thesis by blast
qed

end
