(* ===== verification/Spec2Isabelle.thy ===== *)
theory Spec2Isabelle
  imports Fixlog RaceRuns RaceLog RaceLogon DisconnectProps LogonProps DropFeed WatchProps SendProps Admin Settings
    RejectLoop Shutdown Boot Lifecycle SeqProps Phases Processes Secrecy ClientLog WatchLog LabProps
begin

text \<open>
  A verification library for fix-session-lab: a fake FIX venue (\<open>cmd/exchange\<close>) with an
  order-entry and a drop-copy session, an order-entry client (\<open>cmd/oe-client\<close>) and a drop-copy
  client (\<open>cmd/dc-client\<close>), all on the engine quickfixgo.

  \<^bold>\<open>How the parts interact.\<close> The engine calls an application with every message and every change of
  a session. The venue keeps a book of orders; a client's NewOrderSingle inserts one, commands
  of the admin API fill, cancel or reject it, and the loss of a session may cancel every day
  order. Each change is published as one execution report, under one ExecID, to both sessions.
  The order-entry client builds its view of its orders from these reports; the drop-copy
  client records them. A watchdog on the client forces a reconnect when application messages
  stop, through a supervisor that replaces the initiator. Every message also passes through a
  log that masks secrets.

  \<^bold>\<open>Theories and code.\<close>
  \<open>Prelude\<close>, \<open>GoLib\<close>: 64-bit wrap-around, index searches on strings, splitting and joining, and what
  the source uses of Go's strconv, strings and fmt. \<open>FixMsg\<close>: messages as maps from tags to
  bytes, decimals as rationals, the record \<open>lib\<close> of the engine's and the decimal library's
  conversions, the errors.
  \<open>Fixlog\<close> is \<open>internal/fixlog/redact.go\<close>. \<open>Logon\<close>, \<open>Client\<close>, \<open>Settings\<close>, \<open>Watchdog\<close> and
  \<open>Supervisor\<close> are \<open>internal/session\<close>. \<open>OrderEntry\<close> and \<open>DropCopy\<close> are \<open>internal/client\<close>.
  \<open>Book\<close> (\<open>book.go\<close>, \<open>const.go\<close>), \<open>Venue\<close> (\<open>exchange.go\<close>, \<open>reports.go\<close>) and \<open>Commands\<close>
  (\<open>commands.go\<close>) are \<open>internal/exchange\<close>; \<open>Admin\<close> is \<open>internal/admin/admin.go\<close>. \<open>OeMain\<close>,
  \<open>Shutdown\<close>, \<open>Teardown\<close>, \<open>Boot\<close> and \<open>Processes\<close> are the binaries of \<open>cmd\<close>: the closures, the signals, the
  deferred calls, the start, and the whole of \<open>run\<close> and \<open>main\<close>. A struct is a record with the
  source's fields behind a prefix (\<open>app_\<close>, \<open>bk_\<close>, \<open>os_\<close>, \<open>oe_\<close>, \<open>dc_\<close>, \<open>wd_\<close>, \<open>sv_\<close>); a method is a
  function that takes the record last and returns it updated, after its results; an error is
  \<open>Some\<close> or \<open>Inl\<close>. Pointers to orders are addresses into a heap kept in the book.

  \<^bold>\<open>The venue as a machine.\<close> \<open>VenueStep\<close> makes every way into the exchange application an event,
  with \<open>handle\<close> its handler; \<open>reachable\<close> states start from loaded settings. \<open>IdSource\<close> and
  \<open>OrderLog\<close> are the interfaces: a source of fresh identifiers (ExecIDs, OrderIDs, ClOrdIDs) and an
  abstract book, a list of orders, that \<open>BookSpec\<close> proves the pointer structure to implement.
  \<open>Handlers\<close> is a third: the locale \<open>venue_closed\<close>, a claim about the venue that every publication
  of a report keeps, is kept by every handler; what a client is shown, what the drop-copy
  client builds, the phases of an order and the growth of the outbox are its interpretations. \<open>VenueInv\<close> holds the
  invariant. \<open>Races\<close> cuts every callback, command and timer into the regions it holds a lock for
  and lets any goroutines interleave; a goroutine that is not interrupted runs its handler.

  \<^bold>\<open>The lab as one system.\<close> \<open>Lab\<close> joins the venue, the order-entry client and the drop-copy client by
  three streams of messages: orders to the venue, reports to each client. A step is an order the
  client sends (or one the engine refuses), the delivery of the next message of a stream, any
  other event of the venue, or a return of the engine to an earlier message, from which it
  delivers again. It delivers in order and loses nothing, as FIX promises. In a silence the
  venue drops reports on purpose, so what the client knows is stated for a venue that was never
  silenced (\<open>lab_muted\<close>); a client that is rebuilt is left out here (it is in \<open>SendProps\<close>). The
  client may send any order, and the venue has one session per role. \<open>lab_inv\<close> says how each
  receiver follows its stream; \<open>LabProps\<close> shows that orders arrive exactly once with the terms the
  wire carries, that client, venue and drop copy agree, and that the lab can always settle by
  deliveries alone.

  \<^bold>\<open>What is shown.\<close> Orders: \<open>VenueProps\<close> and \<open>CommandProps\<close> (each command on every branch, the
  history of an order along any run, what is sent), \<open>Phases\<close> (the statuses a session is sent are a
  path of the abstract order). Interleaving: \<open>RaceProps\<close> (orders), \<open>RaceLog\<close> (one ExecID per report,
  both sessions are sent the same, no execution is lost), \<open>RaceLogon\<close> (credentials), \<open>RaceRuns\<close> (what
  interleaving breaks). Cancel on disconnect: \<open>DisconnectProps\<close>. Logon, roles, sequence gap:
  \<open>LogonProps\<close>; sequence numbers against the traffic: \<open>SeqProps\<close>. Control plane: \<open>Admin\<close> (a request is
  an event; an error changes nothing). The feed: \<open>Feed\<close>, \<open>FeedProps\<close>, \<open>DropFeed\<close> (the client's view is
  the book; each report recorded once; no report is ever refused). \<open>Lifecycle\<close>: one order from
  the client and back. \<open>RejectLoop\<close>: every exchange of rejects ends, after two at most. The client process:
  \<open>SendProps\<close>, \<open>WatchProps\<close>, \<open>Shutdown\<close>, \<open>Teardown\<close>, \<open>Boot\<close>. From process to process: \<open>Processes\<close>. The
  log: \<open>Fixlog\<close>. What the programs print: \<open>Narration\<close> (the venue's lines, and that no report is dropped
  without one), \<open>Secrecy\<close> (its passwords show in nothing it prints, sends or answers),
  \<open>ClientLog\<close> (a client's console is as good as its state), \<open>WatchLog\<close> (the lines of the watchdog and the
  supervisor account for every reconnect). \<open>Demo\<close> has the concrete venue, library and runs the witnesses use.

  \<^bold>\<open>Bounds and fuel.\<close> Runs are finite lists of events, schedules or observations of any length.
  \<open>waitForLogon\<close> and \<open>send_loop\<close> may run for ever: they take one observation per round and answer
  \<open>None\<close> when the list ends first. The fuel of \<open>conversation\<close> counts deliveries; three are enough
  and more change nothing. Counters that start at zero and count events are natural numbers;
  integers that come from outside (window, sequence number, tag) are kept at 64 bits. Time is
  integer nanoseconds.

  \<^bold>\<open>Not modelled.\<close> The FIX engine and the decimal library: they are third-party and enter as
  parameters (\<open>lib\<close>, \<open>settings_api\<close>, \<open>engine\<close>, \<open>reject_engine\<close>, \<open>SendToTarget\<close>) with named
  hypotheses (\<open>int_roundtrip\<close>, \<open>dec_roundtrip\<close>, \<open>dec_reads\<close>, \<open>div_close\<close>, \<open>overlay_laws\<close>,
  \<open>engine_laws\<close>, \<open>reject_laws\<close>), each with an instance in a witness. The formatting of
  printed lines (a line is its values), what the binaries log themselves, JSON and the HTTP
  server, the parsing of flags, and the file store. The venue is given no failing
  \<open>SendToTarget\<close>: its error is only printed.

  \<^bold>\<open>Go's map order.\<close> A range loop over the map of roles begins somewhere else at every call:
  \<open>sessionOf\<close> takes the place where it begins, and \<open>lib_range\<close> gives it anew for each report and
  role, as an arbitrary function. \<open>LoadKinds\<close> accepts two sessions of one role, and then each
  report goes to an arbitrary one of them (\<open>role_is_picked\<close> in \<open>LogonProps\<close>). What is claimed of
  what \<^emph>\<open>one\<close> session is sent therefore says that it is alone in its role (\<open>sole\<close>, \<open>has_role\<close>); what
  is claimed of orders, of the phases of an order and of ExecIDs needs no such condition.

  \<^bold>\<open>What the engine is taken to do.\<close> A missing field of a message is answered by a business
  reject, a malformed one by a session reject (\<open>FieldMissing\<close>, \<open>FieldMalformed\<close>,
  \<open>docs/drills/11-session-reject.md\<close>). A \<open>Start\<close> that fails may leave its own initiator or
  acceptor running: \<open>left\<close> in \<open>engine_laws\<close> keeps account of those, and the claims about what runs
  at the end exclude them. A decimal is read back as the wire carries it (\<open>carried\<close>), which is the
  value itself if it has no more places than were written; \<open>Send\<close> writes quantities with none and
  prices with two, and checks neither.
\<close>

end
